(* ===== verification/Prelude.thy ===== *)
theory Prelude
  imports Complex_Main
begin

text \<open>
  Prelude of the NSCA-ng development: the types every component shares (bytes, C strings,
  outcomes of code that may end the process), and the lemmas on them.

  A byte is an Isabelle character (a value of 0..255). A C string is the list of its
  bytes without the terminating NUL. A memory object (the result of \<open>xmalloc\<close>, a buffer
  block) is the list of all its bytes, so that the C string found in it is what precedes
  the first NUL byte: \<open>cstr\<close>. Memory that was allocated and never written holds
  \<open>undefined\<close> bytes, about which nothing can be proved.

  Code that calls \<open>die()\<close> or violates an \<open>assert()\<close> does not return: it is a
  function into \<open>'a outcome\<close>, whose \<open>Die\<close> carries the reason.
\<close>

section \<open>Bytes and C strings\<close>

type_synonym byte = char
type_synonym bytes = "char list"

abbreviation NUL :: byte where "NUL \<equiv> CHR 0x00"
abbreviation TAB :: byte where "TAB \<equiv> CHR 0x09"
abbreviation LF :: byte where "LF \<equiv> CHR 0x0A"
abbreviation CR :: byte where "CR \<equiv> CHR 0x0D"
abbreviation SPACE :: byte where "SPACE \<equiv> CHR 0x20"
abbreviation BACKSLASH :: byte where "BACKSLASH \<equiv> CHR 0x5C"

text \<open>The C string that starts at the first byte of a memory object.\<close>

definition cstr :: "bytes \<Rightarrow> string" where
  "cstr m = takeWhile (\<lambda>c. c \<noteq> NUL) m"

text \<open>The byte \<open>*s\<close> a pointer into a C string reads.\<close>

fun deref :: "string \<Rightarrow> byte" where
  "deref [] = NUL"
| "deref (c # s) = c"

text \<open>\<open>memcpy\<close> of \<open>src\<close> to offset \<open>off\<close> of a memory object.\<close>

definition memcpy_at :: "nat \<Rightarrow> bytes \<Rightarrow> bytes \<Rightarrow> bytes" where
  "memcpy_at off src m = take off m @ src @ drop (off + length src) m"

lemma cstr_simps [simp]:
  "cstr [] = []"
  "cstr (c # m) = (if c = NUL then [] else c # cstr m)"
  by (simp_all add: cstr_def)

lemma cstr_no_NUL [simp]: "NUL \<notin> set (cstr m)"
  by (induction m) auto

lemma cstr_id: "NUL \<notin> set s \<Longrightarrow> cstr s = s"
  by (induction s) auto

lemma cstr_append_NUL: "NUL \<notin> set s \<Longrightarrow> cstr (s @ NUL # m) = s"
  by (induction s) auto

lemma cstr_append_NUL' [simp]: "cstr (s @ NUL # m) = cstr s"
  by (induction s) auto

lemma length_memcpy_at [simp]:
  "off + length src \<le> length m \<Longrightarrow> length (memcpy_at off src m) = length m"
  by (simp add: memcpy_at_def)

section \<open>Outcomes\<close>

datatype 'a outcome = Die string | Ret 'a

definition obind :: "'a outcome \<Rightarrow> ('a \<Rightarrow> 'b outcome) \<Rightarrow> 'b outcome" where
  "obind m f = (case m of Die e \<Rightarrow> Die e | Ret x \<Rightarrow> f x)"

lemma obind_simps [simp]:
  "obind (Ret x) f = f x"
  "obind (Die e) f = Die e"
  by (simp_all add: obind_def)

lemma obind_eq_Ret: "obind m f = Ret y \<longleftrightarrow> (\<exists>x. m = Ret x \<and> f x = Ret y)"
  by (cases m) auto

lemma obind_RetE [elim]:
  assumes "obind m f = Ret y"
  obtains x where "m = Ret x" "f x = Ret y"
  using assms by (auto simp: obind_eq_Ret)

lemma obind_cong [fundef_cong]:
  "m = m' \<Longrightarrow> (\<And>x. m' = Ret x \<Longrightarrow> f x = f' x) \<Longrightarrow> obind m f = obind m' f'"
  by (cases m') auto

text \<open>To evaluate a run, the rest of it is left alone until its first step has a result.\<close>

lemma obind_weak_cong: "m = m' \<Longrightarrow> obind m f = obind m' f"
  by simp

lemma obind_assoc: "obind (obind m f) g = obind m (\<lambda>x. obind (f x) g)"
  by (cases m) auto

text \<open>The status a program ends with.\<close>

definition EXIT_SUCCESS :: int where "EXIT_SUCCESS = 0"
definition EXIT_FAILURE :: int where "EXIT_FAILURE = 1"

section \<open>Memory objects\<close>

text \<open>A write of one byte; outside the object it is undefined behaviour.\<close>

definition store :: "bytes \<Rightarrow> nat \<Rightarrow> byte \<Rightarrow> bytes outcome" where
  "store m i c = (if i < length m then Ret (m[i := c]) else Die ''write outside an object'')"

lemma store_Ret [simp]: "i < length m \<Longrightarrow> store m i c = Ret (m[i := c])"
  by (simp add: store_def)

section \<open>Lists\<close>

lemma drop_min_append [simp]:
  "n \<le> length xs \<Longrightarrow> drop n (xs @ ys) = drop n xs @ ys"
  by simp

lemma take_split: "n \<le> m \<Longrightarrow> take n xs @ take (m - n) (drop n xs) = take m xs"
  by (metis le_add_diff_inverse take_add)

lemma concat_length_uniform:
  "\<forall>x \<in> set xss. length x = k \<Longrightarrow> length (concat xss) = k * length xss"
  by (induction xss) auto

lemma takeWhile_upto:
  "x \<in> set xs \<Longrightarrow> length (takeWhile (\<lambda>c. c \<noteq> x) xs) < length xs"
  by (induction xs) auto

lemma nth_takeWhile_stop:
  "x \<in> set xs \<Longrightarrow> xs ! length (takeWhile (\<lambda>c. c \<noteq> x) xs) = x"
  by (induction xs) auto

lemma map_of_rev_distinct: "distinct (map fst kvs) \<Longrightarrow> map_of (rev kvs) = map_of kvs"
  by (subst map_of_inject_set) (simp_all add: rev_map [symmetric])

lemma replicate_numeral_unfold: "replicate (numeral k) x = x # replicate (pred_numeral k) x"
  by (simp add: numeral_eq_Suc)

section \<open>Text up to a terminator\<close>

text \<open>The text before the first terminator, what follows it, and a line without one trailing CR.\<close>

definition before :: "byte \<Rightarrow> bytes \<Rightarrow> bytes" where
  "before c xs = takeWhile (\<lambda>x. x \<noteq> c) xs"

definition after :: "byte \<Rightarrow> bytes \<Rightarrow> bytes" where
  "after c xs = tl (dropWhile (\<lambda>x. x \<noteq> c) xs)"

definition strip_CR :: "bytes \<Rightarrow> bytes" where
  "strip_CR l = (if l \<noteq> [] \<and> last l = CR then butlast l else l)"

lemma take_before: "c \<in> set xs \<Longrightarrow> take (Suc (length (before c xs))) xs = before c xs @ [c]"
  by (induction xs) (auto simp: before_def)

lemma drop_before: "c \<in> set xs \<Longrightarrow> drop (Suc (length (before c xs))) xs = after c xs"
  by (induction xs) (auto simp: before_def after_def)

lemma before_after: "c \<in> set xs \<Longrightarrow> xs = before c xs @ c # after c xs"
  by (induction xs) (auto simp: before_def after_def)

lemma before_no [simp]: "c \<notin> set (before c xs)"
  by (induction xs) (auto simp: before_def)

lemma before_split [simp]:
  "c \<notin> set l \<Longrightarrow> before c (l @ c # r) = l"
  "c \<notin> set l \<Longrightarrow> after c (l @ c # r) = r"
  by (induction l) (auto simp: before_def after_def)

lemma before_le: "c \<in> set xs \<Longrightarrow> Suc (length (before c xs)) \<le> length xs"
  by (induction xs) (auto simp: before_def)

end
