(* ===== verification/CString.thy ===== *)
theory CString
  imports Prelude
begin

text \<open>
  C strings: the comparison functions of \<open>lib/strcasecmp.c\<close> and
  \<open>lib/strncasecmp.c\<close>, the string helpers of \<open>src/common/util.c\<close>
  (\<open>concat\<close>, \<open>parse_line\<close>, \<open>skip_newlines\<close>, \<open>skip_whitespace\<close>, \<open>chomp\<close>,
  \<open>nsca_version\<close> with \<open>get_openssl_version\<close> and \<open>get_ev_backend\<close>), and the functions
  of the C library the program reads numbers and tokens with (\<open>strtol\<close>, \<open>atoi\<close>,
  \<open>strtok\<close>, the decimal conversions of \<open>printf\<close>), in the C locale.

  A string is the list of its bytes before the NUL. \<open>long\<close> has 64 bits and \<open>int\<close> 32;
  \<open>atoi\<close> is \<open>(int)strtol(s, NULL, 10)\<close>, which cuts a \<open>long\<close> to its low 32 bits.
\<close>

section \<open>Case-insensitive comparison\<close>

definition tolower :: "byte \<Rightarrow> byte" where
  "tolower c =
     (let n = of_char c :: nat in
      if of_char (CHR ''A'') \<le> n \<and> n \<le> of_char (CHR ''Z'') then char_of (n + 32) else c)"

definition byte_diff :: "byte \<Rightarrow> byte \<Rightarrow> int" where
  "byte_diff c1 c2 = of_char c1 - of_char c2"

fun strncasecmp :: "string \<Rightarrow> string \<Rightarrow> nat \<Rightarrow> int" where
  "strncasecmp s1 s2 0 = 0"
| "strncasecmp s1 s2 (Suc n) =
     (let c1 = tolower (deref s1); c2 = tolower (deref s2)
      in if c1 \<noteq> c2 then byte_diff c1 c2
         else if deref s1 = NUL then 0
         else strncasecmp (tl s1) (tl s2) n)"

function strcasecmp :: "string \<Rightarrow> string \<Rightarrow> int" where
  "strcasecmp s1 s2 =
     (let c1 = tolower (deref s1); c2 = tolower (deref s2)
      in if c1 = c2 then (if deref s1 = NUL then 0 else strcasecmp (tl s1) (tl s2))
         else byte_diff c1 c2)"
  by pat_completeness auto
termination
proof (relation "measure (\<lambda>(s1, s2). length s1)", goal_cases)
  case (2 s1 s2 c1 c2)
  then show ?case by (cases s1) auto
qed simp

declare strcasecmp.simps [simp del]

lemma byte_diff_0 [simp]: "byte_diff c1 c2 = 0 \<longleftrightarrow> c1 = c2"
  by (simp add: byte_diff_def)

lemma tolower_NUL [simp]: "tolower NUL = NUL"
  by (simp add: tolower_def)

lemma tolower_eq_NUL [simp]: "tolower c = NUL \<longleftrightarrow> c = NUL" "NUL = tolower c \<longleftrightarrow> c = NUL"
proof -
  have "c = NUL" if a: "tolower c = NUL"
  proof (cases "65 \<le> (of_char c :: nat) \<and> of_char c \<le> (90 :: nat)")
    case True
    then have "of_char (char_of (of_char c + (32::nat))) = (of_char c + 32 :: nat)" by simp
    moreover have "char_of (of_char c + (32::nat)) = NUL" using a True by (simp add: tolower_def)
    ultimately have "of_char NUL = (of_char c + 32 :: nat)" by simp
    then show ?thesis by simp
  qed (use a in \<open>auto simp: tolower_def Let_def split: if_splits\<close>)
  then show "tolower c = NUL \<longleftrightarrow> c = NUL" "NUL = tolower c \<longleftrightarrow> c = NUL" by auto
qed

lemma strncasecmp_eq_0:
  assumes "NUL \<notin> set s1" and "NUL \<notin> set s2"
  shows "strncasecmp s1 s2 n = 0 \<longleftrightarrow> map tolower (take n s1) = map tolower (take n s2)"
  using assms
proof (induction s1 s2 n rule: strncasecmp.induct)
  case (2 s1 s2 n)
  then show ?case by (cases s1; cases s2) (auto simp: Let_def)
qed simp

lemma strcasecmp_eq_0:
  assumes "NUL \<notin> set s1" and "NUL \<notin> set s2"
  shows "strcasecmp s1 s2 = 0 \<longleftrightarrow> map tolower s1 = map tolower s2"
  using assms
proof (induction s1 s2 rule: strcasecmp.induct)
  case (1 s1 s2)
  then show ?case
    by (cases s1; cases s2) (auto simp: strcasecmp.simps Let_def)
qed

section \<open>Skipping\<close>

fun skip_newlines :: "string \<Rightarrow> string" where
  "skip_newlines [] = []"
| "skip_newlines (c # s) = (if c = CR \<or> c = LF then skip_newlines s else c # s)"

fun skip_whitespace :: "string \<Rightarrow> string" where
  "skip_whitespace [] = []"
| "skip_whitespace (c # s) = (if c = SPACE \<or> c = TAB then skip_whitespace s else c # s)"

definition chomp :: "string \<Rightarrow> string" where
  "chomp s = (if 0 < length s \<and> s ! (length s - 1) = LF then take (length s - 1) s else s)"

lemma skip_newlines_set: "set (skip_newlines s) \<subseteq> set s"
  by (induction s) auto

lemma skip_whitespace_set: "set (skip_whitespace s) \<subseteq> set s"
  by (induction s) auto

lemma skip_whitespace_dropWhile: "skip_whitespace s = dropWhile (\<lambda>c. c = SPACE \<or> c = TAB) s"
  by (induction s) auto

lemma skip_newlines_dropWhile: "skip_newlines s = dropWhile (\<lambda>c. c = CR \<or> c = LF) s"
  by (induction s) auto

lemma skip_whitespace_hd: "skip_whitespace s = c # t \<Longrightarrow> c \<noteq> SPACE \<and> c \<noteq> TAB"
  by (induction s) (auto split: if_splits)

lemma skip_whitespace_id [simp]: "c \<noteq> SPACE \<Longrightarrow> c \<noteq> TAB \<Longrightarrow> skip_whitespace (c # s) = c # s"
  by simp

lemma chomp_snoc [simp]: "chomp (s @ [c]) = (if c = LF then s else s @ [c])"
  by (simp add: chomp_def)

lemma chomp_Nil [simp]: "chomp [] = []"
  by (simp add: chomp_def)

lemma chomp_set: "set (chomp s) \<subseteq> set s"
  by (auto simp: chomp_def dest: in_set_takeD)

section \<open>Searching\<close>

text \<open>\<open>strchr\<close> and \<open>strrchr\<close>: the rest of the string from the byte found, NULL being \<open>None\<close>.\<close>

definition strchr :: "string \<Rightarrow> byte \<Rightarrow> string option" where
  "strchr s c = (if c \<in> set s then Some (c # after c s) else None)"

definition strrchr :: "string \<Rightarrow> byte \<Rightarrow> string option" where
  "strrchr s c = (if c \<in> set s then Some (c # rev (before c (rev s))) else None)"

lemma strchr_split: "strchr s c = Some t \<Longrightarrow> s = before c s @ t"
  using before_after[of c s] by (auto simp: strchr_def split: if_splits)

lemma strrchr_split:
  assumes "strrchr s c = Some t"
  obtains u v where "s = u @ t" "t = c # v" "c \<notin> set v"
proof -
  from assms have "c \<in> set (rev s)" and t: "t = c # rev (before c (rev s))"
    by (auto simp: strrchr_def split: if_splits)
  from before_after[OF this(1)] have "s = rev (after c (rev s)) @ t"
    by (metis append_Cons append_assoc append_self_conv2 rev.simps(2) rev_append rev_rev_ident t)
  with t that show ?thesis by (metis before_no set_rev)
qed

lemma strrchr_last [simp]: "c \<notin> set v \<Longrightarrow> strrchr (u @ c # v) c = Some (c # v)"
  by (simp add: strrchr_def)

section \<open>Concatenation\<close>

text \<open>\<open>size_t\<close> has 64 bits; the size of the result must not wrap around.\<close>

definition SIZE_MODULUS :: nat where
  "SIZE_MODULUS = 2 ^ 64"

definition concat_str :: "string \<Rightarrow> string \<Rightarrow> string outcome" where
  "concat_str str1 str2 =
     (let len1 = length str1; len2 = length str2;
          size = (len1 + len2 + 1) mod SIZE_MODULUS
      in if size \<le> len1 then Die ''String concatenation would overflow''
         else Ret (str1 @ str2))"

lemma concat_str_Ret:
  "length s1 + length s2 + 1 < SIZE_MODULUS \<Longrightarrow> concat_str s1 s2 = Ret (s1 @ s2)"
  by (simp add: concat_str_def Let_def)

section \<open>Splitting a request line\<close>

abbreviation is_blank :: "byte \<Rightarrow> bool" where
  "is_blank c \<equiv> c = SPACE \<or> c = TAB"

text \<open>\<open>strtok(p, " \t")\<close>: the next token and the position the following call starts at.\<close>

definition strtok_next :: "string \<Rightarrow> (string \<times> string) option" where
  "strtok_next s =
     (let t = dropWhile is_blank s in
      if t = [] then None
      else Some (takeWhile (\<lambda>c. \<not> is_blank c) t, drop 1 (dropWhile (\<lambda>c. \<not> is_blank c) t)))"

function parse_loop :: "string \<Rightarrow> string list \<Rightarrow> nat \<Rightarrow> nat \<Rightarrow> bool \<times> string list" where
  "parse_loop s args i n_args =
     (case strtok_next s of
        None \<Rightarrow> (i = n_args, args)
      | Some (p, s') \<Rightarrow>
          if i < n_args then parse_loop s' (args @ [p]) (Suc i) n_args else (False, args))"
  by pat_completeness auto
termination
  by (relation "measure (\<lambda>(s, args, i, n_args). n_args - i)") auto

declare parse_loop.simps [simp del]

definition parse_line :: "string \<Rightarrow> nat \<Rightarrow> bool \<times> string list" where
  "parse_line line n_args = parse_loop line [] 0 n_args"

text \<open>Reference: the non-empty fields between blanks.\<close>

fun fields :: "string \<Rightarrow> string list" where
  "fields [] = [[]]"
| "fields (c # s) =
     (if is_blank c then [] # fields s
      else case fields s of [] \<Rightarrow> [[c]] | f # fs \<Rightarrow> (c # f) # fs)"

definition wordlist :: "string \<Rightarrow> string list" where
  "wordlist s = filter (\<lambda>f. f \<noteq> []) (fields s)"

lemma fields_neq_Nil [simp]: "fields s \<noteq> []"
  by (induction s) (auto split: list.splits)

lemma fields_word:
  "fields s = takeWhile (\<lambda>c. \<not> is_blank c) s #
     (case dropWhile (\<lambda>c. \<not> is_blank c) s of [] \<Rightarrow> [] | _ # r \<Rightarrow> fields r)"
  by (induction s) auto

lemma wordlist_skip: "wordlist (dropWhile is_blank s) = wordlist s"
  by (induction s) (auto simp: wordlist_def)

lemma wordlist_rest:
  "filter (\<lambda>f. f \<noteq> []) (case d of [] \<Rightarrow> [] | _ # r \<Rightarrow> fields r) = wordlist (drop 1 d)"
  by (cases d) (simp_all add: wordlist_def)

lemma wordlist_strtok:
  "wordlist s = (case strtok_next s of None \<Rightarrow> [] | Some (p, s') \<Rightarrow> p # wordlist s')"
proof (cases "dropWhile is_blank s")
  case Nil
  then have "strtok_next s = None" by (simp add: strtok_next_def)
  moreover have "wordlist s = []" using wordlist_skip[of s] Nil by (simp add: wordlist_def)
  ultimately show ?thesis by simp
next
  case (Cons c t)
  then have nb: "\<not> is_blank c" using hd_dropWhile[of is_blank s] by simp
  let ?nb = "\<lambda>c. \<not> is_blank c"
  have "wordlist s = wordlist (c # t)" using wordlist_skip[of s] Cons by simp
  also have "\<dots> = filter (\<lambda>f. f \<noteq> []) (takeWhile ?nb (c # t) #
      (case dropWhile ?nb (c # t) of [] \<Rightarrow> [] | _ # r \<Rightarrow> fields r))"
    unfolding wordlist_def by (rule arg_cong[OF fields_word])
  also have "\<dots> = takeWhile ?nb (c # t) # wordlist (drop 1 (dropWhile ?nb (c # t)))"
    using nb by (simp add: wordlist_rest del: dropWhile.simps)
  finally show ?thesis using Cons by (simp add: strtok_next_def)
qed

lemma parse_loop_correct:
  assumes "i \<le> n" "length args = i"
  shows "fst (parse_loop s args i n) = (i + length (wordlist s) = n) \<and>
    snd (parse_loop s args i n) = args @ take (n - i) (wordlist s)"
  using assms
proof (induction s args i n rule: parse_loop.induct)
  case (1 s args i n)
  show ?case
  proof (cases "strtok_next s")
    case None
    then show ?thesis using wordlist_strtok[of s] by (simp add: parse_loop.simps[of s])
  next
    case (Some ps)
    obtain p s' where ps: "ps = (p, s')" by fastforce
    have w: "wordlist s = p # wordlist s'" using wordlist_strtok[of s] Some ps by simp
    show ?thesis
    proof (cases "i < n")
      case True
      then obtain k where "n - i = Suc k" by (metis Suc_diff_Suc)
      moreover have "n - Suc i = k" using calculation by simp
      ultimately show ?thesis using "1.IH"[OF Some ps[symmetric] True] "1.prems" True w
        by (simp add: parse_loop.simps[of s] Some ps)
    next
      case False
      then show ?thesis using "1.prems" w by (simp add: parse_loop.simps[of s] Some ps)
    qed
  qed
qed

lemma parse_line_correct:
  "parse_line line n = (length (wordlist line) = n, take n (wordlist line))"
  using parse_loop_correct[of 0 n "[]" line] by (simp add: parse_line_def prod_eq_iff)

end
