(* ===== verification/Getopt.thy ===== *)
theory Getopt
  imports CString
begin

text \<open>
  The command line: \<open>getopt\<close> of the C library, as POSIX has it (the first operand ends the
  options), and the loop with which both programs, \<open>src/client/send_nsca.c\<close> and
  \<open>src/server/nsca-ng.c\<close>, take their options. What is left of the group of option letters
  that is being read (the rest of an argument such as \<open>-vv\<close>) is the state \<open>getopt\<close> keeps
  between its calls; the arguments not looked at yet are those from \<open>optind\<close> on.
\<close>

section \<open>The function of the C library\<close>

datatype getopt_result =
    Finished "string list"
  | Found byte "string option" string "string list"

definition QUESTION :: byte where "QUESTION = CHR ''?''"
definition COLON :: byte where "COLON = CHR '':''"
definition DASH :: byte where "DASH = CHR ''-''"

text \<open>Whether a letter is an option, and then whether it takes an argument.\<close>

definition option_kind :: "string \<Rightarrow> byte \<Rightarrow> bool option" where
  "option_kind optstring c =
     (if c = COLON then None
      else case strchr optstring c of None \<Rightarrow> None | Some p \<Rightarrow> Some (deref (tl p) = COLON))"

fun take_option :: "string \<Rightarrow> byte \<Rightarrow> string \<Rightarrow> string list \<Rightarrow> getopt_result" where
  "take_option optstring c cluster args =
     (case option_kind optstring c of
        None \<Rightarrow> Found QUESTION None cluster args
      | Some False \<Rightarrow> Found c None cluster args
      | Some True \<Rightarrow>
          if cluster \<noteq> [] then Found c (Some cluster) [] args
          else case args of
            [] \<Rightarrow> Found QUESTION None [] []
          | a # args \<Rightarrow> Found c (Some a) [] args)"

declare take_option.simps [simp del]

fun getopt :: "string \<Rightarrow> string \<Rightarrow> string list \<Rightarrow> getopt_result" where
  "getopt optstring (c # cluster) args = take_option optstring c cluster args"
| "getopt optstring [] ((d # c # cluster) # args) =
     (if d = DASH then
        (if c = DASH \<and> cluster = [] then Finished args else take_option optstring c cluster args)
      else Finished ((d # c # cluster) # args))"
| "getopt optstring [] args = Finished args"

definition letters_left :: "string \<Rightarrow> string list \<Rightarrow> nat" where
  "letters_left cluster args = length cluster + sum_list (map (\<lambda>a. Suc (length a)) args)"

lemma take_option_shrinks:
  "take_option optstring c cluster args = Found c' arg cluster' args' \<Longrightarrow>
     letters_left cluster' args' \<le> letters_left cluster args"
  by (auto simp: take_option.simps letters_left_def split: option.splits bool.splits if_splits list.splits)

lemma getopt_shrinks:
  "getopt optstring cluster args = Found c arg cluster' args' \<Longrightarrow>
     letters_left cluster' args' < letters_left cluster args"
  by (cases "(optstring, cluster, args)" rule: getopt.cases)
    (auto dest!: take_option_shrinks simp: letters_left_def split: if_splits)

lemma getopt_argument:
  "getopt optstring cluster args = Found c arg cluster' args' \<Longrightarrow> c \<noteq> QUESTION \<Longrightarrow>
     option_kind optstring c = Some (arg \<noteq> None)"
  by (cases "(optstring, cluster, args)" rule: getopt.cases)
    (auto simp: take_option.simps split: option.splits bool.splits if_splits list.splits)

section \<open>The loop over the options\<close>

text \<open>
  One turn of the loop ends the program with a status, or changes the options. What is left
  after the loop are the operands.
\<close>

type_synonym 'o option_step = "byte \<Rightarrow> string option \<Rightarrow> 'o \<Rightarrow> (int + 'o) outcome"

function option_loop ::
  "'o option_step \<Rightarrow> string \<Rightarrow> string \<Rightarrow> string list \<Rightarrow> 'o \<Rightarrow> (int + 'o \<times> string list) outcome" where
  "option_loop step optstring cluster args opt =
     (case getopt optstring cluster args of
        Finished operands \<Rightarrow> Ret (Inr (opt, operands))
      | Found c arg cluster args \<Rightarrow>
          obind (step c arg opt) (\<lambda>r.
            case r of
              Inl status \<Rightarrow> Ret (Inl status)
            | Inr opt \<Rightarrow> option_loop step optstring cluster args opt))"
  by pat_completeness auto
termination
  by (relation "measure (\<lambda>(step, optstring, cluster, args, opt). letters_left cluster args)")
    (auto dest: getopt_shrinks)

declare option_loop.simps [simp del]

text \<open>What every turn keeps holds after the loop; a turn is given an argument when it should be.\<close>

lemma option_loop_keeps:
  assumes "option_loop step optstring cluster args opt = Ret (Inr (opt', operands))" "P opt"
    and "\<And>c arg opt opt'. P opt \<Longrightarrow> step c arg opt = Ret (Inr opt') \<Longrightarrow> P opt'"
  shows "P opt'"
  using assms
proof (induction step optstring cluster args opt rule: option_loop.induct)
  case (1 step optstring cluster args opt)
  show ?case
  proof (cases "getopt optstring cluster args")
    case (Finished rest)
    then show ?thesis using 1(2,3) by (subst (asm) option_loop.simps) auto
  next
    case (Found c arg cluster' args')
    then obtain r where r: "step c arg opt = Ret r"
      "(case r of Inl status \<Rightarrow> Ret (Inl status) | Inr opt \<Rightarrow> option_loop step optstring cluster' args' opt)
        = Ret (Inr (opt', operands))"
      using 1(2) option_loop.simps[of step optstring cluster args opt] by (auto simp: obind_eq_Ret)
    then obtain opt1 where s: "step c arg opt = Ret (Inr opt1)"
      "option_loop step optstring cluster' args' opt1 = Ret (Inr (opt', operands))" by (cases r) auto
    show ?thesis by (rule 1(1)[OF Found s(1) refl s(2) 1(4)[OF 1(3) s(1)] 1(4)])
  qed
qed

text \<open>
  A command line that is written with every option on its own, and its argument behind it,
  is read as these options in their order.
\<close>

fun write_option :: "byte \<times> string option \<Rightarrow> string list" where
  "write_option (c, None) = [[DASH, c]]"
| "write_option (c, Some arg) = [[DASH, c], arg]"

fun option_fold :: "'o option_step \<Rightarrow> (byte \<times> string option) list \<Rightarrow> 'o \<Rightarrow> (int + 'o) outcome" where
  "option_fold step [] opt = Ret (Inr opt)"
| "option_fold step ((c, arg) # opts) opt =
     obind (step c arg opt) (\<lambda>r. case r of Inl status \<Rightarrow> Ret (Inl status) | Inr opt \<Rightarrow> option_fold step opts opt)"

definition operands_only :: "string list \<Rightarrow> bool" where
  "operands_only args \<longleftrightarrow> args = [] \<or> deref (hd args) \<noteq> DASH \<or> hd args = [DASH]"

lemma getopt_operands: "operands_only args \<Longrightarrow> getopt optstring [] args = Finished args"
  by (cases "(optstring, [] :: string, args)" rule: getopt.cases) (auto simp: operands_only_def)

lemma getopt_written:
  assumes "option_kind optstring c = Some (arg \<noteq> None)" "c \<noteq> DASH"
  shows "getopt optstring [] (write_option (c, arg) @ args) = Found c arg [] args"
  using assms by (cases arg) (auto simp: take_option.simps)

fun with_operands :: "string list \<Rightarrow> int + 'o \<Rightarrow> int + 'o \<times> string list" where
  "with_operands operands (Inl status) = Inl status"
| "with_operands operands (Inr opt) = Inr (opt, operands)"

lemma option_loop_written:
  assumes "\<forall>(c, arg) \<in> set opts. option_kind optstring c = Some (arg \<noteq> None) \<and> c \<noteq> DASH" "operands_only operands"
  shows "option_loop step optstring [] (concat (map write_option opts) @ operands) opt =
    obind (option_fold step opts opt) (\<lambda>r. Ret (with_operands operands r))"
  using assms(1)
proof (induction opts arbitrary: opt)
  case Nil
  then show ?case by (subst option_loop.simps) (simp add: getopt_operands[OF assms(2)])
next
  case (Cons o1 opts)
  obtain c arg where o1: "o1 = (c, arg)" by (cases o1)
  with Cons.prems have "getopt optstring [] (write_option o1 @ concat (map write_option opts) @ operands) =
      Found c arg [] (concat (map write_option opts) @ operands)"
    using getopt_written by auto
  moreover have "\<And>opt. option_loop step optstring [] (concat (map write_option opts) @ operands) opt =
      obind (option_fold step opts opt) (\<lambda>r. Ret (with_operands operands r))"
    using Cons by auto
  ultimately show ?case
    by (subst option_loop.simps) (auto simp: o1 obind_assoc intro!: obind_cong split: sum.split)
qed

end
