(* ===== verification/Numbers.thy ===== *)
theory Numbers
  imports Prelude
begin

text \<open>
  The conversions of the C library between numbers and text, in the C locale: \<open>strtol\<close>
  (with base detection), \<open>atoi\<close>, and the decimal conversions of \<open>printf\<close>. A \<open>long\<close>
  has 64 bits and \<open>strtol\<close> clamps to its range; an \<open>int\<close> has 32 bits and \<open>atoi\<close> is
  \<open>(int)strtol(s, NULL, 10)\<close>, which keeps the low 32 bits of the \<open>long\<close>.
\<close>

section \<open>Printing\<close>

definition digit_char :: "nat \<Rightarrow> byte" where
  "digit_char d = char_of (48 + d)"

lemma digit_chars [simp]:
  "digit_char 0 = CHR ''0''" "digit_char (Suc 0) = CHR ''1''" "digit_char 1 = CHR ''1''"
  "digit_char 2 = CHR ''2''" "digit_char 3 = CHR ''3''" "digit_char 4 = CHR ''4''"
  "digit_char 5 = CHR ''5''" "digit_char 6 = CHR ''6''" "digit_char 7 = CHR ''7''"
  "digit_char 8 = CHR ''8''" "digit_char 9 = CHR ''9''"
  by (simp_all add: digit_char_def char_of_def bit_iff_odd)

fun show_nat :: "nat \<Rightarrow> string" where
  "show_nat n = (if n < 10 then [digit_char n] else show_nat (n div 10) @ [digit_char (n mod 10)])"

declare show_nat.simps [simp del]

definition show_int :: "int \<Rightarrow> string" where
  "show_int i = (if i < 0 then CHR ''-'' # show_nat (nat (- i)) else show_nat (nat i))"

section \<open>Reading\<close>

definition is_space :: "byte \<Rightarrow> bool" where
  "is_space c \<longleftrightarrow> (of_char c :: nat) = 32 \<or> (9 \<le> (of_char c :: nat) \<and> of_char c \<le> (13 :: nat))"

definition digit_val :: "byte \<Rightarrow> nat option" where
  "digit_val c =
     (let n = of_char c :: nat in
      if 48 \<le> n \<and> n \<le> 57 then Some (n - 48)
      else if 97 \<le> n \<and> n \<le> 122 then Some (n - 87)
      else if 65 \<le> n \<and> n \<le> 90 then Some (n - 55)
      else None)"

definition is_digit_in :: "nat \<Rightarrow> byte \<Rightarrow> bool" where
  "is_digit_in base c = (case digit_val c of None \<Rightarrow> False | Some d \<Rightarrow> d < base)"

fun scan_digits :: "nat \<Rightarrow> string \<Rightarrow> nat \<Rightarrow> nat \<times> string" where
  "scan_digits base [] acc = (acc, [])"
| "scan_digits base (c # s) acc =
     (if is_digit_in base c then scan_digits base s (acc * base + the (digit_val c))
      else (acc, c # s))"

definition clamp_long :: "int \<Rightarrow> int" where
  "clamp_long v = max (- (2 ^ 63)) (min (2 ^ 63 - 1) v)"

definition to_int :: "int \<Rightarrow> int" where
  "to_int v = (v + 2 ^ 31) mod 2 ^ 32 - 2 ^ 31"

fun split_sign :: "string \<Rightarrow> bool \<times> string" where
  "split_sign [] = (False, [])"
| "split_sign (c # s) =
     (if c = CHR ''-'' then (True, s) else if c = CHR ''+'' then (False, s) else (False, c # s))"

fun split_base :: "nat \<Rightarrow> string \<Rightarrow> nat \<times> string" where
  "split_base base (z # x # d # s) =
     (if (base = 0 \<or> base = 16) \<and> z = CHR ''0'' \<and> (x = CHR ''x'' \<or> x = CHR ''X'') \<and> is_digit_in 16 d
      then (16, d # s)
      else (if base \<noteq> 0 then base else if z = CHR ''0'' then 8 else 10, z # x # d # s))"
| "split_base base s =
     (if base \<noteq> 0 then base else if deref s = CHR ''0'' then 8 else 10, s)"

text \<open>The value and the string \<open>*endptr\<close> points to.\<close>

definition strtol :: "string \<Rightarrow> nat \<Rightarrow> int \<times> string" where
  "strtol s base =
     (let (neg, u) = split_sign (dropWhile is_space s);
          (b, v) = split_base base u
      in if v = [] \<or> \<not> is_digit_in b (deref v) then (0, s)
         else let (n, rest) = scan_digits b v 0
              in (clamp_long (if neg then - int n else int n), rest))"

definition atoi :: "string \<Rightarrow> int" where
  "atoi s = to_int (fst (strtol s 10))"

section \<open>Round trip\<close>

lemma to_int_id [simp]: "- (2 ^ 31) \<le> v \<Longrightarrow> v < 2 ^ 31 \<Longrightarrow> to_int v = v"
  by (simp add: to_int_def)

lemma to_int_range: "- (2 ^ 31) \<le> to_int v" "to_int v < 2 ^ 31"
  by (simp_all add: to_int_def)

lemma of_char_digit [simp]: "d < 10 \<Longrightarrow> of_char (digit_char d) = (48 + d :: nat)"
  by (simp add: digit_char_def)

lemma digit_char_facts [simp]:
  assumes "d < 10"
  shows "is_digit_in 10 (digit_char d)" "the (digit_val (digit_char d)) = d"
    "\<not> is_space (digit_char d)" "digit_char d \<noteq> CHR ''-''" "digit_char d \<noteq> CHR ''+''"
    "digit_char d \<noteq> NUL" "digit_char d \<noteq> SPACE" "digit_char d \<noteq> TAB" "digit_char d \<noteq> LF"
    "digit_char d \<noteq> CR" "digit_char d \<noteq> CHR '';''" "digit_char d \<noteq> CHR '']''"
proof -
  have v: "digit_val (digit_char d) = Some d" using assms by (simp add: digit_val_def)
  show "is_digit_in 10 (digit_char d)" "the (digit_val (digit_char d)) = d"
    using assms by (simp_all add: is_digit_in_def v)
  show "\<not> is_space (digit_char d)" using assms by (simp add: is_space_def)
  have neq: "digit_char d \<noteq> c" if "of_char c < (48::nat) \<or> 57 < (of_char c :: nat)" for c
    using that assms of_char_digit[OF assms] by auto
  show "digit_char d \<noteq> CHR ''-''" "digit_char d \<noteq> CHR ''+''"
    "digit_char d \<noteq> NUL" "digit_char d \<noteq> SPACE" "digit_char d \<noteq> TAB" "digit_char d \<noteq> LF"
    "digit_char d \<noteq> CR" "digit_char d \<noteq> CHR '';''" "digit_char d \<noteq> CHR '']''"
    by (rule neq, simp)+
qed

lemma show_nat_digits: "c \<in> set (show_nat n) \<Longrightarrow> \<exists>d < 10. c = digit_char d"
proof (induction n rule: show_nat.induct)
  case (1 n)
  show ?case
  proof (cases "n < 10")
    case True
    with 1 show ?thesis by (auto simp: show_nat.simps[of n])
  next
    case False
    with "1.prems" have "c \<in> set (show_nat (n div 10)) \<or> c = digit_char (n mod 10)"
      by (auto simp: show_nat.simps[of n])
    then show ?thesis
    proof
      assume "c = digit_char (n mod 10)"
      then show ?thesis by (intro exI[of _ "n mod 10"]) simp
    qed (use "1.IH" False in simp)
  qed
qed

lemma show_nat_neq [simp]: "show_nat n \<noteq> []"
  by (subst show_nat.simps) simp

lemma show_nat_Cons: "\<exists>d s. show_nat n = digit_char d # s \<and> d < 10"
  using show_nat_digits[of "hd (show_nat n)" n] by (cases "show_nat n") auto

lemma show_nat_no [simp]:
  "NUL \<notin> set (show_nat n)" "SPACE \<notin> set (show_nat n)" "TAB \<notin> set (show_nat n)"
  "LF \<notin> set (show_nat n)" "CR \<notin> set (show_nat n)" "CHR '';'' \<notin> set (show_nat n)"
  "CHR '']'' \<notin> set (show_nat n)"
  by (metis show_nat_digits digit_char_facts)+

lemma scan_digits_show:
  "scan_digits 10 (show_nat n @ r) acc = scan_digits 10 r (acc * 10 ^ length (show_nat n) + n)"
proof (induction n arbitrary: r acc rule: show_nat.induct)
  case (1 n)
  show ?case
  proof (cases "n < 10")
    case True
    then show ?thesis by (simp add: show_nat.simps[of n])
  next
    case False
    have s: "show_nat n = show_nat (n div 10) @ [digit_char (n mod 10)]"
      using False by (subst show_nat.simps) simp
    have "scan_digits 10 (show_nat n @ r) acc =
        scan_digits 10 (digit_char (n mod 10) # r) (acc * 10 ^ length (show_nat (n div 10)) + n div 10)"
      using "1.IH"[OF False, of "digit_char (n mod 10) # r" acc] by (simp add: s)
    also have "\<dots> = scan_digits 10 r ((acc * 10 ^ length (show_nat (n div 10)) + n div 10) * 10 + n mod 10)"
      by simp
    also have "(acc * 10 ^ length (show_nat (n div 10)) + n div 10) * 10 + n mod 10
        = acc * 10 ^ length (show_nat n) + n"
      by (simp add: s algebra_simps)
    finally show ?thesis .
  qed
qed

lemma split_base_10 [simp]: "split_base 10 s = (10, s)"
  by (cases "(10::nat, s)" rule: split_base.cases) auto

lemma strtol_show:
  assumes "r = [] \<or> \<not> is_digit_in 10 (hd r)"
  shows "strtol (show_nat n @ r) 10 = (clamp_long (int n), r)"
proof -
  obtain d s where s: "show_nat n = digit_char d # s" and d: "d < 10" using show_nat_Cons by blast
  have rest: "scan_digits 10 r n = (n, r)" using assms by (cases r) auto
  have "scan_digits 10 (show_nat n @ r) 0 = (n, r)" by (simp add: scan_digits_show rest)
  then show ?thesis using d by (simp add: strtol_def Let_def s)
qed

lemma atoi_show:
  assumes "r = [] \<or> \<not> is_digit_in 10 (hd r)" and "n < 2 ^ 31"
  shows "atoi (show_nat n @ r) = int n"
proof -
  have "clamp_long (int n) = int n" using assms(2) by (simp add: clamp_long_def)
  then show ?thesis using assms(2) by (simp add: atoi_def strtol_show[OF assms(1)])
qed

corollary atoi_show_nat [simp]: "n < 2 ^ 31 \<Longrightarrow> atoi (show_nat n) = int n"
  using atoi_show[of "[]" n] by simp

section \<open>Other bases\<close>

text \<open>Numbers to a base of at most 16, and how \<open>strtol\<close> reads them with their prefix.\<close>

definition base_digit :: "nat \<Rightarrow> byte" where
  "base_digit d = (if d < 10 then char_of (48 + d) else char_of (87 + d))"

fun show_base :: "nat \<Rightarrow> nat \<Rightarrow> string" where
  "show_base b n =
     (if b \<le> 1 \<or> n < b then [base_digit n] else show_base b (n div b) @ [base_digit (n mod b)])"

declare show_base.simps [simp del]

lemma digit_val_base [simp]: "d < 16 \<Longrightarrow> digit_val (base_digit d) = Some d"
  by (simp add: base_digit_def digit_val_def)

lemma is_digit_base [simp]: "d < b \<Longrightarrow> b \<le> 16 \<Longrightarrow> is_digit_in b (base_digit d)"
  by (simp add: is_digit_in_def)

lemma show_base_digits: "1 < b \<Longrightarrow> c \<in> set (show_base b n) \<Longrightarrow> \<exists>d < b. c = base_digit d"
proof (induction b n rule: show_base.induct)
  case (1 b n)
  then show ?case
    by (subst (asm) (2) show_base.simps) (auto split: if_splits intro: exI[of _ "n mod b"] exI[of _ n])
qed

lemma scan_digits_base:
  "1 < b \<Longrightarrow> b \<le> 16 \<Longrightarrow> scan_digits b (show_base b n @ r) acc = scan_digits b r (acc * b ^ length (show_base b n) + n)"
proof (induction b n arbitrary: r acc rule: show_base.induct)
  case (1 b n)
  show ?case
  proof (cases "n < b")
    case True
    then show ?thesis using 1(2,3) by (simp add: show_base.simps[of b n])
  next
    case False
    then have s: "show_base b n = show_base b (n div b) @ [base_digit (n mod b)]"
      using 1(2) by (subst show_base.simps) simp
    have m: "n mod b < b" "n mod b < 16"
      using 1(2,3) mod_less_divisor[of b n] by linarith+
    have "\<not> (b \<le> 1 \<or> n < b)" using False 1(2) by simp
    from 1(1)[OF this 1(2,3)] show ?thesis
      using m 1(3) by (simp add: s algebra_simps)
  qed
qed

lemma show_base_length: "1 < b \<Longrightarrow> n < b ^ k \<Longrightarrow> 0 < k \<Longrightarrow> length (show_base b n) \<le> k"
proof (induction k arbitrary: n)
  case (Suc k)
  show ?case
  proof (cases "n < b")
    case True
    then show ?thesis by (simp add: show_base.simps)
  next
    case False
    have "n div b < b ^ k" using Suc.prems by (simp add: less_mult_imp_div_less mult.commute)
    moreover have "0 < k" using False Suc.prems(2) by (cases k) auto
    ultimately have "length (show_base b (n div b)) \<le> k" using Suc by blast
    then show ?thesis using False Suc.prems(1) by (subst show_base.simps) simp
  qed
qed simp

lemma show_base_neq [simp]: "show_base b n \<noteq> []"
  by (subst show_base.simps) simp

lemma show_base_Cons: "1 < b \<Longrightarrow> \<exists>d s. show_base b n = base_digit d # s \<and> d < b"
  using show_base_digits[of b "hd (show_base b n)" n] by (cases "show_base b n") auto

lemma strtol_hex: "n < 2 ^ 63 \<Longrightarrow> strtol (CHR ''0'' # CHR ''x'' # show_base 16 n) 0 = (int n, [])"
proof -
  assume n: "n < 2 ^ 63"
  obtain d s where s: "show_base 16 n = base_digit d # s" "d < 16" using show_base_Cons[of 16 n] by auto
  have "scan_digits 16 (show_base 16 n) 0 = (n, [])" using scan_digits_base[of 16 n "[]" 0] by simp
  then show ?thesis using s n by (simp add: strtol_def Let_def is_space_def clamp_long_def)
qed

lemma base_digit_neq:
  assumes "d < 16" "of_char c < (48 :: nat) \<or> 57 < (of_char c :: nat) \<and> of_char c < (97 :: nat) \<or> 103 \<le> (of_char c :: nat)"
  shows "base_digit d \<noteq> c"
proof
  assume "base_digit d = c"
  moreover have "(of_char (base_digit d) :: nat) = (if d < 10 then 48 + d else 87 + d)"
    using assms(1) by (simp add: base_digit_def)
  ultimately show False using assms by (auto split: if_splits)
qed

lemma strtol_oct: "n < 2 ^ 63 \<Longrightarrow> strtol (CHR ''0'' # show_base 8 n) 0 = (int n, [])"
proof -
  assume n: "n < 2 ^ 63"
  obtain d s where s: "show_base 8 n = base_digit d # s" "d < 8" using show_base_Cons[of 8 n] by auto
  have "base_digit d \<noteq> CHR ''x''" using s(2) by (intro base_digit_neq) auto
  moreover have "base_digit d \<noteq> CHR ''X''" using s(2) by (intro base_digit_neq) auto
  ultimately have "split_base 0 (CHR ''0'' # show_base 8 n) = (8, CHR ''0'' # show_base 8 n)"
    by (cases s) (simp_all add: s)
  moreover have "scan_digits 8 (show_base 8 n) 0 = (n, [])" using scan_digits_base[of 8 n "[]" 0] by simp
  moreover have "is_digit_in 8 (CHR ''0'')" "the (digit_val (CHR ''0'')) = 0" by code_simp+
  ultimately show ?thesis using s n by (simp add: strtol_def Let_def is_space_def clamp_long_def)
qed

end
