(* ===== verification/ClientConf.thy ===== *)
theory ClientConf
  imports CString Numbers
begin

text \<open>
  The configuration of the client: \<open>src/client/conf.c\<close>, with \<open>xfgets\<close> of
  \<open>src/lib/wrappers.c\<close> and \<open>set_psk\<close> of \<open>src/client/auth.c\<close>. A file is what is left of it to
  be read, and whether a read error or the end of the file follows. Lines are read into a
  memory object that grows; the text of a line is the C string in that object, and reading
  an object that has no NUL byte is a fault.
\<close>

section \<open>The table\<close>

datatype conf_value = StrV "string option" | IntV int

type_synonym conf = "(string \<times> conf_value) list"

definition DEFAULT_PASSWORD :: string where "DEFAULT_PASSWORD = ''change-me''"
definition DEFAULT_PORT :: string where "DEFAULT_PORT = ''5668''"
definition DEFAULT_SERVER :: string where "DEFAULT_SERVER = ''localhost''"
definition DEFAULT_TIMEOUT :: int where "DEFAULT_TIMEOUT = 15"
definition DEFAULT_TLS_CIPHERS :: string where
  "DEFAULT_TLS_CIPHERS = ''PSK-AES256-CBC-SHA:PSK-AES128-CBC-SHA:PSK-3DES-EDE-CBC-SHA:PSK-RC4-SHA''"

definition empty_conf :: conf where
  "empty_conf =
     [(''delay'', IntV 0), (''encryption_method'', StrV None), (''identity'', StrV None),
      (''password'', StrV None), (''port'', StrV None), (''server'', StrV None),
      (''timeout'', IntV 0), (''tls_ciphers'', StrV None)]"

fun lookup_conf :: "conf \<Rightarrow> string \<Rightarrow> conf_value outcome" where
  "lookup_conf [] key = Die ''Unknown variable''"
| "lookup_conf ((k, v) # cfg) key = (if key = k then Ret v else lookup_conf cfg key)"

fun put_conf :: "conf \<Rightarrow> string \<Rightarrow> conf_value \<Rightarrow> conf" where
  "put_conf [] key v' = []"
| "put_conf ((k, v) # cfg) key v' = (if key = k then (k, v') # cfg else (k, v) # put_conf cfg key v')"

text \<open>The members of the union are not mixed: reading the other one is a fault.\<close>

definition conf_getint :: "conf \<Rightarrow> string \<Rightarrow> int outcome" where
  "conf_getint cfg key = obind (lookup_conf cfg key) (\<lambda>c.
     case c of IntV i \<Rightarrow> Ret i | StrV s \<Rightarrow> Die ''not an integer'')"

definition conf_getstr :: "conf \<Rightarrow> string \<Rightarrow> string option outcome" where
  "conf_getstr cfg key = obind (lookup_conf cfg key) (\<lambda>c.
     case c of StrV s \<Rightarrow> Ret s | IntV i \<Rightarrow> Die ''not a string'')"

definition conf_setint :: "conf \<Rightarrow> string \<Rightarrow> int \<Rightarrow> conf outcome" where
  "conf_setint cfg key i = obind (lookup_conf cfg key) (\<lambda>c.
     case c of IntV _ \<Rightarrow> Ret (put_conf cfg key (IntV i)) | StrV _ \<Rightarrow> Die ''not an integer'')"

definition conf_setstr :: "conf \<Rightarrow> string \<Rightarrow> string \<Rightarrow> conf outcome" where
  "conf_setstr cfg key s = obind (lookup_conf cfg key) (\<lambda>c.
     case c of StrV _ \<Rightarrow> Ret (put_conf cfg key (StrV (Some s))) | IntV _ \<Rightarrow> Die ''not a string'')"

section \<open>Reading lines\<close>

text \<open>
  What \<open>fgets\<close> takes from the file for a buffer of \<open>n\<close> bytes. \<open>xfgets\<close> stores it with a NUL
  and gives its length as a C string, which is 0 if nothing is left.
\<close>

record stream =
  st_bytes :: bytes
  st_error :: bool

definition fgets_chunk :: "nat \<Rightarrow> bytes \<Rightarrow> bytes" where
  "fgets_chunk n bs =
     (let l = take (n - 1) bs in if LF \<in> set l then before LF l @ [LF] else l)"

definition xfgets :: "bytes \<Rightarrow> nat \<Rightarrow> nat \<Rightarrow> stream \<Rightarrow> (nat \<times> bytes \<times> stream) outcome" where
  "xfgets m off n f =
     (let l = fgets_chunk n (st_bytes f); f' = f\<lparr>st_bytes := drop (length l) (st_bytes f)\<rparr> in
      if st_error f \<and> LF \<notin> set l \<and> length l < n - 1 then Die ''Cannot read input stream''
      else if l = [] then Ret (0, m, f)
      else if off + length l < length m then Ret (length (cstr l), memcpy_at off (l @ [NUL]) m, f')
      else Die ''write outside an object'')"

lemma xfgets_shrinks:
  "xfgets m off n f = Ret (len, m', f') \<Longrightarrow> 0 < len \<Longrightarrow> length (st_bytes f') < length (st_bytes f)"
  by (cases "st_bytes f") (auto simp: xfgets_def fgets_chunk_def Let_def before_def split: if_splits)

text \<open>
  The loop of \<open>read_conf_line\<close>: the object, the position in it, the file and the line number.
  A line that fills the object makes it grow.
\<close>

function conf_line_loop ::
  "bytes \<Rightarrow> nat \<Rightarrow> nat \<Rightarrow> stream \<Rightarrow> nat \<Rightarrow> (bytes \<times> nat \<times> stream \<times> nat) outcome" where
  "conf_line_loop line n pos f line_number =
     obind (xfgets line pos (n - pos) f) (\<lambda>(len, line, f').
       if len = 0 then Ret (line, pos, f', line_number)
       else
         let pos = pos + len in
         if line ! (pos - 1) \<noteq> LF \<and> pos = n - 1 then
           conf_line_loop (line @ replicate n undefined) (n * 2) pos f' line_number
         else
           let line_number = line_number + 1 in
           if pos \<ge> 2 \<and> line ! (pos - 2) = BACKSLASH
           then conf_line_loop line n (pos - 2) f' line_number
           else if pos \<ge> 2 \<and> line ! (pos - 2) = CR
           then Ret (line[pos - 2 := LF, pos - 1 := NUL], pos - 1, f', line_number)
           else Ret (line, pos, f', line_number))"
  by pat_completeness auto
termination
  by (relation "measure (\<lambda>(line, n, pos, f, line_number). length (st_bytes f))")
    (auto dest: xfgets_shrinks)

declare conf_line_loop.simps [simp del]

definition chomp_object :: "bytes \<Rightarrow> bytes" where
  "chomp_object m =
     (let n = length (cstr m) in if n > 0 \<and> m ! (n - 1) = LF then m[n - 1 := NUL] else m)"

definition read_conf_line :: "stream \<Rightarrow> nat \<Rightarrow> (bytes option \<times> stream \<times> nat) outcome" where
  "read_conf_line f line_number =
     obind (conf_line_loop (replicate 512 undefined) 512 0 f line_number) (\<lambda>(line, pos, f, line_number).
       if pos = 0 then Ret (None, f, line_number)
       else Ret (Some (take (pos + 1) (chomp_object line)), f, line_number))"

lemma conf_line_loop_shrinks:
  "conf_line_loop line n pos f k = Ret (line', pos', f', k') \<Longrightarrow>
     length (st_bytes f') \<le> length (st_bytes f) \<and> (pos < pos' \<longrightarrow> length (st_bytes f') < length (st_bytes f))"
proof (induction line n pos f k rule: conf_line_loop.induct)
  case (1 line n pos f k)
  from 1(3) obtain len l1 f1 where x: "xfgets line pos (n - pos) f = Ret (len, l1, f1)"
    by (subst (asm) conf_line_loop.simps) (auto simp: obind_eq_Ret)
  show ?case
  proof (cases "len = 0")
    case True
    have "length (st_bytes f1) \<le> length (st_bytes f)" using x by (auto simp: xfgets_def Let_def split: if_splits)
    then show ?thesis using 1(3) x True by (subst (asm) conf_line_loop.simps) auto
  next
    case False
    then have s: "length (st_bytes f1) < length (st_bytes f)" using xfgets_shrinks[OF x] by simp
    show ?thesis
      using 1(3) x False s 1(1)[OF x refl refl False refl] 1(2)[OF x refl refl False refl]
      by (subst (asm) conf_line_loop.simps) (auto simp: Let_def split: if_splits)
  qed
qed

lemma read_conf_line_shrinks:
  "read_conf_line f k = Ret (Some m, f', k') \<Longrightarrow> length (st_bytes f') < length (st_bytes f)"
  by (auto simp: read_conf_line_def obind_eq_Ret dest!: conf_line_loop_shrinks split: if_splits)

section \<open>Parsing a line\<close>

definition VALUE_SIZE :: nat where "VALUE_SIZE = 2048"

text \<open>The value is collected from \<open>s\<close>; the result has the text behind it.\<close>

fun value_loop :: "byte option \<Rightarrow> bool \<Rightarrow> string \<Rightarrow> string \<Rightarrow> (string \<times> string) outcome" where
  "value_loop quote_sign escape [] out = Ret (out, [])"
| "value_loop quote_sign escape (c # s) out =
     (if length out \<ge> VALUE_SIZE - 1 then Die ''Value is too long''
      else if escape then value_loop quote_sign False s (out @ [c])
      else if quote_sign = Some c \<or> (quote_sign = None \<and> (c = CHR ''#'' \<or> c = SPACE \<or> c = TAB))
      then Ret (out, s)
      else if c = BACKSLASH then value_loop quote_sign True s out
      else value_loop quote_sign False s (out @ [c]))"

definition key_char :: "byte \<Rightarrow> bool" where
  "key_char c \<longleftrightarrow> c \<noteq> SPACE \<and> c \<noteq> TAB \<and> c \<noteq> CHR ''=''"

definition find_key :: "conf \<Rightarrow> string \<Rightarrow> string option" where
  "find_key cfg key = (if key \<in> set (map fst cfg) then Some key else None)"

definition parse_value :: "string \<Rightarrow> (string \<times> string) outcome" where
  "parse_value token =
     (if token = [] \<or> hd token = CHR ''#'' then Die ''No value assigned''
      else if hd token = CHR 0x22 \<or> hd token = CHR 0x27 then value_loop (Some (hd token)) False (tl token) []
      else value_loop None False token [])"

definition save_value :: "conf \<Rightarrow> string \<Rightarrow> string \<Rightarrow> conf outcome" where
  "save_value cfg key value =
     obind (lookup_conf cfg key) (\<lambda>c.
       case c of
         StrV _ \<Rightarrow> conf_setstr cfg key value
       | IntV _ \<Rightarrow>
           (let (num, rest) = strtol value 0 in
            if rest \<noteq> [] then Die ''Nonnumeric value assigned'' else conf_setint cfg key num))"

definition parse_conf_line :: "string \<Rightarrow> conf \<Rightarrow> conf outcome" where
  "parse_conf_line line cfg =
     (let token = skip_whitespace line in
      if token = [] \<or> hd token = CHR ''#'' then Ret cfg
      else
        let key = takeWhile key_char token in
        if key = [] then Die ''Cannot parse line''
        else case find_key cfg key of
          None \<Rightarrow> Die ''Unknown variable name''
        | Some key \<Rightarrow>
            let token = skip_whitespace (drop (length key) token) in
            if deref token \<noteq> CHR ''='' then Die ''Expected `=' ''
            else
              obind (parse_value (skip_whitespace (tl token))) (\<lambda>(value, rest).
                let token = skip_whitespace rest in
                if token \<noteq> [] \<and> hd token \<noteq> CHR ''#'' then Die ''Unexpected stuff after value''
                else save_value cfg key value))"

text \<open>The lines of a file; every line takes at least one byte of it.\<close>

function parse_conf_lines :: "stream \<Rightarrow> nat \<Rightarrow> conf \<Rightarrow> conf outcome" where
  "parse_conf_lines f line_number cfg =
     obind (read_conf_line f line_number) (\<lambda>(line, f', line_number).
       case line of
         None \<Rightarrow> Ret cfg
       | Some m \<Rightarrow>
           if NUL \<notin> set m then Die ''read outside an object''
           else obind (parse_conf_line (cstr m) cfg) (parse_conf_lines f' line_number))"
  by pat_completeness auto
termination
  by (relation "measure (\<lambda>(f, line_number, cfg). length (st_bytes f))")
    (auto dest: read_conf_line_shrinks)

declare parse_conf_lines.simps [simp del]

text \<open>The file system: the contents of the file, if it can be opened, and whether closing it works.\<close>

definition parse_conf_file :: "stream option \<Rightarrow> bool \<Rightarrow> conf \<Rightarrow> conf outcome" where
  "parse_conf_file opened closes cfg =
     (case opened of
        None \<Rightarrow> Die ''Cannot open configuration file''
      | Some f \<Rightarrow> obind (parse_conf_lines f 0 cfg) (\<lambda>cfg.
          if closes then Ret cfg else Die ''Cannot close configuration file''))"

definition conf_init :: "stream option \<Rightarrow> bool \<Rightarrow> string option \<Rightarrow> conf outcome" where
  "conf_init opened closes host_name =
     obind (conf_setstr empty_conf ''password'' DEFAULT_PASSWORD) (\<lambda>cfg.
     obind (conf_setstr cfg ''port'' DEFAULT_PORT) (\<lambda>cfg.
     obind (conf_setstr cfg ''server'' DEFAULT_SERVER) (\<lambda>cfg.
     obind (conf_setint cfg ''timeout'' DEFAULT_TIMEOUT) (\<lambda>cfg.
     obind (conf_setstr cfg ''tls_ciphers'' DEFAULT_TLS_CIPHERS) (\<lambda>cfg.
     obind (parse_conf_file opened closes cfg) (\<lambda>cfg.
     obind (conf_getstr cfg ''identity'') (\<lambda>identity.
       case identity of
         Some s \<Rightarrow> Ret cfg
       | None \<Rightarrow>
           (case host_name of
              None \<Rightarrow> Die ''Cannot get host name''
            | Some h \<Rightarrow> conf_setstr cfg ''identity'' h))))))))"

text \<open>
  \<open>set_psk\<close> writes the identity with its NUL and the password into the buffers it is given,
  cut to their lengths, and returns the length of the password.
\<close>

definition set_psk ::
  "conf \<Rightarrow> bytes \<Rightarrow> nat \<Rightarrow> bytes \<Rightarrow> nat \<Rightarrow> (bytes \<times> bytes \<times> nat) outcome" where
  "set_psk cfg identity max_identity_len password max_password_len =
     obind (conf_getstr cfg ''identity'') (\<lambda>configured_id.
     obind (conf_getstr cfg ''password'') (\<lambda>configured_pw.
       case (configured_id, configured_pw) of
         (Some i, Some p) \<Rightarrow>
           let identity_len = min (length i) (max_identity_len - 1);
               password_len = min (length p) max_password_len
           in obind (store (memcpy_at 0 (take identity_len i) identity) identity_len NUL) (\<lambda>identity.
                Ret (identity, memcpy_at 0 (take password_len p) password, password_len))
       | _ \<Rightarrow> Die ''NULL string''))"

section \<open>Lines of a file\<close>

text \<open>What the loop does with a complete physical line of \<open>pos - 1\<close> bytes and its newline.\<close>

definition line_read ::
  "bytes \<Rightarrow> nat \<Rightarrow> nat \<Rightarrow> stream \<Rightarrow> nat \<Rightarrow> (bytes \<times> nat \<times> stream \<times> nat) outcome" where
  "line_read line n pos f line_number =
     (if pos \<ge> 2 \<and> line ! (pos - 2) = BACKSLASH
      then conf_line_loop line n (pos - 2) f line_number
      else if pos \<ge> 2 \<and> line ! (pos - 2) = CR
      then Ret (line[pos - 2 := LF, pos - 1 := NUL], pos - 1, f, line_number)
      else Ret (line, pos, f, line_number))"

text \<open>An object that holds the text \<open>s\<close> and a NUL byte behind it.\<close>

definition holds :: "bytes \<Rightarrow> nat \<Rightarrow> string \<Rightarrow> bool" where
  "holds m n s \<longleftrightarrow> length m = n \<and> (\<exists>r. m = s @ NUL # r)"

lemma memcpy_holds:
  assumes "take off m = t" "off \<le> length m" "off + length l < length m"
  shows "holds (memcpy_at off (l @ [NUL]) m) (length m) (t @ l)"
  using assms by (auto simp: holds_def memcpy_at_def)

lemma fgets_line:
  "LF \<notin> set seg \<Longrightarrow> fgets_chunk n (seg @ LF # r) = (if length seg < n - 1 then seg @ [LF] else take (n - 1) seg)"
proof (cases "length seg < n - 1")
  case True
  assume "LF \<notin> set seg"
  moreover obtain k where "n - 1 - length seg = Suc k" using True by (metis Suc_diff_Suc)
  ultimately show ?thesis using True by (simp add: fgets_chunk_def Let_def)
qed (auto simp: fgets_chunk_def Let_def dest: in_set_takeD)

lemma conf_line_segment:
  assumes "length line = n" "pos + 2 \<le> n" "take pos line = t" "st_bytes f = seg @ LF # r"
    and "LF \<notin> set seg" "NUL \<notin> set seg"
  shows "\<exists>line' n'. holds line' n' (t @ seg @ [LF]) \<and>
    conf_line_loop line n pos f k =
      line_read line' n' (pos + length seg + 1) (f\<lparr>st_bytes := r\<rparr>) (Suc k)"
  using assms
proof (induction "length seg" arbitrary: line n pos f t seg rule: less_induct)
  case less
  have lt: "length t = pos" using less.prems(1-3) by auto
  let ?l = "fgets_chunk (n - pos) (st_bytes f)"
  show ?case
  proof (cases "length seg < n - pos - 1")
    case True
    then have l: "?l = seg @ [LF]" using less.prems(4,5) by (simp add: fgets_line)
    let ?m = "memcpy_at pos (seg @ [LF, NUL]) line"
    have h: "holds ?m n (t @ seg @ [LF])"
      using memcpy_holds[of pos line t "seg @ [LF]"] less.prems(1-3) True by simp
    then obtain q where q: "?m = (t @ seg @ [LF]) @ NUL # q" by (auto simp: holds_def)
    have c: "cstr (seg @ [LF]) = seg @ [LF]" using less.prems(6) by (simp add: cstr_id)
    have x: "xfgets line pos (n - pos) f = Ret (length seg + 1, ?m, f\<lparr>st_bytes := r\<rparr>)"
      using l less.prems(1,4) True c by (simp add: xfgets_def Let_def)
    have lf: "?m ! (pos + length seg) = LF" using q lt by (simp add: nth_append)
    have "conf_line_loop line n pos f k = line_read ?m n (pos + length seg + 1) (f\<lparr>st_bytes := r\<rparr>) (Suc k)"
      by (subst conf_line_loop.simps) (simp add: x lf line_read_def Let_def)
    with h show ?thesis by blast
  next
    case False
    define d where "d = n - pos - 1"
    have d: "0 < d" "d \<le> length seg" "pos + d + 1 = n" using less.prems(2) False by (auto simp: d_def)
    have l: "?l = take d seg" using False less.prems(4,5) by (simp add: fgets_line d_def)
    have ld: "length (take d seg) = d" using d(2) by simp
    let ?m = "memcpy_at pos (take d seg @ [NUL]) line"
    have h: "holds ?m n (t @ take d seg)"
      using memcpy_holds[of pos line t "take d seg"] less.prems(1-3) d by simp
    then obtain q where q: "?m = (t @ take d seg) @ NUL # q" "length ?m = n" by (auto simp: holds_def)
    have c: "cstr (take d seg) = take d seg" using less.prems(6) by (auto intro!: cstr_id dest: in_set_takeD)
    have "drop d (seg @ LF # r) = drop d seg @ LF # r" using d(2) by simp
    then have x: "xfgets line pos (n - pos) f = Ret (d, ?m, f\<lparr>st_bytes := drop d seg @ LF # r\<rparr>)"
      using l less.prems(1,4) d c ld by (auto simp: xfgets_def Let_def)
    obtain d' where "d = Suc d'" using d(1) by (cases d) auto
    then have "?m ! (pos + d - 1) = seg ! (d - 1)" using q(1) lt d by (simp add: nth_append)
    then have nlf: "?m ! (pos + d - 1) \<noteq> LF" using less.prems(5) d by (metis Suc_pred' le_eq_less_or_eq less_le_trans lessI nth_mem)
    have "pos + d = n - 1" using d(3) by simp
    let ?line = "?m @ replicate n undefined" and ?f = "f\<lparr>st_bytes := drop d seg @ LF # r\<rparr>"
    have step: "conf_line_loop line n pos f k = conf_line_loop ?line (n * 2) (pos + d) ?f k"
      using d(1) nlf \<open>pos + d = n - 1\<close> by (subst conf_line_loop.simps) (simp only: x obind_simps prod.case Let_def, simp)
    have "\<exists>line' n'. holds line' n' ((t @ take d seg) @ drop d seg @ [LF]) \<and>
      conf_line_loop ?line (n * 2) (pos + d) ?f k =
        line_read line' n' (pos + d + length (drop d seg) + 1) (?f\<lparr>st_bytes := r\<rparr>) (Suc k)"
    proof (rule less.hyps)
      show "length (drop d seg) < length seg" using d by simp
      show "length ?line = n * 2" using q(2) by simp
      show "take (pos + d) ?line = t @ take d seg" using q(1) lt ld by simp
      show "LF \<notin> set (drop d seg)" "NUL \<notin> set (drop d seg)" using less.prems(5,6) by (auto dest: in_set_dropD)
    qed (use d in simp_all)
    moreover have "(t @ take d seg) @ drop d seg @ [LF] = t @ seg @ [LF]" by (metis append.assoc append_take_drop_id)
    moreover have "pos + d + length (drop d seg) + 1 = pos + length seg + 1" using d(2) by simp
    moreover have "?f\<lparr>st_bytes := r\<rparr> = f\<lparr>st_bytes := r\<rparr>" by simp
    ultimately show ?thesis unfolding step by (simp only:)
  qed
qed

text \<open>Physical lines that end in a backslash are joined to the next one.\<close>

fun continued :: "string list \<Rightarrow> bytes" where
  "continued [] = []"
| "continued (p # ps) = p @ [BACKSLASH, LF] @ continued ps"

definition line_text :: "string \<Rightarrow> bool" where
  "line_text s \<longleftrightarrow> NUL \<notin> set s \<and> LF \<notin> set s"

lemma line_read_holds:
  assumes "holds m n (t @ [c, LF])"
  shows "line_read m n (length t + 2) f k =
    (if c = BACKSLASH then conf_line_loop m n (length t) f k
     else if c = CR then Ret (m[length t := LF, Suc (length t) := NUL], Suc (length t), f, k)
     else Ret (m, length t + 2, f, k))"
  using assms by (auto simp: line_read_def holds_def nth_append)

lemma conf_line_joined:
  assumes "length line = n" "pos + 2 \<le> n" "take pos line = t"
    and "st_bytes f = continued ps @ l @ LF # r" "\<forall>p \<in> set ps. line_text p" "line_text l"
    and "t @ concat ps @ l = [] \<or> last (t @ concat ps @ l) \<noteq> BACKSLASH" "NUL \<notin> set t"
  shows "\<exists>line' pos' n'. conf_line_loop line n pos f k =
      Ret (line', pos', f\<lparr>st_bytes := r\<rparr>, k + length ps + 1) \<and>
    holds line' n' (strip_CR (t @ concat ps @ l) @ [LF]) \<and> pos' = length (strip_CR (t @ concat ps @ l)) + 1"
  using assms
proof (induction ps arbitrary: line n pos f t k)
  case Nil
  have lt: "length t = pos" using Nil.prems(1-3) by auto
  from Nil.prems obtain m n' where m: "holds m n' (t @ l @ [LF])"
    "conf_line_loop line n pos f k = line_read m n' (pos + length l + 1) (f\<lparr>st_bytes := r\<rparr>) (Suc k)"
    using conf_line_segment[of line n pos t f l r k] by (auto simp: line_text_def)
  show ?case
  proof (cases "t @ l" rule: rev_cases)
    case Nil
    then have "conf_line_loop line n pos f k = Ret (m, 1, f\<lparr>st_bytes := r\<rparr>, Suc k)"
      using m(2) lt by (simp add: line_read_def)
    then show ?thesis using m(1) Nil by (auto simp: strip_CR_def)
  next
    case (snoc u c)
    have "t @ l @ [LF] = u @ [c, LF]" using snoc by (metis append.assoc append_Cons append_Nil)
    then have h: "holds m n' (u @ [c, LF])" using m(1) by (simp only:)
    have "pos + length l = Suc (length u)" using lt arg_cong[OF snoc, of length] by simp
    then have e: "conf_line_loop line n pos f k = line_read m n' (length u + 2) (f\<lparr>st_bytes := r\<rparr>) (Suc k)"
      using m(2) by simp
    have c: "c \<noteq> BACKSLASH" using Nil.prems(7) snoc by auto
    show ?thesis
    proof (cases "c = CR")
      case True
      from h obtain q where "m = u @ c # LF # NUL # q" "length m = n'" by (auto simp: holds_def)
      then have "holds (m[length u := LF, Suc (length u) := NUL]) n' (u @ [LF])"
        by (auto simp: holds_def list_update_append)
      then show ?thesis using e line_read_holds[OF h] True snoc by (auto simp: strip_CR_def)
    next
      case False
      then show ?thesis using e line_read_holds[OF h] c snoc h by (auto simp: strip_CR_def)
    qed
  qed
next
  case (Cons p ps)
  have lt: "length t = pos" using Cons.prems(1-3) by auto
  have bytes: "st_bytes f = (p @ [BACKSLASH]) @ LF # (continued ps @ l @ LF # r)" using Cons.prems(4) by simp
  have "line_text p" using Cons.prems(5) by simp
  then obtain m n' where m: "holds m n' ((t @ p) @ [BACKSLASH, LF])"
    "conf_line_loop line n pos f k =
       line_read m n' (length (t @ p) + 2) (f\<lparr>st_bytes := continued ps @ l @ LF # r\<rparr>) (Suc k)"
    using conf_line_segment[OF Cons.prems(1-3) bytes, of k] lt by (auto simp: line_text_def add.assoc)
  then obtain q where q: "m = (t @ p) @ BACKSLASH # LF # NUL # q" "length m = n'" by (auto simp: holds_def)
  let ?f = "f\<lparr>st_bytes := continued ps @ l @ LF # r\<rparr>"
  have e: "conf_line_loop line n pos f k = conf_line_loop m n' (length (t @ p)) ?f (Suc k)"
    using m(2) line_read_holds[OF m(1)] by simp
  have "\<exists>line' pos' n''. conf_line_loop m n' (length (t @ p)) ?f (Suc k) =
      Ret (line', pos', ?f\<lparr>st_bytes := r\<rparr>, Suc k + length ps + 1) \<and>
    holds line' n'' (strip_CR ((t @ p) @ concat ps @ l) @ [LF]) \<and> pos' = length (strip_CR ((t @ p) @ concat ps @ l)) + 1"
    by (rule Cons.IH) (use Cons.prems q \<open>line_text p\<close> in \<open>auto simp: line_text_def\<close>)
  then show ?case unfolding e by simp
qed

lemma read_conf_line_joined:
  assumes "st_bytes f = continued ps @ l @ LF # r" "\<forall>p \<in> set ps. line_text p" "line_text l"
    and "concat ps @ l = [] \<or> last (concat ps @ l) \<noteq> BACKSLASH"
  shows "\<exists>m. read_conf_line f k = Ret (Some m, f\<lparr>st_bytes := r\<rparr>, k + length ps + 1) \<and>
    NUL \<in> set m \<and> cstr m = strip_CR (concat ps @ l)"
proof -
  let ?s = "strip_CR (concat ps @ l)"
  obtain m pos n where m: "conf_line_loop (replicate 512 undefined) 512 0 f k = Ret (m, pos, f\<lparr>st_bytes := r\<rparr>, k + length ps + 1)"
    "holds m n (?s @ [LF])" "pos = length ?s + 1"
    using conf_line_joined[of "replicate 512 undefined" 512 0 "[]" f ps l r k] assms by auto
  from m(2) obtain q where q: "m = ?s @ LF # NUL # q" by (auto simp: holds_def)
  have "NUL \<notin> set (concat ps @ l)" using assms(2,3) by (auto simp: line_text_def)
  then have ns: "NUL \<notin> set ?s" by (auto simp: strip_CR_def dest: in_set_butlastD)
  then have "cstr m = ?s @ [LF]" using q cstr_append_NUL[of "?s @ [LF]" q] by simp
  then have "chomp_object m = ?s @ NUL # NUL # q" using q by (simp add: chomp_object_def nth_append list_update_append)
  then have "take (pos + 1) (chomp_object m) = ?s @ [NUL, NUL]" using m(3) by simp
  then show ?thesis using m(1,3) ns cstr_append_NUL[of ?s "[NUL]"] by (auto simp: read_conf_line_def)
qed

section \<open>Shape of the table\<close>

text \<open>The keys and the types of their values never change, and a string once set stays set.\<close>

fun same_value :: "conf_value \<Rightarrow> conf_value \<Rightarrow> bool" where
  "same_value (IntV i) (IntV j) = True"
| "same_value (StrV s) (StrV t) = (s \<noteq> None \<longrightarrow> t \<noteq> None)"
| "same_value _ _ = False"

definition same_entry :: "string \<times> conf_value \<Rightarrow> string \<times> conf_value \<Rightarrow> bool" where
  "same_entry e e' \<longleftrightarrow> fst e' = fst e \<and> same_value (snd e) (snd e')"

definition conf_extends :: "conf \<Rightarrow> conf \<Rightarrow> bool" where
  "conf_extends = list_all2 same_entry"

lemma same_value_refl [simp]: "same_value v v"
  by (cases v) simp_all

lemma same_value_trans: "same_value u v \<Longrightarrow> same_value v w \<Longrightarrow> same_value u w"
  by (cases u; cases v; cases w) auto

lemma same_entry_refl [simp]: "same_entry e e"
  by (simp add: same_entry_def)

lemma conf_extends_refl [simp]: "conf_extends cfg cfg"
  by (simp add: conf_extends_def list_all2_same)

lemma conf_extends_trans: "conf_extends a b \<Longrightarrow> conf_extends b c \<Longrightarrow> conf_extends a c"
  unfolding conf_extends_def
  by (rule list_all2_trans[of same_entry same_entry same_entry])
    (auto simp: same_entry_def intro: same_value_trans)

lemma lookup_put [simp]:
  "lookup_conf cfg key = Ret v \<Longrightarrow> lookup_conf (put_conf cfg key v') key' = (if key' = key then Ret v' else lookup_conf cfg key')"
  by (induction cfg key rule: lookup_conf.induct) (auto split: if_splits)

lemma put_conf_extends:
  "lookup_conf cfg key = Ret v \<Longrightarrow> same_value v v' \<Longrightarrow> conf_extends cfg (put_conf cfg key v')"
  using list_all2_same[of same_entry]
  by (induction cfg key rule: lookup_conf.induct) (auto simp: conf_extends_def same_entry_def split: if_splits)

lemma conf_access_iff:
  "conf_setint cfg key i = Ret cfg' \<longleftrightarrow> (\<exists>j. lookup_conf cfg key = Ret (IntV j)) \<and> cfg' = put_conf cfg key (IntV i)"
  "conf_setstr cfg key s = Ret cfg' \<longleftrightarrow> (\<exists>t. lookup_conf cfg key = Ret (StrV t)) \<and> cfg' = put_conf cfg key (StrV (Some s))"
  "conf_getint cfg key = Ret j \<longleftrightarrow> lookup_conf cfg key = Ret (IntV j)"
  "conf_getstr cfg key = Ret t \<longleftrightarrow> lookup_conf cfg key = Ret (StrV t)"
  by (cases "lookup_conf cfg key"; auto simp: conf_setint_def conf_setstr_def conf_getint_def conf_getstr_def
      split: conf_value.split)+

lemma conf_set_extends:
  "conf_setint cfg key i = Ret cfg' \<Longrightarrow> conf_extends cfg cfg'"
  "conf_setstr cfg key s = Ret cfg' \<Longrightarrow> conf_extends cfg cfg'"
  by (auto simp: conf_access_iff intro!: put_conf_extends)

lemma parse_conf_line_extends: "parse_conf_line line cfg = Ret cfg' \<Longrightarrow> conf_extends cfg cfg'"
proof -
  have "save_value cfg key v = Ret cfg' \<Longrightarrow> conf_extends cfg cfg'" for key v
    by (cases "lookup_conf cfg key")
      (auto simp: save_value_def split_beta dest: conf_set_extends split: if_splits conf_value.split_asm)
  then show "parse_conf_line line cfg = Ret cfg' \<Longrightarrow> ?thesis"
    by (auto simp: parse_conf_line_def Let_def obind_eq_Ret split_beta split: if_splits option.splits)
qed

lemma parse_conf_lines_extends: "parse_conf_lines f k cfg = Ret cfg' \<Longrightarrow> conf_extends cfg cfg'"
proof (induction f k cfg rule: parse_conf_lines.induct)
  case (1 f k cfg)
  from 1(2) obtain line f1 k1 where r: "read_conf_line f k = Ret (line, f1, k1)"
    by (subst (asm) parse_conf_lines.simps) (auto simp: obind_eq_Ret)
  show ?case
  proof (cases line)
    case None
    then show ?thesis using 1(2) r by (subst (asm) parse_conf_lines.simps) simp
  next
    case (Some m)
    then obtain cfg1 where "NUL \<in> set m" "parse_conf_line (cstr m) cfg = Ret cfg1" "parse_conf_lines f1 k1 cfg1 = Ret cfg'"
      using 1(2) r by (subst (asm) parse_conf_lines.simps) (auto simp: obind_eq_Ret split: if_splits)
    then show ?thesis
      using 1(1)[OF r refl refl Some, of cfg1] parse_conf_line_extends conf_extends_trans by blast
  qed
qed

lemma conf_extends_get:
  assumes "conf_extends cfg cfg'"
  shows "conf_getint cfg key = Ret i \<Longrightarrow> \<exists>i'. conf_getint cfg' key = Ret i'"
    "conf_getstr cfg key = Ret s \<Longrightarrow> \<exists>s'. conf_getstr cfg' key = Ret s' \<and> (s \<noteq> None \<longrightarrow> s' \<noteq> None)"
proof -
  have l: "lookup_conf cfg key = Ret v \<Longrightarrow> \<exists>v'. lookup_conf cfg' key = Ret v' \<and> same_value v v'" for v
    using assms unfolding conf_extends_def
    by (induction rule: list_all2_induct) (auto simp: same_entry_def split: if_splits)
  show "conf_getint cfg key = Ret i \<Longrightarrow> \<exists>i'. conf_getint cfg' key = Ret i'"
    using l[of "IntV i"] by (auto simp: conf_access_iff elim: same_value.elims)
  show "conf_getstr cfg key = Ret s \<Longrightarrow> \<exists>s'. conf_getstr cfg' key = Ret s' \<and> (s \<noteq> None \<longrightarrow> s' \<noteq> None)"
    using l[of "StrV s"] by (auto simp: conf_access_iff elim: same_value.elims)
qed

definition default_conf :: conf where
  "default_conf =
     [(''delay'', IntV 0), (''encryption_method'', StrV None), (''identity'', StrV None),
      (''password'', StrV (Some DEFAULT_PASSWORD)), (''port'', StrV (Some DEFAULT_PORT)),
      (''server'', StrV (Some DEFAULT_SERVER)), (''timeout'', IntV DEFAULT_TIMEOUT),
      (''tls_ciphers'', StrV (Some DEFAULT_TLS_CIPHERS))]"

lemma conf_init_defaults:
  "conf_init opened closes host_name =
     obind (parse_conf_file opened closes default_conf) (\<lambda>cfg.
     obind (conf_getstr cfg ''identity'') (\<lambda>identity.
       case identity of
         Some s \<Rightarrow> Ret cfg
       | None \<Rightarrow> (case host_name of None \<Rightarrow> Die ''Cannot get host name'' | Some h \<Rightarrow> conf_setstr cfg ''identity'' h)))"
  by (simp add: conf_init_def empty_conf_def conf_setstr_def conf_setint_def default_conf_def)

lemma conf_init_values:
  assumes "conf_init opened closes host_name = Ret cfg"
  shows "(\<forall>key \<in> {''identity'', ''password'', ''port'', ''server'', ''tls_ciphers''}. \<exists>s. conf_getstr cfg key = Ret (Some s)) \<and>
    (\<forall>key \<in> {''delay'', ''timeout''}. \<exists>i. conf_getint cfg key = Ret i)"
proof -
  obtain cfg1 identity where c: "parse_conf_file opened closes default_conf = Ret cfg1"
    "conf_getstr cfg1 ''identity'' = Ret identity"
    "(case identity of Some s \<Rightarrow> Ret cfg1 | None \<Rightarrow> (case host_name of None \<Rightarrow> Die ''Cannot get host name''
       | Some h \<Rightarrow> conf_setstr cfg1 ''identity'' h)) = Ret cfg"
    using assms by (auto simp: conf_init_defaults obind_eq_Ret)
  have "conf_extends default_conf cfg1"
    using c(1) parse_conf_lines_extends by (auto simp: parse_conf_file_def obind_eq_Ret split: option.splits if_splits)
  moreover have e1: "conf_extends cfg1 cfg" and id: "\<exists>s. conf_getstr cfg ''identity'' = Ret (Some s)"
    using c(2,3) conf_set_extends(2) by (auto simp: conf_access_iff split: option.splits)
  ultimately have e: "conf_extends default_conf cfg" using conf_extends_trans by blast
  have str: "\<exists>s. conf_getstr cfg key = Ret (Some s)" if "conf_getstr default_conf key = Ret (Some t)" for key t
    using conf_extends_get(2)[OF e that] by auto
  have int: "\<exists>i. conf_getint cfg key = Ret i" if "conf_getint default_conf key = Ret t" for key t
    using conf_extends_get(1)[OF e that] .
  show ?thesis
    using id str[of "''password''"] str[of "''port''"] str[of "''server''"] str[of "''tls_ciphers''"]
      int[of "''delay''"] int[of "''timeout''"]
    by (simp add: conf_access_iff default_conf_def)
qed

lemma conf_init_empty:
  "conf_init (Some \<lparr>st_bytes = [], st_error = False\<rparr>) True (Some h) =
     Ret (put_conf default_conf ''identity'' (StrV (Some h)))"
proof -
  have "read_conf_line \<lparr>st_bytes = [], st_error = False\<rparr> 0 = Ret (None, \<lparr>st_bytes = [], st_error = False\<rparr>, 0)"
    by (simp add: read_conf_line_def conf_line_loop.simps xfgets_def fgets_chunk_def)
  then have "parse_conf_file (Some \<lparr>st_bytes = [], st_error = False\<rparr>) True default_conf = Ret default_conf"
    by (simp add: parse_conf_file_def parse_conf_lines.simps)
  then show ?thesis by (simp add: conf_init_defaults default_conf_def conf_getstr_def conf_setstr_def)
qed

section \<open>Values\<close>

text \<open>Writing a value in double quotes, and reading it back.\<close>

definition QUOTE :: byte where "QUOTE = CHR 0x22"

lemma QUOTE_neq [simp]: "QUOTE \<noteq> SPACE" "QUOTE \<noteq> TAB" "QUOTE \<noteq> CHR ''#''" "QUOTE \<noteq> BACKSLASH"
  by (simp_all add: QUOTE_def)

fun quote_value :: "string \<Rightarrow> string" where
  "quote_value [] = []"
| "quote_value (c # s) = (if c = QUOTE \<or> c = BACKSLASH then [BACKSLASH, c] else [c]) @ quote_value s"

lemma value_loop_quoted:
  "length out + length v < VALUE_SIZE - 1 \<Longrightarrow>
   value_loop (Some QUOTE) False (quote_value v @ QUOTE # s) out = Ret (out @ v, s)"
proof (induction v arbitrary: out)
  case (Cons c v)
  show ?case
    using Cons.prems Cons.IH[of "out @ [c]"] by (auto simp: QUOTE_def)
qed simp

definition plain_char :: "byte \<Rightarrow> bool" where
  "plain_char c \<longleftrightarrow> c \<noteq> CHR ''#'' \<and> c \<noteq> SPACE \<and> c \<noteq> TAB \<and> c \<noteq> BACKSLASH"

lemma value_loop_plain:
  "length out + length v < VALUE_SIZE - 1 \<Longrightarrow> \<forall>c \<in> set v. plain_char c \<Longrightarrow>
   value_loop None False (v @ CHR ''#'' # s) out = Ret (out @ v, s)"
proof (induction v arbitrary: out)
  case (Cons c v)
  then show ?case using Cons.IH[of "out @ [c]"] by (auto simp: plain_char_def)
qed simp

definition key_text :: "string \<Rightarrow> bool" where
  "key_text key \<longleftrightarrow> key \<noteq> [] \<and> hd key \<noteq> CHR ''#'' \<and> (\<forall>c \<in> set key. key_char c)"

lemma parse_conf_assignment:
  assumes "key_text key" "key \<in> set (map fst cfg)"
  shows "parse_conf_line (key @ ''='' @ v) cfg =
    obind (parse_value (skip_whitespace v)) (\<lambda>(value, rest).
      let token = skip_whitespace rest in
      if token \<noteq> [] \<and> hd token \<noteq> CHR ''#'' then Die ''Unexpected stuff after value'' else save_value cfg key value)"
proof -
  obtain c k where k: "key = c # k" "c \<noteq> CHR ''#''" "key_char c" using assms(1) by (cases key) (auto simp: key_text_def)
  have s: "skip_whitespace (key @ ''='' @ v) = key @ ''='' @ v" using k by (simp add: key_char_def)
  have "\<forall>x \<in> set key. key_char x" using assms(1) by (simp add: key_text_def)
  then have t: "takeWhile key_char (key @ ''='' @ v) = key"
    by (subst takeWhile_append2) (auto simp: key_char_def)
  show ?thesis
    unfolding parse_conf_line_def s Let_def t using assms(1,2)
    by (simp add: find_key_def key_text_def)
qed

lemma skip_whitespace_quoted [simp]: "skip_whitespace (QUOTE # s) = QUOTE # s"
  by (simp add: QUOTE_def)

lemma parse_quoted:
  "length v < VALUE_SIZE - 1 \<Longrightarrow> parse_value (QUOTE # quote_value v @ QUOTE # s) = Ret (v, s)"
  using value_loop_quoted[of "[]" v s] by (simp add: parse_value_def QUOTE_def)

lemma parse_plain:
  assumes "v \<noteq> []" "\<forall>c \<in> set v. plain_char c" "hd v \<noteq> QUOTE" "hd v \<noteq> CHR 0x27" "length v < VALUE_SIZE - 1"
  shows "parse_value (v @ CHR ''#'' # s) = Ret (v, s)"
  using value_loop_plain[of "[]" v s] assms
  by (cases v) (auto simp: parse_value_def QUOTE_def plain_char_def)

section \<open>The end of the file\<close>

lemma conf_lines_cut_short:
  assumes "st_bytes f = p @ [BACKSLASH, c]" "\<not> st_error f" "line_text p" "p \<noteq> []" "length p < 509" "c \<noteq> NUL"
  shows "\<exists>m. read_conf_line f k = Ret (Some m, f\<lparr>st_bytes := []\<rparr>, k + 1) \<and> m = p @ [BACKSLASH]"
proof -
  let ?buf = "replicate 512 undefined :: bytes"
  let ?l = "p @ [BACKSLASH, c]"
  let ?m = "memcpy_at 0 (?l @ [NUL]) ?buf"
  have m: "?m = p @ BACKSLASH # c # NUL # replicate (512 - (length p + 3)) undefined"
    using assms(5) by (simp add: memcpy_at_def)
  have l: "fgets_chunk 512 (st_bytes f) = ?l"
  proof (cases "c = LF")
    case True
    then show ?thesis using fgets_line[of "p @ [BACKSLASH]" 512 "[]"] assms(1,3,5) by (simp add: line_text_def)
  qed (use assms(1,3,5) in \<open>auto simp: fgets_chunk_def Let_def line_text_def\<close>)
  have c: "cstr ?l = ?l" using assms(3,6) by (intro cstr_id) (auto simp: line_text_def)
  have x: "xfgets ?buf 0 512 f = Ret (length p + 2, ?m, f\<lparr>st_bytes := []\<rparr>)"
    unfolding xfgets_def l c Let_def using assms(1,2,5) by simp
  have x': "xfgets ?m (length p) (512 - length p) (f\<lparr>st_bytes := []\<rparr>) = Ret (0, ?m, f\<lparr>st_bytes := []\<rparr>)"
    using assms(2) by (simp add: xfgets_def fgets_chunk_def Let_def)
  have bs: "?m ! length p = BACKSLASH" using m by (simp add: nth_append)
  have "conf_line_loop ?buf 512 0 f k = conf_line_loop ?m 512 (length p) (f\<lparr>st_bytes := []\<rparr>) (k + 1)"
    using x bs assms(5) by (subst conf_line_loop.simps) (simp add: Let_def)
  also have "\<dots> = Ret (?m, length p, f\<lparr>st_bytes := []\<rparr>, k + 1)"
    by (subst conf_line_loop.simps) (simp only: x' obind_simps prod.case, simp)
  finally have loop: "conf_line_loop ?buf 512 0 f k = Ret (?m, length p, f\<lparr>st_bytes := []\<rparr>, k + 1)" .
  have "cstr ?m = ?l" using m c cstr_append_NUL'[of ?l] by simp
  then have "take (length p + 1) (chomp_object ?m) = p @ [BACKSLASH]"
    unfolding chomp_object_def Let_def by (simp only: m) (auto simp: list_update_append nth_append)
  then show ?thesis using loop assms(4) by (simp add: read_conf_line_def)
qed

section \<open>Properties of the configuration\<close>

text \<open>
  A logical line of the configuration file, of any length and of any number of
  physical lines joined by backslashes, is read as its text without the line terminator
  (newline, or carriage return and newline), and the line number counts the physical lines.
\<close>

theorem config_lines_joined:
  assumes "st_bytes f = continued ps @ l @ LF # r" "\<forall>p \<in> set ps. line_text p" "line_text l"
    and "concat ps @ l = [] \<or> last (concat ps @ l) \<noteq> BACKSLASH"
  shows "\<exists>m. read_conf_line f k = Ret (Some m, f\<lparr>st_bytes := r\<rparr>, k + length ps + 1) \<and>
    NUL \<in> set m \<and> cstr m = strip_CR (concat ps @ l)"
  using assms by (rule read_conf_line_joined)

lemma config_lines_joined_witness:
  "\<exists>m. read_conf_line \<lparr>st_bytes = ''port = '' @ [BACKSLASH, LF] @ ''5669'' @ [CR, LF] @ ''x'', st_error = False\<rparr> 0 =
      Ret (Some m, \<lparr>st_bytes = ''x'', st_error = False\<rparr>, 2) \<and> cstr m = ''port = 5669''"
  using config_lines_joined[of "\<lparr>st_bytes = ''port = '' @ [BACKSLASH, LF] @ ''5669'' @ [CR, LF] @ ''x'', st_error = False\<rparr>"
      "[''port = '']" "''5669'' @ [CR]" "''x''" 0]
  by (auto simp: line_text_def strip_CR_def numeral_2_eq_2)

text \<open>
  A quoted value comes back as it was: assigning the text \<open>v\<close> in double quotes,
  with a backslash before each quote and backslash, saves exactly \<open>v\<close> for the key, whatever
  blanks or comment signs \<open>v\<close> has, up to 2046 bytes.
\<close>

theorem quoted_value_roundtrip:
  assumes "key_text key" "key \<in> set (map fst cfg)" "length v < VALUE_SIZE - 1"
  shows "parse_conf_line (key @ ''='' @ QUOTE # quote_value v @ [QUOTE]) cfg = save_value cfg key v"
  using parse_conf_assignment[OF assms(1,2), of "QUOTE # quote_value v @ [QUOTE]"] parse_quoted[OF assms(3), of "[]"]
  by simp

lemma quoted_value_roundtrip_witness:
  "parse_conf_line (''password='' @ QUOTE # quote_value ''a # b'' @ [QUOTE]) default_conf =
     save_value default_conf ''password'' ''a # b''"
  using quoted_value_roundtrip[of "''password''" default_conf "''a # b''"]
  by (simp add: key_text_def key_char_def default_conf_def VALUE_SIZE_def)

text \<open>
  After \<open>conf_init\<close> succeeds, whatever the file sets, every string the client asks
  for is present and every integer has its type: no look-up fails and no NULL string is used.
\<close>

theorem conf_init_complete:
  assumes "conf_init opened closes host_name = Ret cfg"
  shows "(\<forall>key \<in> {''identity'', ''password'', ''port'', ''server'', ''tls_ciphers''}. \<exists>s. conf_getstr cfg key = Ret (Some s)) \<and>
    (\<forall>key \<in> {''delay'', ''timeout''}. \<exists>i. conf_getint cfg key = Ret i)"
  using conf_init_values[OF assms] .

lemma conf_init_complete_witness:
  "\<exists>cfg. conf_init (Some \<lparr>st_bytes = [], st_error = False\<rparr>) True (Some ''host'') = Ret cfg \<and>
     (\<exists>s. conf_getstr cfg ''identity'' = Ret (Some s))"
proof -
  obtain cfg where "conf_init (Some \<lparr>st_bytes = [], st_error = False\<rparr>) True (Some ''host'') = Ret cfg"
    using conf_init_empty by blast
  then show ?thesis using conf_init_complete[of "Some \<lparr>st_bytes = [], st_error = False\<rparr>" True "Some ''host''" cfg] by auto
qed

text \<open>
  If the file ends in the middle of a continued line (or in a line without a
  newline whose last character but one is a backslash), the line is cut without its NUL byte
  and the parser reads past the end of it.
\<close>

theorem config_cut_short:
  assumes "st_bytes f = p @ [BACKSLASH, c]" "\<not> st_error f" "line_text p" "p \<noteq> []" "length p < 509" "c \<noteq> NUL"
  shows "parse_conf_lines f k cfg = Die ''read outside an object''"
proof -
  from conf_lines_cut_short[OF assms] have "read_conf_line f k = Ret (Some (p @ [BACKSLASH]), f\<lparr>st_bytes := []\<rparr>, k + 1)"
    by simp
  then show ?thesis using assms(3) by (subst parse_conf_lines.simps) (simp add: line_text_def)
qed

lemma config_cut_short_witness:
  "parse_conf_lines \<lparr>st_bytes = ''port = 5668'' @ [BACKSLASH, LF], st_error = False\<rparr> 0 default_conf =
     Die ''read outside an object''"
  using config_cut_short[of "\<lparr>st_bytes = ''port = 5668'' @ [BACKSLASH, LF], st_error = False\<rparr>" "''port = 5668''" LF 0 default_conf]
  by (simp add: line_text_def)

text \<open>
  A comment sign right behind an unquoted value ends the value but is not taken
  as the start of a comment: the line is refused, unless the comment is empty.
\<close>

theorem adjacent_comment_refused:
  assumes "key_text key" "key \<in> set (map fst cfg)" "v \<noteq> []" "\<forall>c \<in> set v. plain_char c"
    and "hd v \<noteq> QUOTE" "hd v \<noteq> CHR 0x27" "length v < VALUE_SIZE - 1"
    and "skip_whitespace comment \<noteq> []" "hd (skip_whitespace comment) \<noteq> CHR ''#''"
  shows "parse_conf_line (key @ ''='' @ v @ CHR ''#'' # comment) cfg = Die ''Unexpected stuff after value''"
proof -
  have "skip_whitespace (v @ CHR ''#'' # comment) = v @ CHR ''#'' # comment"
    using assms(3,4) by (cases v) (auto simp: plain_char_def)
  then show ?thesis
    using parse_conf_assignment[OF assms(1,2), of "v @ CHR ''#'' # comment"] parse_plain[OF assms(3-7), of comment] assms(8,9)
    by simp
qed

lemma adjacent_comment_refused_witness:
  "parse_conf_line ''timeout=15#seconds'' default_conf = Die ''Unexpected stuff after value''"
  using adjacent_comment_refused[of "''timeout''" default_conf "''15''" "''seconds''"]
  by (simp add: key_text_def key_char_def default_conf_def VALUE_SIZE_def plain_char_def QUOTE_def)

text \<open>
  The PSK callback of the client stays within both buffers: it writes at most
  \<open>max_identity_len\<close> bytes with the NUL and at most \<open>max_password_len\<close> bytes of password, and
  returns the number of password bytes.
\<close>

theorem set_psk_bounded:
  assumes "conf_getstr cfg ''identity'' = Ret (Some i)" "conf_getstr cfg ''password'' = Ret (Some p)"
    and "0 < max_i" "max_i \<le> length identity" "max_p \<le> length password" "NUL \<notin> set i"
  shows "\<exists>identity' password' n. set_psk cfg identity max_i password max_p = Ret (identity', password', n) \<and>
    length identity' = length identity \<and> length password' = length password \<and>
    cstr identity' = take (max_i - 1) i \<and> n \<le> max_p \<and> take n password' = take max_p p"
proof -
  let ?n = "min (length i) (max_i - 1)"
  have t: "take ?n i = take (max_i - 1) i" by (simp add: min_def)
  have len: "?n < length identity" using assms(3,4) by auto
  have "(memcpy_at 0 (take ?n i) identity)[?n := NUL] = take ?n i @ NUL # drop (Suc ?n) identity"
    using len Cons_nth_drop_Suc[OF len] list_update_append1[of 0 "[identity ! ?n]"]
    by (simp add: memcpy_at_def list_update_append) (metis list_update_code(2))
  moreover have "length (memcpy_at 0 (take ?n i) identity) = length identity"
    using len by simp
  moreover have "cstr (take (max_i - 1) i) = take (max_i - 1) i"
    using assms(6) by (auto intro!: cstr_id dest: in_set_takeD)
  moreover have "take (min (length p) max_p) (memcpy_at 0 (take (min (length p) max_p) p) password) = take max_p p"
    "length (memcpy_at 0 (take (min (length p) max_p) p) password) = length password"
    using assms(5) by (simp_all add: memcpy_at_def min_def)
  ultimately show ?thesis
    using assms(1,2) len t by (simp add: set_psk_def Let_def)
qed

lemma set_psk_bounded_witness:
  "\<exists>identity' password' n. set_psk [(''identity'', StrV (Some ''alice'')), (''password'', StrV (Some ''pw''))]
      (replicate 4 NUL) 4 (replicate 256 NUL) 256 = Ret (identity', password', n) \<and> cstr identity' = ''ali''"
  using set_psk_bounded[of "[(''identity'', StrV (Some ''alice'')), (''password'', StrV (Some ''pw''))]" "''alice''" "''pw''" 4
      "replicate 4 NUL" 256 "replicate 256 NUL"]
  by (auto simp: conf_access_iff)

end
