(* ===== verification/Log.thy ===== *)
theory Log
  imports CString Numbers
begin

text \<open>
  Logging, \<open>src/common/log.c\<close> and \<open>log.h\<close>, and the program name and version strings of
  \<open>lib/progname.c\<close> and \<open>src/common/util.c\<close>. What \<open>vsnprintf\<close> would print into an unlimited
  buffer is a parameter, a function of the format that \<open>vlog\<close> hands on.
\<close>

section \<open>Levels and targets\<close>

datatype level = Critical | Error | Warning | Notice | Info | Debug

fun level_num :: "level \<Rightarrow> int" where
  "level_num Critical = 0"
| "level_num Error = 1"
| "level_num Warning = 2"
| "level_num Notice = 3"
| "level_num Info = 4"
| "level_num Debug = 5"

lemma level_num_inject [simp]: "level_num a = level_num b \<longleftrightarrow> a = b"
  by (cases a; cases b) simp_all

instantiation level :: linorder
begin

definition less_eq_level :: "level \<Rightarrow> level \<Rightarrow> bool" where
  "less_eq_level a b \<longleftrightarrow> level_num a \<le> level_num b"

definition less_level :: "level \<Rightarrow> level \<Rightarrow> bool" where
  "less_level a b \<longleftrightarrow> level_num a < level_num b"

instance
  by standard (auto simp: less_eq_level_def less_level_def)

end

text \<open>The priorities of \<open>syslog(3)\<close>.\<close>

fun syslog_priority :: "level \<Rightarrow> int" where
  "syslog_priority Critical = 2"
| "syslog_priority Error = 3"
| "syslog_priority Warning = 4"
| "syslog_priority Notice = 5"
| "syslog_priority Info = 6"
| "syslog_priority Debug = 7"

fun level_to_string :: "level \<Rightarrow> string" where
  "level_to_string Critical = ''FATAL''"
| "level_to_string Error = ''ERROR''"
| "level_to_string Warning = ''WARNING''"
| "level_to_string Notice = ''NOTICE''"
| "level_to_string Info = ''INFO''"
| "level_to_string Debug = ''DEBUG''"

definition LOG_TARGET_SYSLOG :: int where "LOG_TARGET_SYSLOG = 1"
definition LOG_TARGET_STDERR :: int where "LOG_TARGET_STDERR = 2"
definition LOG_TARGET_SYSTEMD :: int where "LOG_TARGET_SYSTEMD = 4"

text \<open>Bit \<open>t\<close> of the flags is set; the targets are powers of two.\<close>

definition has_target :: "int \<Rightarrow> int \<Rightarrow> bool" where
  "has_target flags t \<longleftrightarrow> (flags div t) mod 2 = 1"

record log_state =
  lg_level :: int
  lg_target :: int
  lg_opened :: bool

definition log_initial :: log_state where
  "log_initial = \<lparr>lg_level = level_num Info, lg_target = LOG_TARGET_STDERR, lg_opened = False\<rparr>"

definition log_set :: "int \<Rightarrow> int \<Rightarrow> log_state \<Rightarrow> log_state" where
  "log_set lv flags lg =
     (let lg = (if lv \<noteq> - 1 then lg\<lparr>lg_level := lv\<rparr> else lg) in
      if flags \<noteq> - 1 then
        (let lg = lg\<lparr>lg_target := flags\<rparr> in
         if has_target flags LOG_TARGET_SYSLOG \<and> \<not> lg_opened lg then lg\<lparr>lg_opened := True\<rparr> else lg)
      else lg)"

section \<open>The format\<close>

definition OUT_FMT_SIZE :: nat where "OUT_FMT_SIZE = 512"
definition LOG_BUFFER_SIZE :: nat where "LOG_BUFFER_SIZE = 768"

abbreviation PERCENT :: byte where "PERCENT \<equiv> CHR ''%''"

text \<open>The loop that handles \<open>%m\<close>: \<open>pct\<close> is \<open>STATE_PERCENT\<close>, \<open>out\<close> what is in \<open>out_fmt\<close> so far.\<close>

fun fmt_loop :: "string \<Rightarrow> bool \<Rightarrow> string \<Rightarrow> string \<Rightarrow> string" where
  "fmt_loop err pct [] out = out"
| "fmt_loop err pct (c # s) out =
     (if length out \<ge> OUT_FMT_SIZE - 2 then out
      else if c = PERCENT then
        (if pct then fmt_loop err False s (out @ [PERCENT]) else fmt_loop err True s out)
      else if c = CHR ''m'' \<and> pct then
        fmt_loop err False s (out @ take (OUT_FMT_SIZE - 1 - length out) err)
      else fmt_loop err False s (out @ (if pct then [PERCENT] else []) @ [c]))"

definition log_format :: "string \<Rightarrow> string \<Rightarrow> string" where
  "log_format err in_fmt = fmt_loop err False in_fmt []"

definition log_message :: "(string \<Rightarrow> string) \<Rightarrow> string \<Rightarrow> string \<Rightarrow> string" where
  "log_message vsnprintf err in_fmt =
     (let full = vsnprintf (log_format err in_fmt) in
      if length full > LOG_BUFFER_SIZE - 1 then take (LOG_BUFFER_SIZE - 7) full @ '' [...]''
      else full)"

datatype log_output = Systemd string | Stderr string | Syslog int string

definition vlog :: "(string \<Rightarrow> string) \<Rightarrow> string \<Rightarrow> string \<Rightarrow> log_state \<Rightarrow> level \<Rightarrow> string \<Rightarrow> log_output list" where
  "vlog vsnprintf err progname lg lv in_fmt =
     (let message = log_message vsnprintf err in_fmt in
      (if has_target (lg_target lg) LOG_TARGET_SYSTEMD
       then [Systemd (''<'' @ show_int (syslog_priority lv) @ ''>'' @ message @ [LF])] else []) @
      (if has_target (lg_target lg) LOG_TARGET_STDERR
       then [Stderr (progname @ '': ['' @ level_to_string lv @ ''] '' @ message @ [LF])] else []) @
      (if has_target (lg_target lg) LOG_TARGET_SYSLOG
       then [Syslog (syslog_priority lv) (''['' @ level_to_string lv @ ''] '' @ message)] else []))"

text \<open>\<open>debug\<close>, \<open>info\<close>, \<open>notice\<close>, \<open>warning\<close> and \<open>error\<close>; \<open>critical\<close> and \<open>die\<close> always log.\<close>

definition log_at :: "(string \<Rightarrow> string) \<Rightarrow> string \<Rightarrow> string \<Rightarrow> log_state \<Rightarrow> level \<Rightarrow> string \<Rightarrow> log_output list" where
  "log_at vsnprintf err progname lg lv format =
     (if lv = Critical \<or> lg_level lg \<ge> level_num lv then vlog vsnprintf err progname lg lv format else [])"

section \<open>Names and versions\<close>

definition setprogname :: "string \<Rightarrow> string" where
  "setprogname path = (case strrchr path (CHR ''/'') of None \<Rightarrow> path | Some p \<Rightarrow> tl p)"

text \<open>The backends of libev, by their flag.\<close>

definition get_ev_backend :: "nat \<Rightarrow> string" where
  "get_ev_backend b =
     (if b = 1 then ''select'' else if b = 2 then ''poll'' else if b = 4 then ''epoll''
      else if b = 64 then ''Linux AIO'' else if b = 128 then ''io_uring'' else if b = 8 then ''kqueue''
      else if b = 16 then ''/dev/poll'' else if b = 32 then ''event port'' else ''(unknown)'')"

definition VERSION_SIZE :: nat where "VERSION_SIZE = 32"

text \<open>The loop of \<open>get_openssl_version\<close>: the static object, the index and the number of spaces.\<close>

fun version_loop :: "string \<Rightarrow> bytes \<Rightarrow> nat \<Rightarrow> nat \<Rightarrow> (bytes \<times> nat) outcome" where
  "version_loop [] m i spaces = Ret (m, i)"
| "version_loop (c # p) m i spaces =
     (if i \<ge> VERSION_SIZE - 2 then Ret (m, i)
      else
        let spaces = (if c = SPACE then Suc spaces else spaces) in
        if spaces = 2 then Ret (m, i)
        else obind (store m i c) (\<lambda>m. version_loop p m (Suc i) spaces))"

definition get_openssl_version :: "string \<Rightarrow> bytes \<Rightarrow> bytes outcome" where
  "get_openssl_version version m =
     obind (version_loop version m 0 0) (\<lambda>(m, i). store m (i + 1) NUL)"

definition nsca_version :: "string \<Rightarrow> string \<Rightarrow> string \<Rightarrow> nat \<Rightarrow> nat \<Rightarrow> string \<Rightarrow> string" where
  "nsca_version progname version openssl ev_major ev_minor backend =
     take 127 (progname @ '' '' @ version @ '' ('' @ openssl @ '', libev '' @ show_nat ev_major @ ''.'' @
       show_nat ev_minor @ '' with '' @ backend @ '')'')"

section \<open>Lemmas\<close>

lemma fmt_loop_bound: "length out \<le> OUT_FMT_SIZE - 1 \<Longrightarrow> length (fmt_loop err pct s out) \<le> OUT_FMT_SIZE - 1"
  by (induction err pct s out rule: fmt_loop.induct) (auto simp: OUT_FMT_SIZE_def)

text \<open>What a format means: \<open>%m\<close> is the error text, every other conversion stays.\<close>

fun expand_m :: "string \<Rightarrow> string \<Rightarrow> string" where
  "expand_m err [] = []"
| "expand_m err [c] = (if c = PERCENT then [] else [c])"
| "expand_m err (c # d # s) =
     (if c = PERCENT then
        (if d = PERCENT then [PERCENT] else if d = CHR ''m'' then err else [PERCENT, d]) @ expand_m err s
      else c # expand_m err (d # s))"

lemma fmt_loop_expand:
  "length out + length (expand_m err s) < OUT_FMT_SIZE - 2 \<Longrightarrow> fmt_loop err False s out = out @ expand_m err s"
proof (induction err s arbitrary: out rule: expand_m.induct)
  case (3 err c d s)
  have l: "length out < OUT_FMT_SIZE - 2" using 3(3) by simp
  show ?case
  proof (cases "c = PERCENT")
    case True
    then show ?thesis using 3 l by (cases "d = PERCENT"; cases "d = CHR ''m''") auto
  next
    case False
    then have "fmt_loop err False (c # d # s) out = fmt_loop err False (d # s) (out @ [c])"
      by (subst fmt_loop.simps) (use l in auto)
    then show ?thesis using 3(2)[OF False, of "out @ [c]"] 3(3) False by simp
  qed
qed simp_all

lemma version_loop_ok:
  assumes "length m = VERSION_SIZE" "i \<le> VERSION_SIZE - 2"
  shows "\<exists>m' i'. version_loop p m i spaces = Ret (m', i') \<and> length m' = VERSION_SIZE \<and> i' \<le> VERSION_SIZE - 2"
  using assms
proof (induction p m i spaces rule: version_loop.induct)
  case (2 c p m i spaces)
  then show ?case by (auto simp: Let_def VERSION_SIZE_def)
qed simp

section \<open>Properties\<close>

text \<open>
  A log message never leaves its buffers: the format with its NUL fits
  \<open>out_fmt\<close>, whatever the format and the error text are, and the message fits the message
  buffer, ending in a mark when it was cut.
\<close>

theorem log_buffers_bounded:
  "length (log_format err in_fmt) < OUT_FMT_SIZE \<and> length (log_message vsnprintf err in_fmt) < LOG_BUFFER_SIZE"
  using fmt_loop_bound[of "[]" err False in_fmt]
  by (auto simp: log_format_def log_message_def Let_def OUT_FMT_SIZE_def LOG_BUFFER_SIZE_def)

text \<open>
  As long as the result is short enough, the format handed to \<open>vsnprintf\<close> is the
  given one with every \<open>%m\<close> replaced by the error text and all other conversions kept, but
  with \<open>%%\<close> reduced to a single percent sign, which \<open>vsnprintf\<close> then takes for a conversion.
\<close>

theorem log_format_expands:
  assumes "length (expand_m err in_fmt) < OUT_FMT_SIZE - 2"
  shows "log_format err in_fmt = expand_m err in_fmt"
  using fmt_loop_expand[of "[]" err in_fmt] assms by (simp add: log_format_def)

lemma log_format_expands_witness:
  "log_format ''Bad file'' ''%s: %m'' = ''%s: Bad file'' \<and> log_format [] ''100%% sure'' = ''100% sure''"
  using log_format_expands[of "''Bad file''" "''%s: %m''"] log_format_expands[of "[]" "''100%% sure''"]
  by (simp add: OUT_FMT_SIZE_def)

text \<open>
  Messages are filtered by level: raising the verbosity only adds messages, a
  message of a lower level than one that is logged is logged as well, and fatal messages are
  logged at any level.
\<close>

theorem log_levels_nested:
  assumes "lv' \<le> lv" "lg_level lg \<le> lg_level lg'" "lg_target lg' = lg_target lg"
    and "log_at vsnprintf err progname lg lv format \<noteq> []"
  shows "log_at vsnprintf err progname lg' lv' format = vlog vsnprintf err progname lg lv' format \<and>
    log_at vsnprintf err progname lg' lv' format \<noteq> []"
proof -
  have "lv' = Critical \<or> level_num lv' \<le> lg_level lg'"
    using assms(1,2,4) by (cases lv; cases lv') (auto simp: log_at_def less_eq_level_def split: if_splits)
  moreover have "vlog vsnprintf err progname lg' lv' format = vlog vsnprintf err progname lg lv' format"
    using assms(3) by (simp add: vlog_def)
  moreover have "vlog vsnprintf err progname lg lv' format \<noteq> []"
    using assms(4) by (auto simp: log_at_def vlog_def Let_def split: if_splits)
  ultimately show ?thesis by (auto simp: log_at_def)
qed

lemma log_levels_nested_witness:
  "log_at id [] ''nsca-ng'' (log_set 5 (- 1) log_initial) Error ''x'' = [Stderr (''nsca-ng: [ERROR] x'' @ [LF])]"
proof -
  have "log_at id [] ''nsca-ng'' log_initial Notice ''x'' \<noteq> []" by code_simp
  from log_levels_nested[OF _ _ _ this, of Error "log_set 5 (- 1) log_initial"]
  have "log_at id [] ''nsca-ng'' (log_set 5 (- 1) log_initial) Error ''x'' = vlog id [] ''nsca-ng'' log_initial Error ''x''"
    by (simp add: log_set_def log_initial_def less_eq_level_def Let_def)
  moreover have "vlog id [] ''nsca-ng'' log_initial Error ''x'' = [Stderr (''nsca-ng: [ERROR] x'' @ [LF])]" by code_simp
  ultimately show ?thesis by simp
qed

text \<open>
  \<open>get_openssl_version\<close> stays within its static object of 32 bytes for every
  version text, and leaves a terminated string there.
\<close>

theorem openssl_version_bounded:
  assumes "length m = VERSION_SIZE"
  shows "\<exists>m'. get_openssl_version version m = Ret m' \<and> length m' = VERSION_SIZE \<and> NUL \<in> set m'"
proof -
  obtain m' i where r: "version_loop version m 0 0 = Ret (m', i)" "length m' = VERSION_SIZE" "i \<le> VERSION_SIZE - 2"
    using version_loop_ok[OF assms, of 0 version 0] by auto
  then have "i + 1 < length m'" by (simp add: VERSION_SIZE_def)
  then show ?thesis using r by (simp add: get_openssl_version_def set_update_memI)
qed

lemma openssl_version_bounded_witness:
  "\<exists>m'. get_openssl_version ''OpenSSL 3.0.2 15 Mar 2022'' (replicate 32 NUL) = Ret m' \<and> length m' = 32"
  using openssl_version_bounded[of "replicate 32 NUL" "''OpenSSL 3.0.2 15 Mar 2022''"]
  by (auto simp: VERSION_SIZE_def)

end
