(* ===== verification/ClientOptions.thy ===== *)
theory ClientOptions
  imports Getopt ClientConf Log
begin

text \<open>
  The settings of the program \<open>send_nsca\<close>, \<open>src/client/send_nsca.c\<close>: its options, its
  configuration with what the options override, and the random delay. What is printed is
  left out. The environment gives the name of the default configuration file, the files, the
  host name and the random numbers.
\<close>

section \<open>Options\<close>

unbundle bit_operations_syntax

record client_options =
  co_conf_file :: "string option"
  co_port :: "string option"
  co_server :: "string option"
  co_delay :: int
  co_log_level :: int
  co_log_target :: int
  co_timeout :: int
  co_delimiter :: byte
  co_separator :: byte
  co_raw_commands :: bool

definition ETB :: byte where "ETB = CHR 0x17"

definition EOF :: int where "EOF = - 1"

definition CHAR_MAX :: int where "CHAR_MAX = 127"

definition escape_value :: "byte \<Rightarrow> int option" where
  "escape_value c =
     (if c = CHR ''a'' then Some 7
      else if c = CHR ''b'' then Some 8
      else if c = CHR ''f'' then Some 12
      else if c = CHR ''n'' then Some 10
      else if c = CHR ''r'' then Some 13
      else if c = CHR ''t'' then Some 9
      else if c = CHR ''v'' then Some 11
      else None)"

definition parse_number :: "string \<Rightarrow> int" where
  "parse_number sequence =
     (if hd sequence = CHR ''0'' \<or> hd sequence = BACKSLASH then
        let numeric = (if hd sequence = BACKSLASH then CHR ''0'' # tl sequence else sequence);
            (value, end) = strtol numeric 0
        in if end = [] \<and> value \<ge> 0 \<and> value \<le> CHAR_MAX then value else EOF
      else EOF)"

definition parse_backslash_escape :: "string \<Rightarrow> int" where
  "parse_backslash_escape sequence =
     (if length sequence = 1 then of_char (hd sequence)
      else if length sequence = 2 \<and> hd sequence = BACKSLASH \<and> escape_value (sequence ! 1) \<noteq> None
      then the (escape_value (sequence ! 1))
      else if 2 \<le> length sequence \<and> length sequence \<le> 5 then parse_number sequence
      else EOF)"

definition client_no_options :: client_options where
  "client_no_options =
     \<lparr>co_conf_file = None, co_port = None, co_server = None, co_delay = - 1, co_log_level = - 1,
      co_log_target = - 1, co_timeout = - 1, co_delimiter = TAB, co_separator = ETB,
      co_raw_commands = False\<rparr>"

text \<open>\<open>-S\<close> and \<open>-s\<close> add a target; the first of them replaces the default.\<close>

definition add_target :: "int \<Rightarrow> int \<Rightarrow> int" where
  "add_target t target = (if target \<noteq> - 1 then t OR target else t)"

definition client_option :: "client_options option_step" where
  "client_option c arg opt =
     (if c = CHR ''C'' then Ret (Inr (opt\<lparr>co_raw_commands := True\<rparr>))
      else if c = CHR ''c'' then Ret (Inr (opt\<lparr>co_conf_file := arg\<rparr>))
      else if c = CHR ''D'' then
        let delay = atoi (the arg) in
        if delay < 0 then Die ''-D argument must be a positive integer''
        else Ret (Inr (opt\<lparr>co_delay := delay\<rparr>))
      else if c = CHR ''d'' then
        let character = parse_backslash_escape (the arg) in
        if character = EOF then Die ''-d argument must be a single character''
        else if character \<in> {23, 10, 0, 92} then Die ''Illegal delimiter specified with -d''
        else Ret (Inr (opt\<lparr>co_delimiter := char_of character\<rparr>))
      else if c = CHR ''e'' then
        let character = parse_backslash_escape (the arg) in
        if character = EOF then Die ''-e argument must be a single character''
        else Ret (Inr (opt\<lparr>co_separator := char_of character\<rparr>))
      else if c = CHR ''H'' then Ret (Inr (opt\<lparr>co_server := arg\<rparr>))
      else if c = CHR ''h'' then Ret (Inl EXIT_SUCCESS)
      else if c = CHR ''o'' then
        let timeout = atoi (the arg) in
        if timeout < 0 then Die ''-o argument must be a positive integer''
        else Ret (Inr (opt\<lparr>co_timeout := timeout\<rparr>))
      else if c = CHR ''p'' then Ret (Inr (opt\<lparr>co_port := arg\<rparr>))
      else if c = CHR ''S'' then Ret (Inr (opt\<lparr>co_log_target := add_target LOG_TARGET_STDERR (co_log_target opt)\<rparr>))
      else if c = CHR ''s'' then Ret (Inr (opt\<lparr>co_log_target := add_target LOG_TARGET_SYSLOG (co_log_target opt)\<rparr>))
      else if c = CHR ''t'' then Ret (Inr opt)
      else if c = CHR ''V'' then Ret (Inl EXIT_SUCCESS)
      else if c = CHR ''v'' then
        Ret (Inr (if co_log_level opt = - 1 then opt\<lparr>co_log_level := level_num Notice\<rparr>
                  else if co_log_level opt < level_num Debug then opt\<lparr>co_log_level := co_log_level opt + 1\<rparr>
                  else opt))
      else Ret (Inl EXIT_FAILURE))"

definition CLIENT_OPTSTRING :: string where "CLIENT_OPTSTRING = ''Cc:D:d:e:H:ho:p:SstVv''"

text \<open>The arguments are those behind the program's name.\<close>

definition client_get_options :: "string list \<Rightarrow> (int + client_options) outcome" where
  "client_get_options args =
     (if args = [''--help''] \<or> args = [''--version''] then Ret (Inl EXIT_SUCCESS)
      else
        obind (option_loop client_option CLIENT_OPTSTRING [] args client_no_options) (\<lambda>r.
          case r of
            Inl status \<Rightarrow> Ret (Inl status)
          | Inr (opt, operands) \<Rightarrow>
              if co_delimiter opt = co_separator opt
              then Die ''Field delimiter must be different from record separator''
              else if operands \<noteq> [] then Die ''Unexpected non-option argument''
              else Ret (Inr opt)))"

section \<open>Delay\<close>

definition random_number :: "nat \<Rightarrow> nat \<Rightarrow> nat outcome" where
  "random_number random_value limit =
     (if limit = 0 then Die ''division by zero'' else Ret (random_value mod limit))"

text \<open>Seconds and nanoseconds; the argument is an \<open>unsigned int\<close>.\<close>

definition delay_execution :: "(nat \<Rightarrow> nat) \<Rightarrow> nat \<Rightarrow> (nat \<times> nat) outcome" where
  "delay_execution random max_delay =
     obind (random_number (random 0) max_delay) (\<lambda>tv_sec.
     obind (random_number (random 1) 1000000000) (\<lambda>tv_nsec.
       Ret (tv_sec, tv_nsec)))"

section \<open>Configuration\<close>

record send_env =
  se_atexit :: bool
  se_loop :: bool
  se_default_conf :: string
  se_open :: "string \<Rightarrow> stream option"
  se_closes :: bool
  se_host_name :: "string option"
  se_random :: "nat \<Rightarrow> nat"

definition override_str :: "string \<Rightarrow> string option \<Rightarrow> conf \<Rightarrow> conf outcome" where
  "override_str key v cfg = (case v of None \<Rightarrow> Ret cfg | Some s \<Rightarrow> conf_setstr cfg key s)"

definition override_int :: "string \<Rightarrow> int \<Rightarrow> conf \<Rightarrow> conf outcome" where
  "override_int key v cfg = (if v \<noteq> - 1 then conf_setint cfg key v else Ret cfg)"

definition client_conf :: "send_env \<Rightarrow> client_options \<Rightarrow> conf outcome" where
  "client_conf env opt =
     obind (conf_init (se_open env (case co_conf_file opt of Some f \<Rightarrow> f | None \<Rightarrow> se_default_conf env))
       (se_closes env) (se_host_name env)) (\<lambda>cfg.
     obind (override_str ''port'' (co_port opt) cfg) (\<lambda>cfg.
     obind (override_str ''server'' (co_server opt) cfg) (\<lambda>cfg.
     obind (override_int ''delay'' (co_delay opt) cfg) (\<lambda>cfg.
     override_int ''timeout'' (co_timeout opt) cfg))))"

definition unsigned_int :: "int \<Rightarrow> nat" where
  "unsigned_int i = nat (i mod 2 ^ 32)"

definition client_delay :: "send_env \<Rightarrow> conf \<Rightarrow> (nat \<times> nat) outcome" where
  "client_delay env cfg =
     obind (conf_getint cfg ''delay'') (\<lambda>delay.
       if delay \<noteq> 0 then delay_execution (se_random env) (unsigned_int delay) else Ret (0, 0))"

text \<open>A string that is printed with \<open>%s\<close> must not be NULL.\<close>

definition get_text :: "conf \<Rightarrow> string \<Rightarrow> string outcome" where
  "get_text cfg key = obind (conf_getstr cfg key) (\<lambda>s. case s of None \<Rightarrow> Die ''NULL string'' | Some s \<Rightarrow> Ret s)"

text \<open>The exit handler: the password is overwritten before the strings are released.\<close>

definition conf_free :: "conf \<Rightarrow> conf" where
  "conf_free cfg = map (\<lambda>(key, v). case v of StrV s \<Rightarrow> (key, StrV None) | IntV i \<Rightarrow> (key, IntV i)) cfg"

definition client_forget_config :: "conf option \<Rightarrow> (string option \<times> conf option) outcome" where
  "client_forget_config cfg =
     (case cfg of
        None \<Rightarrow> Ret (None, None)
      | Some cfg \<Rightarrow>
          obind (conf_getstr cfg ''password'') (\<lambda>password.
            Ret (map_option (\<lambda>p. replicate (length p) NUL) password, Some (conf_free cfg))))"

section \<open>Lemmas\<close>

text \<open>What holds of the options after any number of turns.\<close>

definition CLIENT_TARGETS :: "int set" where
  "CLIENT_TARGETS = {- 1, LOG_TARGET_SYSLOG, LOG_TARGET_STDERR, LOG_TARGET_SYSLOG + LOG_TARGET_STDERR}"

definition options_sound :: "client_options \<Rightarrow> bool" where
  "options_sound opt \<longleftrightarrow>
     co_delimiter opt \<notin> {ETB, LF, NUL, BACKSLASH} \<and>
     - 1 \<le> co_delay opt \<and> co_delay opt < 2 ^ 31 \<and> - 1 \<le> co_timeout opt \<and> co_timeout opt < 2 ^ 31 \<and>
     co_log_level opt \<in> {- 1, level_num Notice, level_num Info, level_num Debug} \<and>
     co_log_target opt \<in> CLIENT_TARGETS"

lemma strtol_range: "strtol s b = (v, r) \<Longrightarrow> - (2 ^ 63) \<le> v \<and> v < 2 ^ 63"
  by (auto simp: strtol_def clamp_long_def Let_def split: prod.splits if_splits)

lemma escape_value_range: "escape_value c = Some v \<Longrightarrow> 7 \<le> v \<and> v \<le> 13"
  by (auto simp: escape_value_def split: if_splits)

lemma parse_number_range: "parse_number s = EOF \<or> 0 \<le> parse_number s \<and> parse_number s \<le> CHAR_MAX"
  by (auto simp: parse_number_def Let_def split: prod.splits)

lemma parse_backslash_escape_range:
  "parse_backslash_escape s = EOF \<or> 0 \<le> parse_backslash_escape s \<and> parse_backslash_escape s \<le> 255 \<and>
     (length s \<noteq> 1 \<longrightarrow> parse_backslash_escape s \<le> CHAR_MAX)"
proof -
  have c: "0 \<le> (of_char c :: int) \<and> (of_char c :: int) \<le> 255" for c :: byte
    using nat_of_char_less_256[of c] of_nat_of_char[where 'a = int, of c] by linarith
  consider "length s = 1" | "length s = 2" "hd s = BACKSLASH" "escape_value (s ! 1) \<noteq> None"
    | "parse_backslash_escape s = parse_number s" "length s \<noteq> 1" | "parse_backslash_escape s = EOF"
    by (metis parse_backslash_escape_def)
  then show ?thesis
  proof cases
    case 2
    then obtain v where "escape_value (s ! 1) = Some v" by auto
    with 2 escape_value_range[OF this] show ?thesis by (simp add: parse_backslash_escape_def CHAR_MAX_def)
  qed (use c[of "hd s"] parse_number_range[of s] in \<open>auto simp: parse_backslash_escape_def CHAR_MAX_def\<close>)
qed

lemma char_neq:
  fixes v :: int
  assumes "0 \<le> v" "v \<le> 255" "v \<noteq> of_char c"
  shows "char_of v \<noteq> c"
proof
  assume "char_of v = c"
  then have "of_char c = v mod 256" by (metis of_char_of)
  then show False using assms by simp
qed

lemma add_target_sound:
  assumes "target \<in> CLIENT_TARGETS"
  shows "add_target LOG_TARGET_STDERR target \<in> CLIENT_TARGETS" "add_target LOG_TARGET_SYSLOG target \<in> CLIENT_TARGETS"
  using assms by (auto simp: add_target_def CLIENT_TARGETS_def LOG_TARGET_SYSLOG_def LOG_TARGET_STDERR_def)

lemma delimiter_sound:
  assumes "parse_backslash_escape s \<noteq> EOF" "parse_backslash_escape s \<notin> {23, 10, 0, 92}"
  shows "char_of (parse_backslash_escape s) \<notin> {ETB, LF, NUL, BACKSLASH}"
proof -
  have r: "0 \<le> parse_backslash_escape s" "parse_backslash_escape s \<le> 255"
    using parse_backslash_escape_range[of s] assms(1) by auto
  show ?thesis
    using char_neq[OF r, of ETB] char_neq[OF r, of LF] char_neq[OF r, of NUL] char_neq[OF r, of BACKSLASH] assms(2)
    by (auto simp: ETB_def)
qed

lemma if_eq_iff: "(if b then x else y) = r \<longleftrightarrow> b \<and> x = r \<or> \<not> b \<and> y = r"
  by simp

lemma client_option_cases:
  assumes "client_option c arg opt = Ret (Inr opt')"
  shows "opt\<lparr>co_raw_commands := True\<rparr> = opt' \<or> opt\<lparr>co_conf_file := arg\<rparr> = opt' \<or>
    opt\<lparr>co_server := arg\<rparr> = opt' \<or> opt\<lparr>co_port := arg\<rparr> = opt' \<or> opt = opt' \<or>
    \<not> atoi (the arg) < 0 \<and> opt\<lparr>co_delay := atoi (the arg)\<rparr> = opt' \<or>
    \<not> atoi (the arg) < 0 \<and> opt\<lparr>co_timeout := atoi (the arg)\<rparr> = opt' \<or>
    parse_backslash_escape (the arg) \<noteq> EOF \<and> parse_backslash_escape (the arg) \<notin> {23, 10, 0, 92} \<and>
      opt\<lparr>co_delimiter := char_of (parse_backslash_escape (the arg))\<rparr> = opt' \<or>
    opt\<lparr>co_separator := char_of (parse_backslash_escape (the arg))\<rparr> = opt' \<or>
    opt\<lparr>co_log_target := add_target LOG_TARGET_STDERR (co_log_target opt)\<rparr> = opt' \<or>
    opt\<lparr>co_log_target := add_target LOG_TARGET_SYSLOG (co_log_target opt)\<rparr> = opt' \<or>
    co_log_level opt = - 1 \<and> opt\<lparr>co_log_level := level_num Notice\<rparr> = opt' \<or>
    co_log_level opt < level_num Debug \<and> co_log_level opt \<noteq> - 1 \<and>
      opt\<lparr>co_log_level := co_log_level opt + 1\<rparr> = opt'"
  using assms
  by (simp only: client_option_def Let_def if_eq_iff outcome.inject outcome.distinct sum.inject sum.distinct) meson

lemma atoi_less: "atoi s < 2147483648"
  using to_int_range(2)[of "fst (strtol s 10)"] by (simp add: atoi_def)

lemma client_option_sound:
  assumes "options_sound opt" "client_option c arg opt = Ret (Inr opt')"
  shows "options_sound opt'"
  using client_option_cases[OF assms(2)] assms(1)
proof (elim disjE conjE, goal_cases)
  case 8
  from delimiter_sound[OF 8(2,3)] 8(1) show ?case unfolding 8(4) [symmetric] by (simp add: options_sound_def)
next
  case 10
  from 10(1) show ?case unfolding 10(2) [symmetric] by (simp add: options_sound_def add_target_sound)
next
  case 11
  from 11(1) show ?case unfolding 11(2) [symmetric] by (simp add: options_sound_def add_target_sound)
next
  case 13
  then show ?case by (auto simp: options_sound_def)
qed (hypsubst, simp add: options_sound_def atoi_less)+


lemma parse_backslash_escape_number:
  assumes "hd s = CHR ''0'' \<or> hd s = BACKSLASH" "2 \<le> length s" "length s \<le> 5"
    "length s = 2 \<longrightarrow> escape_value (s ! 1) = None"
    "strtol (CHR ''0'' # tl s) 0 = (v, [])" "0 \<le> v" "v \<le> CHAR_MAX"
  shows "parse_backslash_escape s = v"
proof -
  have "(if hd s = BACKSLASH then CHR ''0'' # tl s else s) = CHR ''0'' # tl s"
    using assms(1,2) by (cases s) auto
  then show ?thesis using assms by (auto simp: parse_backslash_escape_def parse_number_def)
qed

lemma base_digit_no_escape: "d < 8 \<Longrightarrow> escape_value (base_digit d) = None"
proof -
  assume "d < 8"
  then have "of_char (base_digit d) \<le> (57 :: nat)" by (simp add: base_digit_def)
  then show ?thesis by (auto simp: escape_value_def)
qed

lemma client_get_options_Inr:
  assumes "client_get_options args = Ret (Inr opt)"
  shows "\<exists>operands. option_loop client_option CLIENT_OPTSTRING [] args client_no_options = Ret (Inr (opt, operands)) \<and>
    co_delimiter opt \<noteq> co_separator opt"
proof -
  obtain r where r: "option_loop client_option CLIENT_OPTSTRING [] args client_no_options = Ret r"
    "(case r of Inl status \<Rightarrow> Ret (Inl status)
      | Inr (opt, operands) \<Rightarrow>
          if co_delimiter opt = co_separator opt then Die ''Field delimiter must be different from record separator''
          else if operands \<noteq> [] then Die ''Unexpected non-option argument'' else Ret (Inr opt)) = Ret (Inr opt)"
    using assms by (auto simp: client_get_options_def obind_eq_Ret split: if_splits)
  then show ?thesis by (cases r) (auto split: if_splits)
qed

lemma override_str_get:
  assumes "conf_getstr cfg key = Ret t"
  shows "override_str key v cfg = Ret (case v of None \<Rightarrow> cfg | Some s \<Rightarrow> put_conf cfg key (StrV (Some s)))"
  using assms by (auto simp: override_str_def conf_access_iff split: option.split)

lemma override_int_get:
  assumes "conf_getint cfg key = Ret i"
  shows "override_int key v cfg = Ret (if v = - 1 then cfg else put_conf cfg key (IntV v))"
  using assms by (simp add: override_int_def conf_access_iff)

section \<open>Properties\<close>

text \<open>
  Property C23. Whatever the command line is, options that are accepted are sound: the field
  delimiter is none of the four characters the manual excludes and differs from the record
  separator, delay and timeout are unset or non-negative, and log level and log targets are
  unset or in their range.
\<close>

theorem client_options_sound:
  assumes "client_get_options args = Ret (Inr opt)"
  shows "options_sound opt \<and> co_delimiter opt \<noteq> co_separator opt"
proof -
  obtain operands where l: "option_loop client_option CLIENT_OPTSTRING [] args client_no_options = Ret (Inr (opt, operands))"
    and n: "co_delimiter opt \<noteq> co_separator opt"
    using client_get_options_Inr[OF assms] by blast
  have "options_sound client_no_options"
    by (simp add: options_sound_def client_no_options_def ETB_def CLIENT_TARGETS_def)
  with l have "options_sound opt" by (rule option_loop_keeps) (rule client_option_sound)
  with n show ?thesis by blast
qed

lemma client_options_sound_witness:
  "\<exists>opt. client_get_options [''-vd'', '';'', ''-e'', BACKSLASH # ''n''] = Ret (Inr opt) \<and> options_sound opt"
proof -
  have "\<exists>opt. client_get_options [''-vd'', '';'', ''-e'', BACKSLASH # ''n''] = Ret (Inr opt)"
    by (rule exI, code_simp)
  then obtain opt where "client_get_options [''-vd'', '';'', ''-e'', BACKSLASH # ''n''] = Ret (Inr opt)" by blast
  with client_options_sound[OF this] show ?thesis by blast
qed



text \<open>
  Every ASCII character can be given by its number, in hexadecimal and in octal,
  with the prefix of a C constant or of an escape sequence, and every byte by itself.
\<close>

theorem character_escapes:
  "parse_backslash_escape [c] = of_char c \<and>
   (n < 128 \<longrightarrow> (\<forall>p \<in> set [''0x'' @ show_base 16 n, BACKSLASH # ''x'' @ show_base 16 n, ''0'' @ show_base 8 n,
      BACKSLASH # show_base 8 n]. parse_backslash_escape p = int n))"
proof -
  have "parse_backslash_escape p = int n" if n: "n < 128" and
    p: "p \<in> set [''0x'' @ show_base 16 n, BACKSLASH # ''x'' @ show_base 16 n, ''0'' @ show_base 8 n, BACKSLASH # show_base 8 n]" for p
  proof (rule parse_backslash_escape_number)
    have l: "length (show_base 16 n) \<le> 2" "length (show_base 8 n) \<le> 3"
      using n by (auto intro!: show_base_length)
    obtain d s where s: "show_base 8 n = base_digit d # s" "d < 8" using show_base_Cons[of 8 n] by auto
    obtain e t where t: "show_base 16 n = e # t" by (cases "show_base 16 n") auto
    show "hd p = CHR ''0'' \<or> hd p = BACKSLASH" "2 \<le> length p" "length p \<le> 5" using p l s t by auto
    show "length p = 2 \<longrightarrow> escape_value (p ! 1) = None" using p s t by (auto simp: base_digit_no_escape)
    show "strtol (CHR ''0'' # tl p) 0 = (int n, [])" using p n strtol_hex[of n] strtol_oct[of n] by auto
    show "0 \<le> int n" "int n \<le> CHAR_MAX" using n by (simp_all add: CHAR_MAX_def)
  qed
  then show ?thesis by (simp add: parse_backslash_escape_def)
qed

lemma character_escapes_witness: "parse_backslash_escape ''0x9'' = 9 \<and> parse_backslash_escape (BACKSLASH # ''11'') = 9"
proof -
  have "show_base 16 9 = ''9''" "show_base 8 9 = ''11''" by code_simp+
  then show ?thesis using character_escapes[of NUL 9] by simp
qed


text \<open>
  Property C25. The options of the command line override the configuration, for any options and
  any configuration: port, server, delay and timeout are those of the command line where it
  gives them and those of the file where it does not, every other setting is the file's, and
  nothing in between fails.
\<close>

theorem options_override_configuration:
  assumes "conf_init (se_open env (case co_conf_file opt of Some f \<Rightarrow> f | None \<Rightarrow> se_default_conf env))
    (se_closes env) (se_host_name env) = Ret cfg0"
  shows "\<exists>cfg. client_conf env opt = Ret cfg \<and>
    conf_getstr cfg ''port'' = (case co_port opt of Some p \<Rightarrow> Ret (Some p) | None \<Rightarrow> conf_getstr cfg0 ''port'') \<and>
    conf_getstr cfg ''server'' = (case co_server opt of Some s \<Rightarrow> Ret (Some s) | None \<Rightarrow> conf_getstr cfg0 ''server'') \<and>
    conf_getint cfg ''delay'' = (if co_delay opt = - 1 then conf_getint cfg0 ''delay'' else Ret (co_delay opt)) \<and>
    conf_getint cfg ''timeout'' = (if co_timeout opt = - 1 then conf_getint cfg0 ''timeout'' else Ret (co_timeout opt)) \<and>
    (\<forall>key. key \<notin> {''port'', ''server'', ''delay'', ''timeout''} \<longrightarrow> lookup_conf cfg key = lookup_conf cfg0 key)"
proof -
  obtain p s d t where "lookup_conf cfg0 ''port'' = Ret (StrV p)" "lookup_conf cfg0 ''server'' = Ret (StrV s)"
    "lookup_conf cfg0 ''delay'' = Ret (IntV d)" "lookup_conf cfg0 ''timeout'' = Ret (IntV t)"
    using conf_init_values[OF assms] by (auto simp: conf_access_iff)
  then show ?thesis
    by (simp add: client_conf_def assms override_str_def override_int_def conf_setstr_def conf_setint_def
        conf_getstr_def conf_getint_def split: option.split)
qed

lemma options_override_configuration_witness:
  "\<exists>cfg. client_conf \<lparr>se_atexit = True, se_loop = True, se_default_conf = ''send.cfg'', se_open = (\<lambda>_. Some \<lparr>st_bytes = [], st_error = False\<rparr>), se_closes = True,
      se_host_name = Some ''web'', se_random = (\<lambda>_. 0)\<rparr> (client_no_options\<lparr>co_delay := 7\<rparr>) = Ret cfg \<and>
     conf_getint cfg ''delay'' = Ret 7 \<and> lookup_conf cfg ''identity'' = Ret (StrV (Some ''web''))"
proof -
  let ?env = "\<lparr>se_atexit = True, se_loop = True, se_default_conf = ''send.cfg'', se_open = (\<lambda>_. Some \<lparr>st_bytes = [], st_error = False\<rparr>), se_closes = True,
    se_host_name = Some ''web'', se_random = (\<lambda>_. 0)\<rparr> :: send_env"
  let ?opt = "client_no_options\<lparr>co_delay := 7\<rparr>"
  let ?cfg0 = "put_conf default_conf ''identity'' (StrV (Some ''web''))"
  have "conf_init (se_open ?env (case co_conf_file ?opt of Some f \<Rightarrow> f | None \<Rightarrow> se_default_conf ?env))
    (se_closes ?env) (se_host_name ?env) = Ret ?cfg0"
    by (simp add: conf_init_empty)
  from options_override_configuration[OF this] obtain cfg where cfg: "client_conf ?env ?opt = Ret cfg"
    "conf_getint cfg ''delay'' = Ret 7" "\<forall>key. key \<notin> {''port'', ''server'', ''delay'', ''timeout''} \<longrightarrow> lookup_conf cfg key = lookup_conf ?cfg0 key"
    by (elim exE conjE) (rule that, assumption, simp_all)
  moreover have "lookup_conf ?cfg0 ''identity'' = Ret (StrV (Some ''web''))" by (simp add: default_conf_def)
  ultimately show ?thesis by auto
qed

text \<open>
  A delay of \<open>d\<close> seconds makes the program sleep for less than \<open>d\<close> seconds, as long
  as \<open>d\<close> fits an \<open>unsigned int\<close>; a delay of the configuration file that does not is taken
  modulo 2 to the 32: a negative one turns into one of up to 136 years.
\<close>

theorem delay_bounded:
  assumes "conf_getint cfg ''delay'' = Ret d" "d mod 2 ^ 32 \<noteq> 0"
  shows "\<exists>sec nsec. client_delay env cfg = Ret (sec, nsec) \<and> int sec < d mod 2 ^ 32 \<and> nsec < 10 ^ 9"
proof -
  have "0 \<le> d mod 2 ^ 32" by simp
  then have "0 < d mod 2 ^ 32" using assms(2) by linarith
  then have "0 < unsigned_int d" "int (unsigned_int d) = d mod 2 ^ 32" by (simp_all add: unsigned_int_def)
  moreover have "d \<noteq> 0" using assms(2) by auto
  moreover have "int (se_random env 0 mod unsigned_int d) < int (unsigned_int d)" using calculation(1) by simp
  ultimately show ?thesis using assms(1) by (simp add: client_delay_def delay_execution_def random_number_def)
qed

lemma delay_bounded_witness:
  "\<exists>sec nsec. client_delay env (put_conf default_conf ''delay'' (IntV (- 1))) = Ret (sec, nsec) \<and>
     int sec < 4294967295 \<and> nsec < 10 ^ 9"
  using delay_bounded[of "put_conf default_conf ''delay'' (IntV (- 1))" "- 1" env]
  by (simp add: default_conf_def conf_getint_def)

text \<open>
  A delay in the configuration file that is a multiple of 2 to the 32 makes the
  program divide by zero.
\<close>

theorem delay_division_by_zero:
  assumes "conf_getint cfg ''delay'' = Ret d" "d \<noteq> 0" "2 ^ 32 dvd d"
  shows "client_delay env cfg = Die ''division by zero''"
  using assms by (simp add: client_delay_def delay_execution_def random_number_def unsigned_int_def)

lemma delay_division_by_zero_witness:
  "\<exists>cfg. parse_conf_line (''delay'' @ ''='' @ QUOTE # ''4294967296'' @ QUOTE # []) default_conf = Ret cfg \<and>
     client_delay env cfg = Die ''division by zero''"
proof -
  have q: "parse_value (QUOTE # ''4294967296'' @ QUOTE # []) = Ret (''4294967296'', [])"
    using parse_quoted[of "''4294967296''" "[]"] by (simp add: QUOTE_def VALUE_SIZE_def)
  have n: "strtol ''4294967296'' 0 = (4294967296, [])"
    by (simp add: strtol_def is_space_def is_digit_in_def digit_val_def clamp_long_def)
  have k: "key_text ''delay''" "''delay'' \<in> set (map fst default_conf)"
    by (simp_all add: key_text_def key_char_def default_conf_def)
  have "parse_conf_line (''delay'' @ ''='' @ QUOTE # ''4294967296'' @ QUOTE # []) default_conf =
      Ret (put_conf default_conf ''delay'' (IntV 4294967296))"
    unfolding parse_conf_assignment[OF k] skip_whitespace_quoted q
    by (simp add: save_value_def n default_conf_def conf_setint_def)
  moreover have "conf_getint (put_conf default_conf ''delay'' (IntV 4294967296)) ''delay'' = Ret 4294967296"
    by (simp add: default_conf_def conf_getint_def)
  ultimately show ?thesis using delay_division_by_zero[of _ 4294967296 env] by simp
qed

end
