(* ===== verification/Buffer.thy ===== *)
theory Buffer
  imports Prelude
begin

text \<open>
  The byte FIFO of \<open>src/common/buffer.c\<close>: a linked list of blocks of
  \<open>BUFFER_BLOCK_SIZE\<close> bytes, of which the first is consumed from \<open>start_offset\<close>
  and the last is filled up to \<open>end_offset\<close>. The list of blocks stands for the chain
  from \<open>first\<close> to \<open>last\<close>; both pointers are NULL when it is empty. A block that was
  allocated and not yet written holds \<open>undefined\<close> bytes.

  The operations follow the loops of the code. An \<open>assert\<close> that fails and an access
  outside a block are \<open>Die\<close>; under the invariant \<open>buf_inv\<close> neither happens. The
  abstraction \<open>buffer_bytes\<close> is the byte sequence a buffer holds: appending extends it,
  reading takes a prefix off, and the line and chunk readers return what comes before the
  first terminator. The contract is the locale \<open>byte_queue\<close>, interpreted below.
\<close>

section \<open>State\<close>

definition BUFFER_BLOCK_SIZE :: nat where
  "BUFFER_BLOCK_SIZE = 128"

record buffer =
  blocks :: "bytes list"
  start_offset :: nat
  end_offset :: nat
  bsize :: nat

definition buffer_new :: buffer where
  "buffer_new = \<lparr>blocks = [], start_offset = 0, end_offset = 0, bsize = 0\<rparr>"

section \<open>Block operations\<close>

definition block_add :: "buffer \<Rightarrow> buffer" where
  "block_add buf = buf\<lparr>blocks := blocks buf @ [replicate BUFFER_BLOCK_SIZE undefined]\<rparr>"

definition block_remove :: "buffer \<Rightarrow> buffer outcome" where
  "block_remove buf =
     (case blocks buf of
        [] \<Rightarrow> Die ''assert: blk != NULL''
      | _ # bs \<Rightarrow> Ret (buf\<lparr>blocks := bs\<rparr>))"

definition block_detach :: "buffer \<Rightarrow> nat \<Rightarrow> bytes option \<times> buffer" where
  "block_detach buf n =
     (case blocks buf of
        [blk] \<Rightarrow>
          (if start_offset buf = 0 \<and> bsize buf = n
           then (Some blk, buf\<lparr>blocks := [], start_offset := 0, end_offset := 0, bsize := 0\<rparr>)
           else (None, buf))
      | _ \<Rightarrow> (None, buf))"

section \<open>Writing\<close>

definition write_last :: "buffer \<Rightarrow> bytes \<Rightarrow> buffer" where
  "write_last buf src =
     buf\<lparr>blocks := butlast (blocks buf) @ [memcpy_at (end_offset buf) src (last (blocks buf))],
         end_offset := end_offset buf + length src\<rparr>"

definition append_room :: "buffer \<Rightarrow> buffer \<times> nat" where
  "append_room buf =
     (let available = (if blocks buf = [] then 0 else BUFFER_BLOCK_SIZE - end_offset buf)
      in if available = 0 then ((block_add buf)\<lparr>end_offset := 0\<rparr>, BUFFER_BLOCK_SIZE)
         else (buf, available))"

lemma append_room_pos [simp]: "0 < snd (append_room buf)"
  by (simp add: append_room_def Let_def BUFFER_BLOCK_SIZE_def)

function append_loop :: "buffer \<Rightarrow> bytes \<Rightarrow> buffer" where
  "append_loop buf inp =
     (if inp = [] then buf
      else let (buf', available) = append_room buf;
               n = min (length inp) available
           in append_loop (write_last buf' (take n inp)) (drop n inp))"
  by pat_completeness auto
termination
proof (relation "measure (\<lambda>(buf, inp). length inp)", goal_cases)
  case 1
  show ?case by simp
next
  case (2 buf inp r buf' available n)
  from 2(2,3) have "0 < available" by (metis append_room_pos snd_conv)
  with 2 show ?case by simp
qed

declare append_loop.simps [simp del]

definition buffer_append :: "buffer \<Rightarrow> bytes \<Rightarrow> buffer" where
  "buffer_append buf inp =
     (let buf' = append_loop buf inp in buf'\<lparr>bsize := bsize buf' + length inp\<rparr>)"

section \<open>Reading\<close>

text \<open>
  One iteration takes \<open>n = MIN(n_todo, BUFFER_BLOCK_SIZE - start_offset)\<close> bytes from the
  first block. A \<open>start_offset\<close> beyond the block would make the code read outside it.
\<close>

definition read_step :: "buffer \<Rightarrow> nat \<Rightarrow> (bytes \<times> buffer) outcome" where
  "read_step buf n_todo =
     (case blocks buf of
        [] \<Rightarrow> Die ''assert: buf->first != NULL''
      | blk # _ \<Rightarrow>
          if BUFFER_BLOCK_SIZE < start_offset buf then Die ''read outside a block''
          else let n = min n_todo (BUFFER_BLOCK_SIZE - start_offset buf);
                   out = take n (drop (start_offset buf) blk);
                   buf' = buf\<lparr>start_offset := start_offset buf + n\<rparr>
               in if start_offset buf' = BUFFER_BLOCK_SIZE
                  then obind (block_remove buf') (\<lambda>b. Ret (out, b\<lparr>start_offset := 0\<rparr>))
                  else Ret (out, buf'))"

function read_loop :: "buffer \<Rightarrow> nat \<Rightarrow> (bytes \<times> buffer) outcome" where
  "read_loop buf n_todo =
     (if n_todo = 0 then Ret ([], buf)
      else let n = min n_todo (BUFFER_BLOCK_SIZE - start_offset buf)
           in obind (read_step buf n_todo) (\<lambda>(out, buf').
                obind (read_loop buf' (n_todo - n)) (\<lambda>(out', buf''). Ret (out @ out', buf''))))"
  by pat_completeness auto
termination
proof (relation "measures [\<lambda>(buf, n_todo). n_todo, \<lambda>(buf, n_todo). length (blocks buf)]", goal_cases)
  case 1
  show ?case by simp
next
  case (2 buf n_todo n r out buf')
  then show ?case
    by (auto simp: read_step_def block_remove_def Let_def split: list.splits if_splits)
qed

declare read_loop.simps [simp del]

definition buffer_read :: "buffer \<Rightarrow> nat \<Rightarrow> (bytes \<times> buffer) outcome" where
  "buffer_read buf n =
     (let n_total = min n (bsize buf) in
      obind (read_loop buf n_total) (\<lambda>(out, b).
        let b' = b\<lparr>bsize := bsize b - n_total\<rparr> in
        if bsize b' = 0 \<and> blocks b' \<noteq> []
        then obind (block_remove b') (\<lambda>b''. Ret (out, b''\<lparr>start_offset := 0\<rparr>))
        else Ret (out, b')))"

text \<open>
  \<open>buffer_read_alloc\<close> gives the memory object (a detached block, or a fresh one of the
  requested size) and the number of bytes read into it.
\<close>

definition buffer_read_alloc :: "buffer \<Rightarrow> nat \<Rightarrow> (bytes \<times> nat \<times> buffer) outcome" where
  "buffer_read_alloc buf n =
     (case block_detach buf n of
        (Some data, buf') \<Rightarrow> Ret (data, n, buf')
      | (None, buf') \<Rightarrow>
          obind (buffer_read buf' n) (\<lambda>(out, buf'').
            Ret (out @ replicate (n - length out) undefined, length out, buf'')))"

function scan_block :: "bytes \<Rightarrow> nat \<Rightarrow> nat \<Rightarrow> byte \<Rightarrow> nat \<Rightarrow> nat + nat" where
  "scan_block data i end_off c pos =
     (if i < end_off
      then if data ! i = c then Inl pos else scan_block data (Suc i) end_off c (Suc pos)
      else Inr pos)"
  by pat_completeness auto
termination
  by (relation "measure (\<lambda>(data, i, end_off, c, pos). end_off - i)") auto

declare scan_block.simps [simp del]

fun find_loop :: "buffer \<Rightarrow> bytes list \<Rightarrow> bool \<Rightarrow> byte \<Rightarrow> nat \<Rightarrow> nat" where
  "find_loop buf [] is_first c pos = 0"
| "find_loop buf (b # bs) is_first c pos =
     (let i = (if is_first then start_offset buf else 0);
          end_off = (if bs = [] then end_offset buf else BUFFER_BLOCK_SIZE)
      in case scan_block b i end_off c pos of
           Inl p \<Rightarrow> p
         | Inr p \<Rightarrow> find_loop buf bs False c p)"

definition buffer_find_char :: "buffer \<Rightarrow> byte \<Rightarrow> nat" where
  "buffer_find_char buf c = find_loop buf (blocks buf) True c 1"

text \<open>The result of the line and chunk readers is the memory object, NULL being \<open>None\<close>.\<close>

definition buffer_read_line :: "buffer \<Rightarrow> (bytes option \<times> buffer) outcome" where
  "buffer_read_line buf =
     (let n = buffer_find_char buf LF in
      if n = 0 then Ret (None, buf)
      else obind (buffer_read_alloc buf n) (\<lambda>(line, size, buf').
        if size \<ge> 2 \<and> line ! (size - 2) = CR
        then Ret (Some (line[size - 2 := NUL]), buf')
        else Ret (Some (line[size - 1 := NUL]), buf')))"

definition buffer_read_chunk :: "buffer \<Rightarrow> byte \<Rightarrow> (bytes option \<times> buffer) outcome" where
  "buffer_read_chunk buf terminator =
     (let n = buffer_find_char buf terminator in
      if n = 0 then Ret (None, buf)
      else obind (buffer_read_alloc buf n) (\<lambda>(chunk, size, buf').
        Ret (Some (chunk[size - 1 := NUL]), buf')))"

definition buffer_slurp :: "buffer \<Rightarrow> (bytes \<times> nat \<times> buffer) outcome" where
  "buffer_slurp buf = buffer_read_alloc buf (bsize buf)"

definition buffer_size :: "buffer \<Rightarrow> nat" where
  "buffer_size buf = bsize buf"

text \<open>Freeing walks the chain and releases every block: the number of blocks released.\<close>

fun free_chain :: "bytes list \<Rightarrow> nat" where
  "free_chain [] = 0"
| "free_chain (b # bs) = Suc (free_chain bs)"

definition buffer_free :: "buffer \<Rightarrow> nat" where
  "buffer_free buf = free_chain (blocks buf)"

section \<open>Invariant and abstraction\<close>

definition stored_end :: "buffer \<Rightarrow> nat" where
  "stored_end buf = BUFFER_BLOCK_SIZE * (length (blocks buf) - 1) + end_offset buf"

definition buffer_bytes :: "buffer \<Rightarrow> bytes" where
  "buffer_bytes buf =
     (if blocks buf = [] then []
      else drop (start_offset buf) (take (stored_end buf) (concat (blocks buf))))"

definition chain_ok :: "buffer \<Rightarrow> bool" where
  "chain_ok buf \<longleftrightarrow>
     (\<forall>b \<in> set (blocks buf). length b = BUFFER_BLOCK_SIZE) \<and>
     start_offset buf < BUFFER_BLOCK_SIZE \<and>
     (if blocks buf = [] then start_offset buf = 0
      else 0 < end_offset buf \<and> end_offset buf \<le> BUFFER_BLOCK_SIZE \<and>
           start_offset buf \<le> stored_end buf)"

definition buf_inv :: "buffer \<Rightarrow> bool" where
  "buf_inv buf \<longleftrightarrow>
     chain_ok buf \<and> bsize buf = length (buffer_bytes buf) \<and>
     (blocks buf \<noteq> [] \<longrightarrow> buffer_bytes buf \<noteq> [])"

lemma BLOCK_pos [simp]: "0 < BUFFER_BLOCK_SIZE"
  by (simp add: BUFFER_BLOCK_SIZE_def)

lemma buffer_new_correct [simp]:
  "buf_inv buffer_new" "buffer_bytes buffer_new = []"
  by (simp_all add: buf_inv_def chain_ok_def buffer_bytes_def buffer_new_def)

lemma buffer_size_bytes: "buf_inv buf \<Longrightarrow> buffer_size buf = length (buffer_bytes buf)"
  by (simp add: buffer_size_def buf_inv_def)

lemma length_concat_blocks [simp]:
  "\<forall>b \<in> set bs. length b = BUFFER_BLOCK_SIZE \<Longrightarrow> length (concat bs) = BUFFER_BLOCK_SIZE * length bs"
  by (rule concat_length_uniform)

lemma bsize_update_irrelevant [simp]:
  "buffer_bytes (buf\<lparr>bsize := n\<rparr>) = buffer_bytes buf"
  "chain_ok (buf\<lparr>bsize := n\<rparr>) = chain_ok buf"
  by (simp_all add: buffer_bytes_def chain_ok_def stored_end_def)

lemma buffer_bytes_snoc:
  assumes "blocks buf = bs @ [l]" and "\<forall>b \<in> set bs. length b = BUFFER_BLOCK_SIZE"
  shows "buffer_bytes buf = drop (start_offset buf) (concat bs @ take (end_offset buf) l)"
  using assms by (simp add: buffer_bytes_def stored_end_def)

lemma buffer_bytes_cons:
  assumes "blocks buf = b # bs" and "length b = BUFFER_BLOCK_SIZE" and "bs \<noteq> []"
    and "start_offset buf \<le> BUFFER_BLOCK_SIZE"
  shows "buffer_bytes buf =
    drop (start_offset buf) b @
    take (BUFFER_BLOCK_SIZE * (length bs - 1) + end_offset buf) (concat bs)"
proof -
  have "stored_end buf = BUFFER_BLOCK_SIZE + (BUFFER_BLOCK_SIZE * (length bs - 1) + end_offset buf)"
    using assms by (cases bs) (simp_all add: stored_end_def)
  then show ?thesis using assms by (simp add: buffer_bytes_def)
qed

lemma length_buffer_bytes:
  assumes "chain_ok buf" and "blocks buf \<noteq> []"
  shows "length (buffer_bytes buf) = stored_end buf - start_offset buf"
proof -
  have "stored_end buf \<le> BUFFER_BLOCK_SIZE * length (blocks buf)"
    using assms by (cases "blocks buf") (auto simp: stored_end_def chain_ok_def)
  then show ?thesis
    using assms by (simp add: buffer_bytes_def chain_ok_def)
qed

section \<open>Appending\<close>

lemma append_step:
  assumes ok: "chain_ok buf" and room: "append_room buf = (buf', available)"
    and src: "src \<noteq> []" "length src \<le> available"
  shows "chain_ok (write_last buf' src)"
    and "buffer_bytes (write_last buf' src) = buffer_bytes buf @ src"
    and "bsize (write_last buf' src) = bsize buf"
    and "blocks (write_last buf' src) \<noteq> []"
proof -
  obtain bs l where bl: "blocks buf' = bs @ [l]" and lens: "\<forall>b \<in> set bs. length b = BUFFER_BLOCK_SIZE"
    and l: "length l = BUFFER_BLOCK_SIZE" and st: "start_offset buf' = start_offset buf"
    and fits: "end_offset buf' + length src \<le> BUFFER_BLOCK_SIZE"
    and old: "buffer_bytes buf = drop (start_offset buf) (concat bs @ take (end_offset buf') l)"
    and start: "start_offset buf \<le> length (concat bs @ take (end_offset buf') l)"
  proof (cases "blocks buf = [] \<or> BUFFER_BLOCK_SIZE - end_offset buf = 0")
    case True
    then have b': "buf' = (block_add buf)\<lparr>end_offset := 0\<rparr>" "available = BUFFER_BLOCK_SIZE"
      using room by (auto simp: append_room_def Let_def split: if_splits)
    have "buffer_bytes buf = drop (start_offset buf) (concat (blocks buf))
          \<and> start_offset buf \<le> length (concat (blocks buf))"
    proof (cases "blocks buf" rule: rev_cases)
      case Nil
      with ok show ?thesis by (simp add: buffer_bytes_def chain_ok_def)
    next
      case (snoc bs l)
      with True ok show ?thesis
        by (auto simp: buffer_bytes_snoc[OF snoc] chain_ok_def stored_end_def)
    qed
    with b' ok src show ?thesis
      by (intro that[of "blocks buf" "replicate BUFFER_BLOCK_SIZE undefined"])
         (auto simp: block_add_def chain_ok_def)
  next
    case False
    then have b': "buf' = buf" "available = BUFFER_BLOCK_SIZE - end_offset buf"
      using room by (auto simp: append_room_def Let_def split: if_splits)
    obtain bs l where bl: "blocks buf = bs @ [l]" using False by (cases "blocks buf" rule: rev_cases) auto
    with ok b' src False show ?thesis
      by (intro that[of bs l])
         (auto simp: buffer_bytes_snoc[OF bl] chain_ok_def stored_end_def)
  qed
  have wl: "blocks (write_last buf' src) = bs @ [memcpy_at (end_offset buf') src l]"
    using bl by (simp add: write_last_def)
  show "buffer_bytes (write_last buf' src) = buffer_bytes buf @ src"
    using l fits start unfolding buffer_bytes_snoc[OF wl lens]
    by (simp add: old write_last_def memcpy_at_def st)
  show "chain_ok (write_last buf' src)"
    using ok wl lens l fits start src
    by (auto simp: chain_ok_def write_last_def bl st stored_end_def)
  show "bsize (write_last buf' src) = bsize buf"
    using room by (auto simp: append_room_def write_last_def block_add_def Let_def split: if_splits)
  show "blocks (write_last buf' src) \<noteq> []" using wl by simp
qed

lemma append_loop_correct:
  assumes "chain_ok buf"
  shows "chain_ok (append_loop buf inp) \<and>
    buffer_bytes (append_loop buf inp) = buffer_bytes buf @ inp \<and>
    bsize (append_loop buf inp) = bsize buf \<and>
    (blocks (append_loop buf inp) = [] \<longleftrightarrow> blocks buf = [] \<and> inp = [])"
  using assms
proof (induction buf inp rule: append_loop.induct)
  case (1 buf inp)
  show ?case
  proof (cases "inp = []")
    case True
    with 1 show ?thesis by (simp add: append_loop.simps)
  next
    case False
    obtain buf' available where room: "append_room buf = (buf', available)" by fastforce
    let ?n = "min (length inp) available"
    have pos: "0 < available" using append_room_pos[of buf] room by simp
    have step: "take ?n inp \<noteq> []" "length (take ?n inp) \<le> available"
      using False pos by auto
    note s = append_step[OF "1.prems" room step]
    note IH = "1.IH"[OF False room[symmetric] refl refl s(1)]
    show ?thesis
      using IH s False room by (simp add: append_loop.simps[of buf inp] Let_def)
  qed
qed

lemma buffer_append_bytes [simp]:
  "buf_inv buf \<Longrightarrow> buffer_bytes (buffer_append buf inp) = buffer_bytes buf @ inp"
  using append_loop_correct[of buf inp] by (simp add: buffer_append_def Let_def buf_inv_def)

lemma buffer_append_inv [simp]: "buf_inv buf \<Longrightarrow> buf_inv (buffer_append buf inp)"
  using append_loop_correct[of buf inp] by (auto simp: buffer_append_def Let_def buf_inv_def)

section \<open>Reading back\<close>

lemma read_step_correct:
  assumes ok: "chain_ok buf" and n: "0 < n" "n \<le> length (buffer_bytes buf)"
  defines "m \<equiv> min n (BUFFER_BLOCK_SIZE - start_offset buf)"
  shows "\<exists>buf'. read_step buf n = Ret (take m (buffer_bytes buf), buf') \<and> chain_ok buf' \<and>
    buffer_bytes buf' = drop m (buffer_bytes buf) \<and> bsize buf' = bsize buf"
proof -
  from n obtain b bs where bl: "blocks buf = b # bs"
    by (cases "blocks buf") (auto simp: buffer_bytes_def)
  from ok bl have len: "length b = BUFFER_BLOCK_SIZE" "\<forall>x \<in> set bs. length x = BUFFER_BLOCK_SIZE"
    and st: "start_offset buf < BUFFER_BLOCK_SIZE"
    and e: "0 < end_offset buf" "end_offset buf \<le> BUFFER_BLOCK_SIZE"
    and se: "start_offset buf \<le> stored_end buf"
    by (auto simp: chain_ok_def)
  show ?thesis
  proof (cases "bs = []")
    case True
    have by1: "buffer_bytes buf = drop (start_offset buf) (take (end_offset buf) b)"
      using bl True by (simp add: buffer_bytes_def stored_end_def)
    show ?thesis
    proof (cases "start_offset buf + m = BUFFER_BLOCK_SIZE")
      case full: True
      then have "end_offset buf = BUFFER_BLOCK_SIZE" "m = n"
        using n by1 len st e by (auto simp: m_def)
      with full bl True st len show ?thesis
        by (auto simp: read_step_def Let_def m_def[symmetric] block_remove_def by1 chain_ok_def
            buffer_bytes_def[of "_ \<lparr>start_offset := 0\<rparr>"])
    next
      case False
      then have "start_offset buf + m < BUFFER_BLOCK_SIZE" using st by (simp add: m_def)
      moreover have "start_offset buf + m \<le> end_offset buf"
        using n by1 len st e by (auto simp: m_def)
      moreover have "take m (drop (start_offset buf) b) = take m (buffer_bytes buf)"
        using calculation by (simp add: by1 take_drop min_def)
      ultimately show ?thesis using bl True st len e False
        by (auto simp: read_step_def Let_def m_def[symmetric] by1 chain_ok_def stored_end_def
            buffer_bytes_def[of "_ \<lparr>start_offset := _\<rparr>"] drop_take add.commute)
    qed
  next
    case False
    have by2: "buffer_bytes buf = drop (start_offset buf) b @
        take (BUFFER_BLOCK_SIZE * (length bs - 1) + end_offset buf) (concat bs)"
      using bl len st False by (intro buffer_bytes_cons) auto
    have mle: "m \<le> length (drop (start_offset buf) b)" using len by (simp add: m_def)
    show ?thesis
    proof (cases "start_offset buf + m = BUFFER_BLOCK_SIZE")
      case full: True
      then show ?thesis using bl st len e False mle
        by (auto simp: read_step_def Let_def m_def[symmetric] block_remove_def by2 chain_ok_def
            stored_end_def buffer_bytes_def[of "_ \<lparr>start_offset := 0\<rparr>"])
    next
      case notfull: False
      let ?b = "buf\<lparr>start_offset := start_offset buf + m\<rparr>"
      have "start_offset buf + m < BUFFER_BLOCK_SIZE" using notfull st by (simp add: m_def)
      moreover from this have "buffer_bytes ?b = drop (start_offset buf + m) b @
          take (BUFFER_BLOCK_SIZE * (length bs - 1) + end_offset buf) (concat bs)"
        using bl len False by (subst buffer_bytes_cons[of _ b bs]) auto
      moreover have "BUFFER_BLOCK_SIZE \<le> stored_end buf"
        using bl False by (cases bs) (auto simp: stored_end_def)
      ultimately show ?thesis using bl st len e False mle notfull
        by (auto simp: read_step_def Let_def m_def[symmetric] by2 chain_ok_def stored_end_def
            add.commute)
    qed
  qed
qed

lemma read_loop_correct:
  assumes "chain_ok buf" and "n \<le> length (buffer_bytes buf)"
  shows "\<exists>buf'. read_loop buf n = Ret (take n (buffer_bytes buf), buf') \<and> chain_ok buf' \<and>
    buffer_bytes buf' = drop n (buffer_bytes buf) \<and> bsize buf' = bsize buf"
  using assms
proof (induction buf n rule: read_loop.induct)
  case (1 buf n)
  show ?case
  proof (cases "n = 0")
    case True
    with 1 show ?thesis by (simp add: read_loop.simps)
  next
    case False
    let ?m = "min n (BUFFER_BLOCK_SIZE - start_offset buf)"
    obtain buf1 where s: "read_step buf n = Ret (take ?m (buffer_bytes buf), buf1)"
      "chain_ok buf1" "buffer_bytes buf1 = drop ?m (buffer_bytes buf)" "bsize buf1 = bsize buf"
      using read_step_correct[of buf n] "1.prems" False by auto
    have le: "n - ?m \<le> length (buffer_bytes buf1)" using "1.prems"(2) s(3) by (simp add: diff_le_mono)
    obtain buf2 where r: "read_loop buf1 (n - ?m) = Ret (take (n - ?m) (buffer_bytes buf1), buf2)"
      "chain_ok buf2" "buffer_bytes buf2 = drop (n - ?m) (buffer_bytes buf1)" "bsize buf2 = bsize buf1"
      using "1.IH"[OF False refl s(1) refl s(2) le] by auto
    have "take ?m (buffer_bytes buf) @ take (n - ?m) (drop ?m (buffer_bytes buf)) = take n (buffer_bytes buf)"
      by (rule take_split) simp
    with r s False show ?thesis
      by (simp add: read_loop.simps[of buf n] Let_def)
  qed
qed

lemma chain_ok_empty:
  assumes "chain_ok buf" and "buffer_bytes buf = []" and "blocks buf \<noteq> []"
  shows "length (blocks buf) = 1"
proof -
  have "stored_end buf = start_offset buf"
    using length_buffer_bytes[OF assms(1,3)] assms by (simp add: chain_ok_def)
  with assms show ?thesis
    by (cases "blocks buf"; cases "tl (blocks buf)") (auto simp: stored_end_def chain_ok_def)
qed

lemma buffer_read_correct:
  assumes "buf_inv buf"
  shows "\<exists>buf'. buffer_read buf n = Ret (take n (buffer_bytes buf), buf') \<and> buf_inv buf' \<and>
    buffer_bytes buf' = drop n (buffer_bytes buf)"
proof -
  let ?n = "min n (bsize buf)"
  have ok: "chain_ok buf" and sz: "bsize buf = length (buffer_bytes buf)"
    using assms by (auto simp: buf_inv_def)
  obtain b where b: "read_loop buf ?n = Ret (take ?n (buffer_bytes buf), b)" "chain_ok b"
    "buffer_bytes b = drop ?n (buffer_bytes buf)" "bsize b = bsize buf"
    using read_loop_correct[OF ok, of ?n] sz by auto
  have take_n: "take ?n (buffer_bytes buf) = take n (buffer_bytes buf)" using sz by (simp add: min_def)
  have drop_n: "drop ?n (buffer_bytes buf) = drop n (buffer_bytes buf)" using sz by (simp add: min_def)
  show ?thesis
  proof (cases "bsize b - ?n = 0 \<and> blocks b \<noteq> []")
    case True
    then have empty: "buffer_bytes b = []" using b sz by auto
    then obtain x where "blocks b = [x]"
      using chain_ok_empty[OF b(2) empty] True by (cases "blocks b") auto
    then show ?thesis using True b empty take_n drop_n
      by (simp add: buffer_read_def Let_def block_remove_def buf_inv_def chain_ok_def buffer_bytes_def)
  next
    case False
    then show ?thesis using b take_n drop_n sz
      by (auto simp: buffer_read_def Let_def buf_inv_def)
  qed
qed

lemma block_detach_Some:
  assumes "block_detach buf n = (Some m, buf')" and "buf_inv buf"
  shows "n = length (buffer_bytes buf)" "take n m = buffer_bytes buf" "length m = BUFFER_BLOCK_SIZE"
    "n \<le> length m" "buf_inv buf'" "buffer_bytes buf' = []"
  using assms
  by (auto simp: block_detach_def buf_inv_def chain_ok_def buffer_bytes_def stored_end_def
      split: list.splits if_splits)

lemma buffer_read_alloc_correct:
  assumes "buf_inv buf" and "n \<le> length (buffer_bytes buf)"
  shows "\<exists>m buf'. buffer_read_alloc buf n = Ret (m, n, buf') \<and> n \<le> length m \<and>
    take n m = take n (buffer_bytes buf) \<and> buf_inv buf' \<and> buffer_bytes buf' = drop n (buffer_bytes buf)"
proof (cases "block_detach buf n")
  case (Pair d buf1)
  show ?thesis
  proof (cases d)
    case None
    then have "buf1 = buf" using Pair by (auto simp: block_detach_def split: list.splits if_splits)
    then show ?thesis using buffer_read_correct[OF assms(1), of n] assms(2) Pair None
      by (auto simp: buffer_read_alloc_def)
  next
    case (Some m)
    with Pair show ?thesis using block_detach_Some[of buf n m buf1] assms
      by (auto simp: buffer_read_alloc_def)
  qed
qed

lemma buffer_slurp_correct:
  assumes "buf_inv buf"
  shows "\<exists>m buf'. buffer_slurp buf = Ret (m, length (buffer_bytes buf), buf') \<and>
    length (buffer_bytes buf) \<le> length m \<and> take (length (buffer_bytes buf)) m = buffer_bytes buf \<and>
    buf_inv buf' \<and> buffer_bytes buf' = []"
  using buffer_read_alloc_correct[OF assms, of "bsize buf"] assms
  by (simp add: buffer_slurp_def buf_inv_def)

section \<open>Searching and the line and chunk readers\<close>

lemma scan_block_correct:
  assumes "e \<le> length data"
  shows "scan_block data i e c pos =
    (let seg = drop i (take e data) in
     if c \<in> set seg then Inl (pos + length (takeWhile (\<lambda>x. x \<noteq> c) seg)) else Inr (pos + length seg))"
  using assms
proof (induction data i e c pos rule: scan_block.induct)
  case (1 data i e c pos)
  show ?case
  proof (cases "i < e")
    case True
    then have "drop i (take e data) = data ! i # drop (Suc i) (take e data)"
      using "1.prems" by (simp flip: Cons_nth_drop_Suc)
    with True "1.IH" "1.prems" show ?thesis
      by (auto simp: scan_block.simps[of data i e c pos] Let_def)
  next
    case False
    then show ?thesis by (simp add: scan_block.simps[of data i e c pos])
  qed
qed

lemma find_loop_correct:
  assumes "\<forall>b \<in> set bs. length b = BUFFER_BLOCK_SIZE" and "bs \<noteq> []"
    and "0 < end_offset buf" and "end_offset buf \<le> BUFFER_BLOCK_SIZE"
    and "start_offset buf < BUFFER_BLOCK_SIZE"
  shows "find_loop buf bs first c pos =
    (let s = drop (if first then start_offset buf else 0)
               (take (BUFFER_BLOCK_SIZE * (length bs - 1) + end_offset buf) (concat bs)) in
     if c \<in> set s then pos + length (takeWhile (\<lambda>x. x \<noteq> c) s) else 0)"
  using assms(1,2)
proof (induction bs arbitrary: first pos)
  case (Cons b bs)
  let ?i = "if first then start_offset buf else 0"
  have i: "?i \<le> BUFFER_BLOCK_SIZE" using assms(5) by simp
  show ?case
  proof (cases "bs = []")
    case True
    then show ?thesis using Cons.prems assms(4)
      by (auto simp: scan_block_correct Let_def)
  next
    case False
    let ?rest = "take (BUFFER_BLOCK_SIZE * (length bs - 1) + end_offset buf) (concat bs)"
    have n: "BUFFER_BLOCK_SIZE * (length (b # bs) - 1) + end_offset buf =
        length b + (BUFFER_BLOCK_SIZE * (length bs - 1) + end_offset buf)"
      using False Cons.prems by (cases bs) auto
    have split: "drop ?i (take (BUFFER_BLOCK_SIZE * (length (b # bs) - 1) + end_offset buf) (concat (b # bs)))
      = drop ?i b @ ?rest"
      unfolding n using Cons.prems i by simp
    have IH: "find_loop buf bs False c p = (if c \<in> set ?rest
        then p + length (takeWhile (\<lambda>x. x \<noteq> c) ?rest) else 0)" for p
      using Cons.IH[of False p] Cons.prems False by (simp add: Let_def)
    show ?thesis
    proof (cases "c \<in> set (drop ?i b)")
      case True
      then show ?thesis unfolding split using Cons.prems False
        by (auto simp: scan_block_correct Let_def)
    next
      case notin: False
      then have "takeWhile (\<lambda>x. x \<noteq> c) (drop ?i b @ ?rest) = drop ?i b @ takeWhile (\<lambda>x. x \<noteq> c) ?rest"
        by (intro takeWhile_append2) auto
      then show ?thesis unfolding split using Cons.prems False notin IH
        by (auto simp: scan_block_correct Let_def)
    qed
  qed
qed simp

lemma buffer_find_char_correct:
  assumes "buf_inv buf"
  shows "buffer_find_char buf c =
    (if c \<in> set (buffer_bytes buf) then Suc (length (takeWhile (\<lambda>x. x \<noteq> c) (buffer_bytes buf))) else 0)"
proof (cases "blocks buf = []")
  case True
  then show ?thesis by (simp add: buffer_find_char_def buffer_bytes_def)
next
  case False
  then show ?thesis using assms find_loop_correct[of "blocks buf" buf True c 1]
    by (simp add: buffer_find_char_def buf_inv_def chain_ok_def buffer_bytes_def stored_end_def Let_def)
qed

lemma buffer_read_chunk_correct:
  assumes inv: "buf_inv buf"
  shows "if c \<in> set (buffer_bytes buf)
    then \<exists>m buf'. buffer_read_chunk buf c = Ret (Some m, buf') \<and> NUL \<in> set m \<and>
           cstr m = cstr (before c (buffer_bytes buf)) \<and>
           buf_inv buf' \<and> buffer_bytes buf' = after c (buffer_bytes buf)
    else buffer_read_chunk buf c = Ret (None, buf)"
proof (cases "c \<in> set (buffer_bytes buf)")
  case True
  let ?l = "before c (buffer_bytes buf)"
  obtain m buf' where m: "buffer_read_alloc buf (Suc (length ?l)) = Ret (m, Suc (length ?l), buf')"
    "Suc (length ?l) \<le> length m" "take (Suc (length ?l)) m = ?l @ [c]" "buf_inv buf'"
    "buffer_bytes buf' = after c (buffer_bytes buf)"
    using buffer_read_alloc_correct[OF inv before_le[OF True]] True
    by (auto simp: take_before drop_before)
  have "m = ?l @ c # drop (Suc (length ?l)) m"
    using append_take_drop_id[of "Suc (length ?l)" m] m(3) by simp
  then have upd: "m[length ?l := NUL] = ?l @ NUL # drop (Suc (length ?l)) m"
    by (metis list_update_length)
  have "cstr (m[length ?l := NUL]) = cstr ?l" "NUL \<in> set (m[length ?l := NUL])"
    unfolding upd by simp_all
  with m True show ?thesis
    by (simp add: buffer_read_chunk_def buffer_find_char_correct[OF inv] Let_def flip: before_def)
next
  case False
  then show ?thesis by (simp add: buffer_read_chunk_def buffer_find_char_correct[OF inv])
qed

lemma buffer_read_line_correct:
  assumes inv: "buf_inv buf"
  shows "if LF \<in> set (buffer_bytes buf)
    then \<exists>m buf'. buffer_read_line buf = Ret (Some m, buf') \<and> NUL \<in> set m \<and>
           cstr m = cstr (strip_CR (before LF (buffer_bytes buf))) \<and>
           buf_inv buf' \<and> buffer_bytes buf' = after LF (buffer_bytes buf)
    else buffer_read_line buf = Ret (None, buf)"
proof (cases "LF \<in> set (buffer_bytes buf)")
  case True
  let ?l = "before LF (buffer_bytes buf)"
  obtain m buf' where m: "buffer_read_alloc buf (Suc (length ?l)) = Ret (m, Suc (length ?l), buf')"
    "Suc (length ?l) \<le> length m" "take (Suc (length ?l)) m = ?l @ [LF]" "buf_inv buf'"
    "buffer_bytes buf' = after LF (buffer_bytes buf)"
    using buffer_read_alloc_correct[OF inv before_le[OF True]] True
    by (auto simp: take_before drop_before)
  have mm: "m = ?l @ LF # drop (Suc (length ?l)) m"
    using append_take_drop_id[of "Suc (length ?l)" m] m(3) by simp
  show ?thesis
  proof (cases "?l \<noteq> [] \<and> last ?l = CR")
    case cr: True
    then obtain k where k: "?l = k @ [CR]" by (metis append_butlast_last_id)
    have mk: "m = k @ CR # LF # drop (Suc (length ?l)) m" using mm k by simp
    then have "m ! length k = CR" by (metis nth_append_length)
    moreover have "m[length k := NUL] = k @ NUL # LF # drop (Suc (length ?l)) m"
      by (metis mk list_update_length)
    then have "cstr (m[length k := NUL]) = cstr k" "NUL \<in> set (m[length k := NUL])" by simp_all
    ultimately show ?thesis using m True k
      by (simp add: buffer_read_line_def buffer_find_char_correct[OF inv] Let_def strip_CR_def
          flip: before_def)
  next
    case nocr: False
    have "m[length ?l := NUL] = ?l @ NUL # drop (Suc (length ?l)) m"
      by (metis mm list_update_length)
    then have "cstr (m[length ?l := NUL]) = cstr ?l" "NUL \<in> set (m[length ?l := NUL])" by simp_all
    moreover have "\<not> (2 \<le> Suc (length ?l) \<and> m ! (length ?l - 1) = CR)"
    proof
      assume a: "2 \<le> Suc (length ?l) \<and> m ! (length ?l - 1) = CR"
      then have "m ! (length ?l - 1) = ?l ! (length ?l - 1)"
        using a by (subst mm) (auto simp: nth_append)
      with a nocr show False by (cases ?l rule: rev_cases) auto
    qed
    ultimately show ?thesis using m True nocr
      by (auto simp: buffer_read_line_def buffer_find_char_correct[OF inv] Let_def strip_CR_def
          simp flip: before_def)
  qed
next
  case False
  then show ?thesis by (simp add: buffer_read_line_def buffer_find_char_correct[OF inv])
qed

section \<open>The contract of a byte queue\<close>

text \<open>
  What the TLS layer, the command file writer and the standard input reader rely on. The
  client lemmas say that how a stream is cut into pieces is invisible: neither the pieces
  in which it is appended nor those in which it is read change the bytes.
\<close>

locale byte_queue =
  fixes empty :: 'q
    and append :: "'q \<Rightarrow> bytes \<Rightarrow> 'q"
    and read :: "'q \<Rightarrow> nat \<Rightarrow> (bytes \<times> 'q) outcome"
    and chunk :: "'q \<Rightarrow> byte \<Rightarrow> (bytes option \<times> 'q) outcome"
    and contents :: "'q \<Rightarrow> bytes"
    and invar :: "'q \<Rightarrow> bool"
  assumes invar_empty: "invar empty"
    and contents_empty: "contents empty = []"
    and invar_append: "invar q \<Longrightarrow> invar (append q xs)"
    and contents_append: "invar q \<Longrightarrow> contents (append q xs) = contents q @ xs"
    and read_prefix: "invar q \<Longrightarrow> \<exists>q'. read q n = Ret (take n (contents q), q') \<and> invar q' \<and>
      contents q' = drop n (contents q)"
    and chunk_none: "invar q \<Longrightarrow> c \<notin> set (contents q) \<Longrightarrow> chunk q c = Ret (None, q)"
    and chunk_some: "invar q \<Longrightarrow> c \<in> set (contents q) \<Longrightarrow>
      \<exists>m q'. chunk q c = Ret (Some m, q') \<and> cstr m = cstr (before c (contents q)) \<and> invar q' \<and>
        contents q' = after c (contents q)"
begin

definition append_all :: "'q \<Rightarrow> bytes list \<Rightarrow> 'q" where
  "append_all q xss = fold (\<lambda>xs q. append q xs) xss q"

lemma append_all_correct:
  "invar q \<Longrightarrow> invar (append_all q xss) \<and> contents (append_all q xss) = contents q @ concat xss"
  by (induction xss arbitrary: q) (simp_all add: append_all_def invar_append contents_append)

lemma pieces_invisible:
  assumes "invar q" and "concat xss = concat yss"
  shows "contents (append_all q xss) = contents (append_all q yss)"
  using append_all_correct[OF assms(1)] assms(2) by simp

lemma read_after_append:
  assumes "invar q" and "length (contents q) \<le> n"
  shows "\<exists>q'. read (append q xs) n = Ret (contents q @ take (n - length (contents q)) xs, q') \<and>
    invar q' \<and> contents q' = drop (n - length (contents q)) xs"
  using read_prefix[OF invar_append[OF assms(1)], of xs n] assms by (simp add: contents_append)

lemma chunk_after_append:
  assumes "invar q" and "c \<notin> set (contents q)" and "c \<notin> set xs" and "NUL \<notin> set (contents q @ xs)"
  shows "\<exists>m q'. chunk (append q (xs @ c # ys)) c = Ret (Some m, q') \<and> cstr m = contents q @ xs \<and>
    invar q' \<and> contents q' = ys"
proof -
  have in_c: "c \<in> set (contents (append q (xs @ c # ys)))" by (simp add: contents_append assms(1))
  have bef: "before c (contents (append q (xs @ c # ys))) = contents q @ xs"
    and aft: "after c (contents (append q (xs @ c # ys))) = ys"
    using assms before_split[of c "contents q @ xs" ys] by (simp_all add: contents_append)
  have "cstr (contents q @ xs) = contents q @ xs" using assms(4) by (rule cstr_id)
  with chunk_some[OF invar_append[OF assms(1)] in_c] show ?thesis by (simp add: bef aft)
qed

end

interpretation buf: byte_queue buffer_new buffer_append buffer_read buffer_read_chunk buffer_bytes buf_inv
proof (unfold_locales, goal_cases)
  case (5 q n)
  then show ?case by (rule buffer_read_correct)
next
  case (6 q c)
  then show ?case using buffer_read_chunk_correct[of q c] by simp
next
  case (7 q c)
  then show ?case using buffer_read_chunk_correct[of q c] by auto
qed simp_all

section \<open>Sizes, whatever the state\<close>

text \<open>Facts the loops that use a buffer need for their termination, without its invariant.\<close>

lemma read_step_bsize: "read_step buf n = Ret (out, b) \<Longrightarrow> bsize b = bsize buf"
  by (auto simp: read_step_def block_remove_def Let_def split: list.splits if_splits)

lemma read_loop_bsize: "read_loop buf n = Ret (out, b) \<Longrightarrow> bsize b = bsize buf"
proof (induction buf n arbitrary: out b rule: read_loop.induct)
  case (1 buf n)
  show ?case
  proof (cases "n = 0")
    case False
    with 1(2) obtain out1 b1 out2 where "read_step buf n = Ret (out1, b1)"
      "read_loop b1 (n - min n (BUFFER_BLOCK_SIZE - start_offset buf)) = Ret (out2, b)"
      by (subst (asm) read_loop.simps) (auto simp: obind_eq_Ret)
    with 1(1)[OF False refl this(1) refl] read_step_bsize show ?thesis by metis
  qed (use 1(2) in \<open>simp add: read_loop.simps\<close>)
qed

lemma block_remove_length: "block_remove b = Ret b' \<Longrightarrow> length (blocks b') + 1 = length (blocks b)"
  by (auto simp: block_remove_def Let_def split: list.splits if_splits)

lemma read_step_blocks: "read_step buf n = Ret (out, b) \<Longrightarrow> length (blocks b) \<le> length (blocks buf)"
  by (auto simp: read_step_def Let_def obind_eq_Ret dest!: block_remove_length split: list.splits if_splits)

lemma read_loop_blocks: "read_loop buf n = Ret (out, b) \<Longrightarrow> length (blocks b) \<le> length (blocks buf)"
proof (induction buf n arbitrary: out b rule: read_loop.induct)
  case (1 buf n)
  show ?case
  proof (cases "n = 0")
    case False
    with 1(2) obtain out1 b1 out2 where r: "read_step buf n = Ret (out1, b1)"
      "read_loop b1 (n - min n (BUFFER_BLOCK_SIZE - start_offset buf)) = Ret (out2, b)"
      by (subst (asm) read_loop.simps) (auto simp: obind_eq_Ret)
    with 1(1)[OF False refl r(1) refl r(2)] read_step_blocks[OF r(1)] show ?thesis by simp
  qed (use 1(2) in \<open>simp add: read_loop.simps\<close>)
qed

lemma block_remove_sizes:
  "block_remove b = Ret b' \<Longrightarrow> bsize b' = bsize b \<and> length (blocks b') + 1 = length (blocks b)"
  by (auto simp: block_remove_def Let_def split: list.splits if_splits)

text \<open>A chunk that is read makes the buffer smaller, in bytes or in blocks.\<close>

lemma buffer_read_shrinks:
  assumes "buffer_read buf n = Ret (out, b)" "0 < n" "blocks buf \<noteq> []"
  shows "bsize b + length (blocks b) < bsize buf + length (blocks buf)"
proof -
  let ?n = "min n (bsize buf)"
  obtain b1 where r: "read_loop buf ?n = Ret (out, b1)"
    and b: "(let b' = b1\<lparr>bsize := bsize b1 - ?n\<rparr> in
      if bsize b' = 0 \<and> blocks b' \<noteq> [] then obind (block_remove b') (\<lambda>b''. Ret (out, b''\<lparr>start_offset := 0\<rparr>))
      else Ret (out, b')) = Ret (out, b)"
    using assms(1) by (auto simp: buffer_read_def Let_def obind_eq_Ret split: if_splits)
  have s: "bsize b1 = bsize buf" "length (blocks b1) \<le> length (blocks buf)"
    using read_loop_bsize[OF r] read_loop_blocks[OF r] by simp_all
  show ?thesis
  proof (cases "bsize buf = 0")
    case True
    then have "b1 = buf" using r by (simp add: read_loop.simps)
    then show ?thesis using b True assms(3)
      by (auto simp: Let_def obind_eq_Ret dest!: block_remove_sizes)
  next
    case False
    then show ?thesis using b s assms(2)
      by (auto simp: Let_def obind_eq_Ret dest!: block_remove_sizes split: if_splits)
  qed
qed

lemma buffer_read_chunk_shrinks:
  assumes "buffer_read_chunk buf c = Ret (Some m, b)"
  shows "bsize b + length (blocks b) < bsize buf + length (blocks buf)"
proof -
  let ?n = "buffer_find_char buf c"
  obtain m1 k where n: "0 < ?n" and a: "buffer_read_alloc buf ?n = Ret (m1, k, b)"
    using assms by (auto simp: buffer_read_chunk_def Let_def obind_eq_Ret split: if_splits)
  have ne: "blocks buf \<noteq> []" using n by (auto simp: buffer_find_char_def)
  show ?thesis
  proof (cases "block_detach buf ?n")
    case (Pair d b1)
    then show ?thesis
    proof (cases d)
      case None
      then have "b1 = buf" using Pair by (auto simp: block_detach_def split: list.splits if_splits)
      then show ?thesis using a Pair None buffer_read_shrinks[OF _ n ne]
        by (auto simp: buffer_read_alloc_def obind_eq_Ret)
    next
      case (Some x)
      then show ?thesis using a Pair n by (auto simp: buffer_read_alloc_def block_detach_def split: list.splits if_splits)
    qed
  qed
qed

lemma buffer_read_all_bsize: "buffer_read buf (bsize buf) = Ret (out, b) \<Longrightarrow> bsize b = 0"
  by (auto simp: buffer_read_def block_remove_def Let_def obind_eq_Ret
      dest!: read_loop_bsize split: list.splits if_splits)

lemma buffer_slurp_empties: "buffer_slurp buf = Ret (d, n, b) \<Longrightarrow> bsize b = 0"
  by (auto simp: buffer_slurp_def buffer_read_alloc_def block_detach_def obind_eq_Ret
      dest!: buffer_read_all_bsize split: list.splits if_splits)

lemma bsize_append_loop: "bsize (append_loop buf inp) = bsize buf"
proof (induction buf inp rule: append_loop.induct)
  case (1 buf inp)
  have room: "bsize (fst (append_room buf)) = bsize buf"
    by (simp add: append_room_def block_add_def Let_def)
  show ?case
  proof (cases "inp = []")
    case False
    obtain b a where r: "append_room buf = (b, a)" by force
    with 1[OF False r[symmetric] refl refl] room show ?thesis
      by (subst append_loop.simps) (simp add: False Let_def write_last_def)
  qed (simp add: append_loop.simps)
qed

lemma bsize_append [simp]: "bsize (buffer_append buf inp) = bsize buf + length inp"
  by (simp add: buffer_append_def Let_def bsize_append_loop)

lemma read_loop_length: "read_loop buf n = Ret (out, b) \<Longrightarrow> length out \<le> n"
proof (induction buf n arbitrary: out b rule: read_loop.induct)
  case (1 buf n)
  show ?case
  proof (cases "n = 0")
    case False
    let ?k = "min n (BUFFER_BLOCK_SIZE - start_offset buf)"
    from False 1(2) obtain out1 b1 out2 where s: "read_step buf n = Ret (out1, b1)"
      "read_loop b1 (n - ?k) = Ret (out2, b)" "out = out1 @ out2"
      by (subst (asm) read_loop.simps) (auto simp: obind_eq_Ret)
    have "length out1 \<le> ?k" using s(1)
      by (auto simp: read_step_def Let_def obind_eq_Ret split: list.splits if_splits)
    with 1(1)[OF False refl s(1) refl s(2)] s(3) show ?thesis by (simp only: length_append)
  qed (use 1(2) in \<open>simp add: read_loop.simps\<close>)
qed

lemma buffer_slurp_length: "buffer_slurp buf = Ret (d, n, b) \<Longrightarrow> n \<le> bsize buf"
  by (auto simp: buffer_slurp_def buffer_read_alloc_def block_detach_def buffer_read_def obind_eq_Ret Let_def
      dest!: read_loop_length split: list.splits if_splits)

lemma buffer_slurp_sizes: "buffer_slurp buf = Ret (d, n, b) \<Longrightarrow> bsize b = 0 \<and> n \<le> bsize buf"
  using buffer_slurp_empties buffer_slurp_length by blast

section \<open>Refinement of an abstract byte queue\<close>

text \<open>
  Every sequence of operations on a new buffer answers as the same sequence on a list of
  bytes does. Both readers of text are observed as the C string they return.
\<close>

datatype buf_op = Append bytes | Read nat | ReadLine | ReadChunk byte | Slurp
datatype buf_res = Done | Got bytes | Text "string option"

fun buf_exec :: "buf_op \<Rightarrow> buffer \<Rightarrow> (buf_res \<times> buffer) outcome" where
  "buf_exec (Append xs) b = Ret (Done, buffer_append b xs)"
| "buf_exec (Read n) b = obind (buffer_read b n) (\<lambda>(xs, b'). Ret (Got xs, b'))"
| "buf_exec ReadLine b = obind (buffer_read_line b) (\<lambda>(m, b'). Ret (Text (map_option cstr m), b'))"
| "buf_exec (ReadChunk c) b = obind (buffer_read_chunk b c) (\<lambda>(m, b'). Ret (Text (map_option cstr m), b'))"
| "buf_exec Slurp b = obind (buffer_slurp b) (\<lambda>(m, n, b'). Ret (Got (take n m), b'))"

fun queue_exec :: "buf_op \<Rightarrow> bytes \<Rightarrow> buf_res \<times> bytes" where
  "queue_exec (Append xs) q = (Done, q @ xs)"
| "queue_exec (Read n) q = (Got (take n q), drop n q)"
| "queue_exec ReadLine q =
     (if LF \<in> set q then (Text (Some (cstr (strip_CR (before LF q)))), after LF q) else (Text None, q))"
| "queue_exec (ReadChunk c) q =
     (if c \<in> set q then (Text (Some (cstr (before c q))), after c q) else (Text None, q))"
| "queue_exec Slurp q = (Got q, [])"

fun buf_run :: "buf_op list \<Rightarrow> buffer \<Rightarrow> (buf_res list \<times> buffer) outcome" where
  "buf_run [] b = Ret ([], b)"
| "buf_run (x # xs) b =
     obind (buf_exec x b) (\<lambda>(r, b'). obind (buf_run xs b') (\<lambda>(rs, b''). Ret (r # rs, b'')))"

fun queue_run :: "buf_op list \<Rightarrow> bytes \<Rightarrow> buf_res list \<times> bytes" where
  "queue_run [] q = ([], q)"
| "queue_run (x # xs) q =
     (let (r, q') = queue_exec x q; (rs, q'') = queue_run xs q' in (r # rs, q''))"

lemma buf_exec_refines:
  assumes "buf_inv b"
  shows "\<exists>b'. buf_exec x b = Ret (fst (queue_exec x (buffer_bytes b)), b') \<and> buf_inv b' \<and>
    buffer_bytes b' = snd (queue_exec x (buffer_bytes b))"
proof (cases x)
  case (Append xs)
  then show ?thesis using assms by simp
next
  case (Read n)
  then show ?thesis using buffer_read_correct[OF assms, of n] by auto
next
  case ReadLine
  then show ?thesis using buffer_read_line_correct[OF assms] assms by (auto split: if_splits)
next
  case (ReadChunk c)
  then show ?thesis using buffer_read_chunk_correct[OF assms, of c] assms by (auto split: if_splits)
next
  case Slurp
  then show ?thesis using buffer_slurp_correct[OF assms] by auto
qed

lemma buf_run_refines:
  assumes "buf_inv b"
  shows "\<exists>b'. buf_run xs b = Ret (fst (queue_run xs (buffer_bytes b)), b') \<and> buf_inv b' \<and>
    buffer_bytes b' = snd (queue_run xs (buffer_bytes b))"
  using assms
proof (induction xs arbitrary: b)
  case (Cons x xs)
  obtain b' where b': "buf_exec x b = Ret (fst (queue_exec x (buffer_bytes b)), b')" "buf_inv b'"
    "buffer_bytes b' = snd (queue_exec x (buffer_bytes b))"
    using buf_exec_refines[OF Cons.prems] by blast
  show ?case using Cons.IH[OF b'(2)] b' by (auto simp: Let_def split: prod.splits)
qed simp

text \<open>
  Property C18. The chained-block buffer refines a plain byte queue: any sequence of appends,
  reads, line reads, chunk reads and slurps on a new buffer succeeds (no assertion of the
  code fails, no access leaves a block) and gives exactly the results the queue gives, so
  neither the block boundaries nor the zero-copy path of \<open>block_detach\<close> are observable.
\<close>

theorem buffer_refines_queue:
  "\<exists>b. buf_run xs buffer_new = Ret (fst (queue_run xs []), b) \<and>
       buffer_bytes b = snd (queue_run xs [])"
  using buf_run_refines[of buffer_new xs] by auto

text \<open>
  A line is read only when its newline has arrived, then it is the text before
  the first newline, without one trailing carriage return and cut at an embedded NUL, and
  exactly that line and its newline leave the buffer.
\<close>

theorem buffer_line_correct:
  assumes "buf_inv buf" and "buffer_bytes buf = l @ LF # rest" and "LF \<notin> set l"
  shows "\<exists>m buf'. buffer_read_line buf = Ret (Some m, buf') \<and> NUL \<in> set m \<and>
    cstr m = cstr (strip_CR l) \<and> buf_inv buf' \<and> buffer_bytes buf' = rest"
proof -
  have "before LF (buffer_bytes buf) = l" and "after LF (buffer_bytes buf) = rest"
    using assms(2,3) by simp_all
  with buffer_read_line_correct[OF assms(1)] assms(2) show ?thesis by simp
qed

lemma buffer_line_correct_witness:
  "buffer_bytes (buffer_append buffer_new (''QUIT'' @ [CR, LF] @ ''NOOP'')) = ''QUIT'' @ [CR] @ LF # ''NOOP'' \<and>
   (\<exists>m buf'. buffer_read_line (buffer_append buffer_new (''QUIT'' @ [CR, LF] @ ''NOOP'')) = Ret (Some m, buf') \<and>
      NUL \<in> set m \<and> cstr m = ''QUIT'' \<and> buf_inv buf' \<and> buffer_bytes buf' = ''NOOP'')"
  using buffer_line_correct[of "buffer_append buffer_new (''QUIT'' @ [CR, LF] @ ''NOOP'')" "''QUIT'' @ [CR]" "''NOOP''"]
  by (simp add: strip_CR_def)

end
