(* ===== verification/Tls.thy ===== *)
theory Tls
  imports Buffer CString Numbers
begin

text \<open>
  The event-driven TLS layer, \<open>src/common/tls.c\<close>, that the server and the client share: the
  connection state, the requests (\<open>tls_read\<close>, \<open>tls_write\<close>, \<open>tls_shutdown\<close>, ...) and the
  watcher callbacks that carry them out against OpenSSL's non-blocking calls.

  A connection is the source's struct as a record. Each libev watcher has the flag whether it
  is active, the event it waits for and whether an event was fed to it. OpenSSL's answers
  are functions of the number of calls made, so every sequence of answers is some
  \<open>ssl_env\<close>. The user's handlers are tags: \<open>run\<close> gives the meaning of a tag, a function on
  the connection and the user's own state. A connection that was freed is flagged, and every
  use of it after that (a second \<open>tls_free\<close> too) is \<open>Die\<close>.
\<close>

section \<open>State\<close>

definition LINE_MAX_SIZE :: nat where "LINE_MAX_SIZE = 2048"
definition LINE_BUFFER_SIZE :: nat where "LINE_BUFFER_SIZE = 128"
definition LINE_TERMINATOR :: string where "LINE_TERMINATOR = [CR, LF]"

datatype io_event = EV_READ | EV_WRITE
datatype watcher = InitW | ReadW | WriteW | ShutdownW
datatype read_mode = READ_LINE | READ_BYTES
datatype 'h handler = Default | User 'h
datatype drain = StartShutdown

record io_watcher =
  w_active :: bool
  w_pending :: bool
  w_fd :: int
  w_events :: io_event

record 'h tls =
  t_id :: "string option"
  t_addr :: "string option"
  t_peer :: "string option"
  t_watcher :: "watcher \<Rightarrow> io_watcher"
  t_timer_active :: bool
  t_timer_after :: real
  t_timeout :: real
  t_last_activity :: real
  t_now :: real
  t_input_buffer :: buffer
  t_output_buffer :: buffer
  t_input :: "bytes option"
  t_output :: "bytes option"
  t_input_size :: nat
  t_input_offset :: nat
  t_output_size :: nat
  t_output_offset :: nat
  t_connect_handler :: "'h option"
  t_read_handler :: "'h option"
  t_drain_handler :: "drain option"
  t_error_handler :: "'h option"
  t_timeout_handler :: "'h handler"
  t_line_too_long_handler :: "'h handler"
  t_fd :: int
  t_read_mode :: read_mode
  t_auto_die :: bool
  t_freed :: bool
  t_calls :: nat
  t_written :: bytes
  t_sent :: bytes

text \<open>
  What OpenSSL answers: the bytes read or the number written, or why not, the way
  \<open>check_tls_error\<close> tells the reasons apart. \<open>Syscall\<close> has whether the error queue holds
  an entry, the result code and \<open>errno\<close>. \<open>SSL_shutdown\<close>, which is repeated while it gives
  0, answers how often it gives 0 and what then.
\<close>

datatype errno = Errno0 | EINTR | OtherErrno
datatype tls_error =
    WantAccept | WantRead | WantConnect | WantWrite
  | Syscall bool int errno | ZeroReturn | SslError bool | UnknownError
datatype shutdown_answer = ShutdownDone | ShutdownError tls_error

record ssl_env =
  ssl_connect :: "nat \<Rightarrow> tls_error option"
  ssl_accept :: "nat \<Rightarrow> tls_error option"
  ssl_read :: "nat \<Rightarrow> nat \<Rightarrow> tls_error + bytes"
  ssl_write :: "nat \<Rightarrow> bytes \<Rightarrow> tls_error + nat"
  ssl_shutdown :: "nat \<Rightarrow> nat \<times> shutdown_answer"
  ssl_app_data :: "nat \<Rightarrow> string option"
  ssl_bio_fd :: "nat \<Rightarrow> int"

definition tls_tick :: "'h tls \<Rightarrow> 'h tls" where
  "tls_tick tls = tls\<lparr>t_calls := Suc (t_calls tls)\<rparr>"

section \<open>Watchers\<close>

definition set_watcher :: "watcher \<Rightarrow> io_watcher \<Rightarrow> 'h tls \<Rightarrow> 'h tls" where
  "set_watcher w iw tls = tls\<lparr>t_watcher := (t_watcher tls)(w := iw)\<rparr>"

definition is_active :: "watcher \<Rightarrow> 'h tls \<Rightarrow> bool" where
  "is_active w tls \<longleftrightarrow> w_active (t_watcher tls w)"

definition ev_io_start :: "watcher \<Rightarrow> 'h tls \<Rightarrow> 'h tls" where
  "ev_io_start w tls = set_watcher w ((t_watcher tls w)\<lparr>w_active := True\<rparr>) tls"

definition ev_io_stop :: "watcher \<Rightarrow> 'h tls \<Rightarrow> 'h tls" where
  "ev_io_stop w tls = set_watcher w ((t_watcher tls w)\<lparr>w_active := False, w_pending := False\<rparr>) tls"

definition ev_io_set :: "watcher \<Rightarrow> int \<Rightarrow> io_event \<Rightarrow> 'h tls \<Rightarrow> 'h tls" where
  "ev_io_set w fd ev tls = set_watcher w ((t_watcher tls w)\<lparr>w_fd := fd, w_events := ev\<rparr>) tls"

definition ev_feed_event :: "watcher \<Rightarrow> 'h tls \<Rightarrow> 'h tls" where
  "ev_feed_event w tls = set_watcher w ((t_watcher tls w)\<lparr>w_pending := True\<rparr>) tls"

definition ev_timer_start :: "real \<Rightarrow> 'h tls \<Rightarrow> 'h tls" where
  "ev_timer_start delay tls = tls\<lparr>t_timer_after := delay, t_timer_active := True\<rparr>"

definition stop_if_active :: "watcher \<Rightarrow> 'h tls \<Rightarrow> 'h tls" where
  "stop_if_active w tls = (if is_active w tls then ev_io_stop w tls else tls)"

text \<open>Setting, starting and feeding a watcher, as all new requests do.\<close>

definition kick :: "watcher \<Rightarrow> io_event \<Rightarrow> 'h tls \<Rightarrow> 'h tls" where
  "kick w ev tls = ev_feed_event w (ev_io_start w (ev_io_set w (t_fd tls) ev tls))"

section \<open>Creating and freeing\<close>

definition live :: "'h tls \<Rightarrow> unit outcome" where
  "live tls = (if t_freed tls then Die ''use of a freed connection'' else Ret ())"

definition idle_watcher :: io_watcher where
  "idle_watcher = \<lparr>w_active = False, w_pending = False, w_fd = - 1, w_events = EV_READ\<rparr>"

definition tls_new :: "bool \<Rightarrow> real \<Rightarrow> 'h tls" where
  "tls_new auto_die now =
     \<lparr>t_id = None, t_addr = None, t_peer = None, t_watcher = (\<lambda>_. idle_watcher),
      t_timer_active = False, t_timer_after = 0, t_timeout = 0, t_last_activity = now, t_now = now,
      t_input_buffer = buffer_new, t_output_buffer = buffer_new, t_input = None, t_output = None,
      t_input_size = 0, t_input_offset = 0, t_output_size = 0, t_output_offset = 0,
      t_connect_handler = None, t_read_handler = None, t_drain_handler = None,
      t_error_handler = None, t_timeout_handler = Default, t_line_too_long_handler = Default,
      t_fd = - 1, t_read_mode = READ_LINE, t_auto_die = auto_die, t_freed = False, t_calls = 0,
      t_written = [], t_sent = []\<rparr>"

definition stop_all_io :: "'h tls \<Rightarrow> 'h tls" where
  "stop_all_io tls =
     stop_if_active ShutdownW (stop_if_active WriteW (stop_if_active ReadW (stop_if_active InitW tls)))"

definition tls_free :: "'h tls \<Rightarrow> 'h tls outcome" where
  "tls_free tls =
     obind (live tls) (\<lambda>_.
       let tls = stop_all_io tls;
           tls = (if t_timer_active tls then tls\<lparr>t_timer_active := False\<rparr> else tls)
       in Ret (tls\<lparr>t_freed := True\<rparr>))"

section \<open>Requests\<close>

text \<open>\<open>tls_read\<close> of size 0 is a request for a line.\<close>

definition tls_read :: "'h \<Rightarrow> nat \<Rightarrow> 'h tls \<Rightarrow> 'h tls outcome" where
  "tls_read handle_read n tls =
     obind (live tls) (\<lambda>_.
       if is_active ReadW tls then Die ''Internal error: Concurrent read requests issued''
       else
         let tls = (if n = 0
                    then tls\<lparr>t_read_mode := READ_LINE, t_input_size := LINE_BUFFER_SIZE\<rparr>
                    else tls\<lparr>t_read_mode := READ_BYTES, t_input_size := n\<rparr>);
             tls = tls\<lparr>t_read_handler := Some handle_read\<rparr>
         in Ret (kick ReadW EV_READ tls))"

definition tls_read_line :: "'h \<Rightarrow> 'h tls \<Rightarrow> 'h tls outcome" where
  "tls_read_line handle_read_line tls = tls_read handle_read_line 0 tls"

definition write_buffered :: "bytes \<Rightarrow> 'h tls \<Rightarrow> 'h tls" where
  "write_buffered data tls =
     (let tls = tls\<lparr>t_output_buffer := buffer_append (t_output_buffer tls) data,
                    t_written := t_written tls @ data\<rparr>
      in if \<not> is_active WriteW tls then kick WriteW EV_WRITE tls else tls)"

text \<open>\<open>owned\<close>: there is a function to free the data with.\<close>

definition tls_write :: "bytes \<Rightarrow> bool \<Rightarrow> 'h tls \<Rightarrow> 'h tls outcome" where
  "tls_write data owned tls =
     obind (live tls) (\<lambda>_.
       if t_output tls = None \<and> buffer_size (t_output_buffer tls) = 0 \<and> owned then
         let tls = tls\<lparr>t_output := Some data, t_output_size := length data,
                       t_written := t_written tls @ data\<rparr>
         in Ret (if \<not> is_active WriteW tls then kick WriteW EV_WRITE tls else tls)
       else Ret (write_buffered data tls))"

definition tls_write_line :: "string \<Rightarrow> 'h tls \<Rightarrow> 'h tls outcome" where
  "tls_write_line string tls =
     obind (live tls) (\<lambda>_. Ret (write_buffered LINE_TERMINATOR (write_buffered string tls)))"

definition start_shutdown :: "'h tls \<Rightarrow> 'h tls outcome" where
  "start_shutdown tls = obind (live tls) (\<lambda>_. Ret (kick ShutdownW EV_WRITE tls))"

definition run_drain :: "drain \<Rightarrow> 'h tls \<Rightarrow> 'h tls outcome" where
  "run_drain d tls = (case d of StartShutdown \<Rightarrow> start_shutdown tls)"

definition tls_on_drain :: "drain \<Rightarrow> 'h tls \<Rightarrow> 'h tls outcome" where
  "tls_on_drain handle_drain tls =
     obind (live tls) (\<lambda>_.
       let tls = tls\<lparr>t_drain_handler := Some handle_drain\<rparr> in
       if \<not> is_active WriteW tls then run_drain handle_drain tls else Ret tls)"

definition tls_on_error :: "'h \<Rightarrow> 'h tls \<Rightarrow> 'h tls outcome" where
  "tls_on_error handle_error tls = obind (live tls) (\<lambda>_. Ret (tls\<lparr>t_error_handler := Some handle_error\<rparr>))"

definition tls_on_timeout :: "'h handler \<Rightarrow> 'h tls \<Rightarrow> 'h tls outcome" where
  "tls_on_timeout handle_timeout tls =
     obind (live tls) (\<lambda>_.
       let tls = (if t_timer_active tls then tls\<lparr>t_timer_active := False\<rparr> else tls);
           tls = tls\<lparr>t_timeout_handler := handle_timeout\<rparr>
       in Ret (if t_timeout tls > 0
               then (ev_timer_start (t_timeout tls) tls)\<lparr>t_last_activity := t_now tls\<rparr> else tls))"

definition tls_on_line_too_long :: "'h \<Rightarrow> 'h tls \<Rightarrow> 'h tls outcome" where
  "tls_on_line_too_long handle tls =
     obind (live tls) (\<lambda>_. Ret (tls\<lparr>t_line_too_long_handler := User handle\<rparr>))"

definition tls_shutdown :: "'h tls \<Rightarrow> 'h tls outcome" where
  "tls_shutdown tls =
     obind (live tls) (\<lambda>_.
       tls_on_drain StartShutdown (tls\<lparr>t_error_handler := None, t_timeout_handler := Default\<rparr>))"

definition tls_set_connection_id :: "string \<Rightarrow> 'h tls \<Rightarrow> 'h tls outcome" where
  "tls_set_connection_id conn_id tls =
     obind (live tls) (\<lambda>_.
       case t_peer tls of
         None \<Rightarrow> Die ''NULL peer''
       | Some peer \<Rightarrow> Ret (tls\<lparr>t_peer := Some (peer @ '' (ID: '' @ conn_id @ '')'')\<rparr>))"

section \<open>Handlers and errors\<close>

type_synonym ('h, 'g) run = "'h \<Rightarrow> bytes option \<Rightarrow> 'h tls \<Rightarrow> 'g \<Rightarrow> ('h tls \<times> 'g) outcome"

definition TLS_FATAL :: string where
  "TLS_FATAL = ''fatal TLS error or warning''"

text \<open>\<open>warning_f\<close> and \<open>error_f\<close> are \<open>die\<close> on a connection with \<open>TLS_AUTO_DIE\<close>.\<close>

definition complain :: "'h tls \<Rightarrow> unit outcome" where
  "complain tls = (if t_auto_die tls then Die TLS_FATAL else Ret ())"

definition run_default :: "('h, 'g) run \<Rightarrow> 'h handler \<Rightarrow> 'h tls \<Rightarrow> 'g \<Rightarrow> ('h tls \<times> 'g) outcome" where
  "run_default run h tls g =
     (case h of
        Default \<Rightarrow> obind (tls_free tls) (\<lambda>tls. Ret (tls, g))
      | User u \<Rightarrow> run u None tls g)"

definition wait_for :: "watcher \<Rightarrow> io_event \<Rightarrow> 'h tls \<Rightarrow> 'h tls" where
  "wait_for w ev tls =
     (if w_events (t_watcher tls w) \<noteq> ev
      then ev_io_start w (ev_io_set w (w_fd (t_watcher tls w)) ev (ev_io_stop w tls))
      else tls)"

definition tls_failed :: "('h, 'g) run \<Rightarrow> 'h tls \<Rightarrow> 'g \<Rightarrow> ('h tls \<times> 'g) outcome" where
  "tls_failed run tls g =
     obind (complain tls) (\<lambda>_.
     obind (case t_error_handler tls of None \<Rightarrow> Ret (tls, g) | Some h \<Rightarrow> run h None tls g) (\<lambda>(tls, g).
     obind (tls_free tls) (\<lambda>tls. Ret (tls, g))))"

definition check_tls_error ::
  "('h, 'g) run \<Rightarrow> watcher \<Rightarrow> tls_error \<Rightarrow> 'h tls \<Rightarrow> 'g \<Rightarrow> ('h tls \<times> 'g) outcome" where
  "check_tls_error run w err tls g =
     obind (live tls) (\<lambda>_.
       case err of
         WantAccept \<Rightarrow> Ret (wait_for w EV_READ tls, g)
       | WantRead \<Rightarrow> Ret (wait_for w EV_READ tls, g)
       | WantConnect \<Rightarrow> Ret (wait_for w EV_WRITE tls, g)
       | WantWrite \<Rightarrow> Ret (wait_for w EV_WRITE tls, g)
       | Syscall queued code err_no \<Rightarrow>
           if \<not> queued \<and> code = - 1 \<and> err_no = EINTR then Ret (tls, g) else tls_failed run tls g
       | ZeroReturn \<Rightarrow> tls_failed run tls g
       | SslError queued \<Rightarrow> tls_failed run tls g
       | UnknownError \<Rightarrow> tls_failed run tls g)"

section \<open>Reading\<close>

definition reset_watcher_state :: "watcher \<Rightarrow> 'h tls \<Rightarrow> 'h tls" where
  "reset_watcher_state w tls = (if is_active w tls then ev_feed_event w tls else tls)"

definition line_received :: "bytes \<Rightarrow> buffer \<Rightarrow> 'h tls \<Rightarrow> 'h tls" where
  "line_received line buf tls =
     tls\<lparr>t_input_buffer := buf, t_input := None, t_input_size := 0\<rparr>"

text \<open>
  The loop of \<open>read_line\<close>: the data of a complete line, or nothing, and then the handler for
  overlong lines or the error handler may have run. It ends because every round adds at
  least a byte to the input buffer, whose size is bounded.
\<close>

function read_line_loop ::
  "ssl_env \<Rightarrow> ('h, 'g) run \<Rightarrow> 'h tls \<Rightarrow> 'g \<Rightarrow> (bytes option \<times> 'h tls \<times> 'g) outcome" where
  "read_line_loop env run tls g =
     obind (buffer_read_line (t_input_buffer tls)) (\<lambda>(line, buf).
       case line of
         Some l \<Rightarrow> Ret (Some l, line_received l buf tls, g)
       | None \<Rightarrow>
           if buffer_size (t_input_buffer tls) + t_input_size tls > LINE_MAX_SIZE then
             obind (complain tls) (\<lambda>_.
             obind (run_default run (t_line_too_long_handler tls) (ev_io_stop ReadW tls) g)
               (\<lambda>(tls, g). Ret (None, tls, g)))
           else
             (case ssl_read env (t_calls tls) (t_input_size tls) of
                Inl err \<Rightarrow>
                  obind (check_tls_error run ReadW err (tls_tick tls) g) (\<lambda>(tls, g). Ret (None, tls, g))
              | Inr bs \<Rightarrow>
                  if bs = [] then Die ''SSL_read gave no data''
                  else read_line_loop env run
                    ((tls_tick tls)\<lparr>t_input_buffer := buffer_append (t_input_buffer tls) bs\<rparr>) g))"
  by pat_completeness auto
termination
  by (relation "measure (\<lambda>(env, run, tls, g). LINE_MAX_SIZE + 1 - buffer_size (t_input_buffer tls))")
    (auto simp: buffer_size_def tls_tick_def neq_Nil_conv)

declare read_line_loop.simps [simp del]

definition read_line ::
  "ssl_env \<Rightarrow> ('h, 'g) run \<Rightarrow> 'h tls \<Rightarrow> 'g \<Rightarrow> (bytes option \<times> 'h tls \<times> 'g) outcome" where
  "read_line env run tls g =
     read_line_loop env run
       (if t_input tls = None then tls\<lparr>t_input := Some (replicate (t_input_size tls) undefined)\<rparr> else tls) g"

function read_bytes_loop ::
  "ssl_env \<Rightarrow> ('h, 'g) run \<Rightarrow> 'h tls \<Rightarrow> 'g \<Rightarrow> (bytes option \<times> 'h tls \<times> 'g) outcome" where
  "read_bytes_loop env run tls g =
     (let n_todo = t_input_size tls - t_input_offset tls in
      case ssl_read env (t_calls tls) n_todo of
        Inl err \<Rightarrow> obind (check_tls_error run ReadW err (tls_tick tls) g) (\<lambda>(tls, g). Ret (None, tls, g))
      | Inr bs \<Rightarrow>
          let tls = (tls_tick tls)
                \<lparr>t_input := Some (memcpy_at (t_input_offset tls) bs (the (t_input tls)))\<rparr> in
          if bs = [] then Die ''SSL_read gave no data''
          else if length bs < n_todo then
            read_bytes_loop env run (tls\<lparr>t_input_offset := t_input_offset tls + length bs\<rparr>) g
          else
            obind (store (the (t_input tls)) (t_input_size tls) NUL) (\<lambda>bytes.
              Ret (Some bytes, tls\<lparr>t_input := None, t_input_size := 0, t_input_offset := 0\<rparr>, g)))"
  by pat_completeness auto
termination
  by (relation "measure (\<lambda>(env, run, tls, g). t_input_size tls - t_input_offset tls)")
    (auto simp: tls_tick_def neq_Nil_conv)

declare read_bytes_loop.simps [simp del]

definition read_bytes ::
  "ssl_env \<Rightarrow> ('h, 'g) run \<Rightarrow> 'h tls \<Rightarrow> 'g \<Rightarrow> (bytes option \<times> 'h tls \<times> 'g) outcome" where
  "read_bytes env run tls g =
     read_bytes_loop env run
       (if t_input tls = None then tls\<lparr>t_input := Some (replicate (t_input_size tls + 1) undefined)\<rparr> else tls) g"

definition tls_read_cb :: "ssl_env \<Rightarrow> ('h, 'g) run \<Rightarrow> 'h tls \<Rightarrow> 'g \<Rightarrow> ('h tls \<times> 'g) outcome" where
  "tls_read_cb env run tls g =
     obind (live tls) (\<lambda>_.
       let tls = reset_watcher_state WriteW tls;
           tls = tls\<lparr>t_last_activity := t_now tls\<rparr>
       in obind (if t_read_mode tls = READ_LINE then read_line env run tls g else read_bytes env run tls g)
            (\<lambda>(data, tls, g).
              case data of
                None \<Rightarrow> Ret (tls, g)
              | Some d \<Rightarrow>
                  obind (live tls) (\<lambda>_.
                    case t_read_handler tls of
                      None \<Rightarrow> Die ''NULL read handler''
                    | Some h \<Rightarrow> run h (Some d) (ev_io_stop ReadW tls) g)))"

section \<open>Writing\<close>

definition tls_slurp :: "'h tls \<Rightarrow> 'h tls outcome" where
  "tls_slurp tls =
     (if t_output tls = None
      then obind (buffer_slurp (t_output_buffer tls)) (\<lambda>(d, n, buf).
             Ret (tls\<lparr>t_output := Some d, t_output_size := n, t_output_buffer := buf\<rparr>))
      else Ret tls)"

text \<open>The bytes of the output object still to be sent.\<close>

definition output_rest :: "'h tls \<Rightarrow> bytes" where
  "output_rest tls =
     (case t_output tls of
        None \<Rightarrow> []
      | Some d \<Rightarrow> take (t_output_size tls - t_output_offset tls) (drop (t_output_offset tls) d))"

definition output_sent :: "nat \<Rightarrow> 'h tls \<Rightarrow> 'h tls" where
  "output_sent n tls = tls\<lparr>t_sent := t_sent tls @ take n (output_rest tls)\<rparr>"

definition output_done :: "'h tls \<Rightarrow> 'h tls outcome" where
  "output_done tls =
     (let tls = tls\<lparr>t_output := None, t_output_size := 0, t_output_offset := 0\<rparr> in
      if buffer_size (t_output_buffer tls) = 0
      then let tls = ev_io_stop WriteW tls in
           (case t_drain_handler tls of None \<Rightarrow> Ret tls | Some d \<Rightarrow> run_drain d tls)
      else Ret tls)"

definition output_total :: "'h tls \<Rightarrow> nat" where
  "output_total tls = bsize (t_output_buffer tls) + (t_output_size tls - t_output_offset tls)"

lemma output_done_fields:
  assumes "output_done tls = Ret tls1"
  shows "t_output_buffer tls1 = t_output_buffer tls" "t_output tls1 = None" "t_output_size tls1 = 0"
    "t_output_offset tls1 = 0" "t_sent tls1 = t_sent tls" "t_written tls1 = t_written tls"
  using assms
  by (auto simp: output_done_def Let_def run_drain_def start_shutdown_def kick_def ev_io_stop_def
      ev_io_start_def ev_io_set_def ev_feed_event_def set_watcher_def live_def
      split: if_splits option.splits drain.splits)

lemma tls_slurp_total:
  assumes "tls_slurp tls = Ret tls1"
  shows "output_total tls1 \<le> output_total tls"
    "0 < bsize (t_output_buffer tls1) \<Longrightarrow> t_output tls \<noteq> None"
  using assms
  by (auto simp: tls_slurp_def output_total_def obind_eq_Ret
      dest!: buffer_slurp_sizes split: if_splits)

text \<open>
  The nested loops of \<open>write_cb\<close> in one: after a partial write the inner loop repeats with
  the same output, after a complete one the outer loop slurps the buffer again.
\<close>

function tls_write_loop :: "ssl_env \<Rightarrow> ('h, 'g) run \<Rightarrow> 'h tls \<Rightarrow> 'g \<Rightarrow> ('h tls \<times> 'g) outcome" where
  "tls_write_loop env run tls g =
     obind (tls_slurp tls) (\<lambda>tls.
       let n_todo = t_output_size tls - t_output_offset tls in
       case ssl_write env (t_calls tls) (output_rest tls) of
         Inl err \<Rightarrow> check_tls_error run WriteW err (tls_tick tls) g
       | Inr n \<Rightarrow>
           if n = 0 then Die ''SSL_write wrote no data''
           else if n < n_todo then
             tls_write_loop env run
               ((output_sent n (tls_tick tls))\<lparr>t_output_offset := t_output_offset tls + n\<rparr>) g
           else
             obind (output_done (output_sent n (tls_tick tls))) (\<lambda>tls.
             obind (live tls) (\<lambda>_.
               if buffer_size (t_output_buffer tls) > 0 then tls_write_loop env run tls g
               else Ret (tls, g))))"
  by pat_completeness auto
termination
proof (relation "measures [\<lambda>(env, run, tls, g). output_total tls,
    \<lambda>(env, run, tls, g). if t_output tls = None then 0 else 1]", goal_cases)
  case 1
  show ?case by simp
next
  case (2 env run tls g tls1 n_todo n)
  then show ?case using tls_slurp_total(1)[of tls tls1]
    by (auto simp: output_total_def output_sent_def tls_tick_def)
next
  case (3 env run tls g tls1 n_todo n tls2 u)
  note f = output_done_fields[OF 3(6)]
  have "output_total tls2 \<le> output_total tls1"
    using f by (simp add: output_total_def output_sent_def tls_tick_def)
  moreover have "t_output tls \<noteq> None"
    using tls_slurp_total(2)[OF 3(1)] f(1) 3(8)
    by (simp add: buffer_size_def output_sent_def tls_tick_def)
  ultimately show ?case using tls_slurp_total(1)[OF 3(1)] f(2) by auto
qed

declare tls_write_loop.simps [simp del]

definition tls_write_cb :: "ssl_env \<Rightarrow> ('h, 'g) run \<Rightarrow> 'h tls \<Rightarrow> 'g \<Rightarrow> ('h tls \<times> 'g) outcome" where
  "tls_write_cb env run tls g =
     obind (live tls) (\<lambda>_.
       let tls = reset_watcher_state ReadW tls;
           tls = tls\<lparr>t_last_activity := t_now tls\<rparr>
       in tls_write_loop env run tls g)"

section \<open>Shutdown and timeout\<close>

fun shutdown_loop ::
  "('h, 'g) run \<Rightarrow> nat \<Rightarrow> shutdown_answer \<Rightarrow> 'h tls \<Rightarrow> 'g \<Rightarrow> ('h tls \<times> 'g) outcome" where
  "shutdown_loop run (Suc zeros) last_answer tls g = shutdown_loop run zeros last_answer tls g"
| "shutdown_loop run 0 ShutdownDone tls g = obind (tls_free tls) (\<lambda>tls. Ret (tls, g))"
| "shutdown_loop run 0 (ShutdownError err) tls g = check_tls_error run ShutdownW err tls g"

definition tls_shutdown_cb :: "ssl_env \<Rightarrow> ('h, 'g) run \<Rightarrow> 'h tls \<Rightarrow> 'g \<Rightarrow> ('h tls \<times> 'g) outcome" where
  "tls_shutdown_cb env run tls g =
     obind (live tls) (\<lambda>_.
       let tls = tls\<lparr>t_last_activity := t_now tls\<rparr>;
           (zeros, last_answer) = ssl_shutdown env (t_calls tls)
       in shutdown_loop run zeros last_answer (tls_tick tls) g)"

text \<open>The timer is one-shot: it is inactive when its callback runs.\<close>

definition tls_timeout_cb :: "('h, 'g) run \<Rightarrow> 'h tls \<Rightarrow> 'g \<Rightarrow> ('h tls \<times> 'g) outcome" where
  "tls_timeout_cb run tls g =
     obind (live tls) (\<lambda>_.
       let diff = t_last_activity tls + t_timeout tls - t_now tls in
       if diff > 0 then Ret (ev_timer_start diff tls, g)
       else
         obind (complain tls) (\<lambda>_.
           let tls = stop_if_active ShutdownW (stop_if_active WriteW
                       (stop_if_active ReadW (stop_if_active InitW tls)))
           in run_default run (t_timeout_handler tls) (ev_timer_start (t_timeout tls) tls) g))"

section \<open>Connecting and accepting\<close>

definition tls_connect_cb ::
  "ssl_env \<Rightarrow> ('h, 'g) run \<Rightarrow> bool \<Rightarrow> 'h tls \<Rightarrow> 'g \<Rightarrow> ('h tls \<times> 'g) outcome" where
  "tls_connect_cb env run custom tls g =
     obind (live tls) (\<lambda>_.
       let tls = tls\<lparr>t_last_activity := t_now tls\<rparr>;
           result = ssl_connect env (t_calls tls);
           tls = tls_tick tls;
           tls = (if custom then tls\<lparr>t_fd := ssl_bio_fd env (t_calls tls)\<rparr> else tls)
       in if custom \<and> t_fd tls = - 1 then Die ''Cannot create socket''
          else case result of
            Some err \<Rightarrow>
              check_tls_error run InitW err (if custom then kick InitW EV_WRITE tls else tls) g
          | None \<Rightarrow>
              let tls = (if \<not> custom then ev_io_stop InitW tls else tls) in
              (case t_connect_handler tls of
                 None \<Rightarrow> Die ''NULL connect handler''
               | Some h \<Rightarrow> run h None tls g))"

definition tls_accept_cb :: "ssl_env \<Rightarrow> ('h, 'g) run \<Rightarrow> 'h tls \<Rightarrow> 'g \<Rightarrow> ('h tls \<times> 'g) outcome" where
  "tls_accept_cb env run tls g =
     obind (live tls) (\<lambda>_.
       let tls = tls\<lparr>t_last_activity := t_now tls\<rparr> in
       case ssl_accept env (t_calls tls) of
         Some err \<Rightarrow> check_tls_error run InitW err (tls_tick tls) g
       | None \<Rightarrow>
           let tls = (tls_tick tls)\<lparr>t_id := ssl_app_data env (t_calls tls)\<rparr> in
           (case t_id tls of
              None \<Rightarrow> obind (tls_free tls) (\<lambda>tls. Ret (tls, g))
            | Some client_id \<Rightarrow>
                let tls = tls\<lparr>t_peer := Some (client_id @ ''@'' @ the (t_addr tls))\<rparr>;
                    tls = ev_io_stop InitW tls
                in (case t_connect_handler tls of
                      None \<Rightarrow> Die ''NULL connect handler''
                    | Some h \<Rightarrow> run h None tls g)))"

text \<open>
  The accepted sockets: descriptor, peer address if it can be determined, and whether
  \<open>SSL_new\<close> succeeds. The result is the connections that go on to the TLS handshake.
\<close>

record accepted =
  acc_fd :: int
  acc_addr :: "string option"
  acc_ssl :: bool

record 'h tls_server =
  ts_connect_handler :: 'h
  ts_timeout :: real

definition accept_one :: "'h tls_server \<Rightarrow> real \<Rightarrow> accepted \<Rightarrow> 'h tls outcome" where
  "accept_one ctx now a =
     (let tls = (tls_new False now)\<lparr>t_fd := acc_fd a,
            t_connect_handler := Some (ts_connect_handler ctx), t_timeout := ts_timeout ctx\<rparr>
      in case acc_addr a of
           None \<Rightarrow> tls_free tls
         | Some addr \<Rightarrow>
             obind (tls_on_timeout Default (tls\<lparr>t_addr := Some addr\<rparr>)) (\<lambda>tls.
               if \<not> acc_ssl a then tls_free tls else Ret (kick InitW EV_READ tls)))"

fun accept_tcp_cb :: "'h tls_server \<Rightarrow> real \<Rightarrow> accepted list \<Rightarrow> 'h tls list outcome" where
  "accept_tcp_cb ctx now [] = Ret []"
| "accept_tcp_cb ctx now (a # as) =
     obind (accept_one ctx now a) (\<lambda>tls.
       if t_freed tls then Ret []
       else obind (accept_tcp_cb ctx now as) (\<lambda>conns. Ret (tls # conns)))"

section \<open>Starting a client or a server\<close>

text \<open>What OpenSSL and the socket layer answer when a context and a socket are set up.\<close>

record openssl_env =
  os_ctx_new :: bool
  os_cipher_list :: "string \<Rightarrow> bool"
  os_new_accept :: "string \<Rightarrow> bool"
  os_bio_new :: bool
  os_do_accept :: bool
  os_bio_fd :: int
  os_new_connect :: "string \<Rightarrow> bool"
  os_ssl_new :: bool

definition initialize_openssl :: "openssl_env \<Rightarrow> string \<Rightarrow> unit outcome" where
  "initialize_openssl os ciphers =
     (if \<not> os_ctx_new os then Die ''Cannot create SSL context''
      else if \<not> os_cipher_list os ciphers then Die ''Cannot set SSL cipher(s)''
      else Ret ())"

definition tls_client_start :: "openssl_env \<Rightarrow> string \<Rightarrow> unit outcome" where
  "tls_client_start os ciphers = initialize_openssl os ciphers"

text \<open>\<open>sscanf(host_port, "descriptor=%d", ...)\<close>.\<close>

definition scan_descriptor :: "string \<Rightarrow> int option" where
  "scan_descriptor host_port =
     (if take 11 host_port = ''descriptor='' then
        let (v, rest) = strtol (drop 11 host_port) 10 in
        if rest = drop 11 host_port then None else Some (to_int v)
      else None)"

text \<open>The server's context and the descriptor its accept watcher waits on.\<close>

definition tls_server_start ::
  "openssl_env \<Rightarrow> string \<Rightarrow> string \<Rightarrow> real \<Rightarrow> 'h \<Rightarrow> ('h tls_server \<times> int) outcome" where
  "tls_server_start os host_port ciphers timeout handle_connect =
     obind (initialize_openssl os ciphers) (\<lambda>_.
       let listen_socket = (case scan_descriptor host_port of None \<Rightarrow> - 1 | Some fd \<Rightarrow> fd) in
       if listen_socket = - 1 \<and> \<not> os_new_accept os host_port then Die ''Cannot create socket''
       else if listen_socket \<noteq> - 1 \<and> \<not> os_bio_new os then Die ''Cannot create BIO object''
       else if listen_socket = - 1 \<and> \<not> os_do_accept os then Die ''Cannot bind''
       else Ret (\<lparr>ts_connect_handler = handle_connect, ts_timeout = timeout\<rparr>,
                 if listen_socket = - 1 then os_bio_fd os else listen_socket))"

definition tls_connect ::
  "openssl_env \<Rightarrow> ssl_env \<Rightarrow> ('h, 'g) run \<Rightarrow> string \<Rightarrow> real \<Rightarrow> real \<Rightarrow> bool \<Rightarrow> 'h \<Rightarrow> 'h handler \<Rightarrow> 'g
    \<Rightarrow> ('h tls \<times> 'g) outcome" where
  "tls_connect os env run server timeout now auto_die handle_connect handle_timeout g =
     (let tls = (tls_new auto_die now)\<lparr>t_connect_handler := Some handle_connect, t_timeout := timeout,
            t_peer := Some (case strrchr server (CHR '':'') of
                              None \<Rightarrow> server
                            | Some colon \<Rightarrow> take (length server - length colon) server)\<rparr>
      in obind (tls_on_timeout handle_timeout tls) (\<lambda>tls.
         if \<not> os_new_connect os server then Die ''Cannot create BIO object''
         else if \<not> os_ssl_new os then Die ''Cannot create SSL object''
         else tls_connect_cb env run True tls g))"

section \<open>Invariant\<close>

lemmas watcher_defs = kick_def ev_feed_event_def ev_io_start_def ev_io_stop_def ev_io_set_def
  set_watcher_def is_active_def stop_if_active_def reset_watcher_state_def wait_for_def tls_tick_def
  ev_timer_start_def stop_all_io_def

text \<open>
  A pending request of \<open>tls_read\<close>, and the object its data goes to. Its size is known as long
  as it is pending.
\<close>

definition request_ok :: "'h tls \<Rightarrow> bool" where
  "request_ok tls \<longleftrightarrow> t_read_handler tls \<noteq> None \<and>
     (case t_read_mode tls of
        READ_LINE \<Rightarrow> t_input_size tls = LINE_BUFFER_SIZE \<and> t_input_offset tls = 0
      | READ_BYTES \<Rightarrow> t_input_offset tls < t_input_size tls \<and>
          (case t_input tls of None \<Rightarrow> t_input_offset tls = 0 | Some d \<Rightarrow> length d = t_input_size tls + 1))"

text \<open>
  The data of a live connection: the buffers' invariants, an output object as long as its
  size, and everything written so far is what was sent, the rest of the output, and the
  output buffer, in this order.
\<close>

definition tls_core :: "'h tls \<Rightarrow> bool" where
  "tls_core tls \<longleftrightarrow> \<not> t_freed tls \<and> buf_inv (t_input_buffer tls) \<and> buf_inv (t_output_buffer tls) \<and>
     (case t_output tls of
        None \<Rightarrow> t_output_size tls = 0 \<and> t_output_offset tls = 0
      | Some d \<Rightarrow> t_output_offset tls \<le> t_output_size tls \<and> t_output_size tls \<le> length d) \<and>
     t_sent tls @ output_rest tls @ buffer_bytes (t_output_buffer tls) = t_written tls \<and>
     (is_active ReadW tls \<longrightarrow> request_ok tls)"

text \<open>
  The watchers: the one for writing is active exactly while there is something to send, and a
  connection that is shutting down waits to send or for the shutdown.
\<close>

definition tls_inv :: "'h tls \<Rightarrow> bool" where
  "tls_inv tls \<longleftrightarrow> tls_core tls \<and>
     (is_active WriteW tls \<longleftrightarrow> t_output tls \<noteq> None \<or> buffer_size (t_output_buffer tls) > 0) \<and>
     (is_active ShutdownW tls \<longrightarrow> t_drain_handler tls \<noteq> None) \<and>
     (t_drain_handler tls \<noteq> None \<longrightarrow> is_active WriteW tls \<or> is_active ShutdownW tls)"

text \<open>
  The part of a connection that its user sees: all that no callback changes by itself, and
  what the user has written so far.
\<close>

definition view :: "'h tls \<Rightarrow> _" where
  "view tls = (t_id tls, t_addr tls, t_peer tls, t_connect_handler tls, t_read_handler tls,
     t_drain_handler tls, t_error_handler tls, t_timeout_handler tls, t_line_too_long_handler tls,
     t_auto_die tls, t_timeout tls, t_freed tls, t_written tls, is_active InitW tls)"

definition reading :: "'h tls \<Rightarrow> (read_mode \<times> nat) option" where
  "reading tls = (if is_active ReadW tls then Some (t_read_mode tls, t_input_size tls) else None)"

text \<open>Ready for a new request: nothing of an old one is left.\<close>

definition read_idle :: "'h tls \<Rightarrow> bool" where
  "read_idle tls \<longleftrightarrow> \<not> is_active ReadW tls \<and> t_input tls = None \<and> t_input_offset tls = 0"

section \<open>Requests keep the invariant\<close>

lemma output_rest_same:
  "t_output tls' = t_output tls \<Longrightarrow> t_output_size tls' = t_output_size tls \<Longrightarrow>
   t_output_offset tls' = t_output_offset tls \<Longrightarrow> output_rest tls' = output_rest tls"
  by (simp add: output_rest_def cong: option.case_cong)

lemma tls_core_same:
  assumes "tls_core tls" "t_freed tls' = t_freed tls" "t_input_buffer tls' = t_input_buffer tls"
    "t_output_buffer tls' = t_output_buffer tls" "t_output tls' = t_output tls"
    "t_output_size tls' = t_output_size tls" "t_output_offset tls' = t_output_offset tls"
    "t_sent tls' = t_sent tls" "t_written tls' = t_written tls"
    "is_active ReadW tls' \<Longrightarrow> request_ok tls'"
  shows "tls_core tls'"
  using assms output_rest_same[OF assms(5-7)] by (simp add: tls_core_def cong: option.case_cong)

lemma request_ok_same:
  assumes "request_ok tls" "t_read_handler tls' = t_read_handler tls" "t_read_mode tls' = t_read_mode tls"
    "t_input_size tls' = t_input_size tls" "t_input_offset tls' = t_input_offset tls" "t_input tls' = t_input tls"
  shows "request_ok tls'"
  using assms by (simp add: request_ok_def cong: option.case_cong read_mode.case_cong)

lemma request_ok_updates [simp]:
  "request_ok (tls\<lparr>t_watcher := x0\<rparr>) = request_ok tls"
  "request_ok (tls\<lparr>t_input_buffer := x1\<rparr>) = request_ok tls"
  "request_ok (tls\<lparr>t_output_buffer := x2\<rparr>) = request_ok tls"
  "request_ok (tls\<lparr>t_output := x3\<rparr>) = request_ok tls"
  "request_ok (tls\<lparr>t_output_size := x4\<rparr>) = request_ok tls"
  "request_ok (tls\<lparr>t_output_offset := x5\<rparr>) = request_ok tls"
  "request_ok (tls\<lparr>t_written := x6\<rparr>) = request_ok tls"
  "request_ok (tls\<lparr>t_sent := x7\<rparr>) = request_ok tls"
  "request_ok (tls\<lparr>t_calls := x8\<rparr>) = request_ok tls"
  "request_ok (tls\<lparr>t_last_activity := x9\<rparr>) = request_ok tls"
  "request_ok (tls\<lparr>t_timer_active := x10\<rparr>) = request_ok tls"
  "request_ok (tls\<lparr>t_timer_after := x11\<rparr>) = request_ok tls"
  "request_ok (tls\<lparr>t_error_handler := x12\<rparr>) = request_ok tls"
  "request_ok (tls\<lparr>t_timeout_handler := x13\<rparr>) = request_ok tls"
  "request_ok (tls\<lparr>t_drain_handler := x14\<rparr>) = request_ok tls"
  by (simp_all add: request_ok_def cong: option.case_cong read_mode.case_cong)

lemma output_rest_updates [simp]:
  "output_rest (tls\<lparr>t_watcher := x0\<rparr>) = output_rest tls"
  "output_rest (tls\<lparr>t_input_buffer := x1\<rparr>) = output_rest tls"
  "output_rest (tls\<lparr>t_output_buffer := x2\<rparr>) = output_rest tls"
  "output_rest (tls\<lparr>t_input := x3\<rparr>) = output_rest tls"
  "output_rest (tls\<lparr>t_input_size := x4\<rparr>) = output_rest tls"
  "output_rest (tls\<lparr>t_input_offset := x5\<rparr>) = output_rest tls"
  "output_rest (tls\<lparr>t_written := x6\<rparr>) = output_rest tls"
  "output_rest (tls\<lparr>t_sent := x7\<rparr>) = output_rest tls"
  "output_rest (tls\<lparr>t_calls := x8\<rparr>) = output_rest tls"
  "output_rest (tls\<lparr>t_last_activity := x9\<rparr>) = output_rest tls"
  "output_rest (tls\<lparr>t_timer_active := x10\<rparr>) = output_rest tls"
  "output_rest (tls\<lparr>t_timer_after := x11\<rparr>) = output_rest tls"
  "output_rest (tls\<lparr>t_error_handler := x12\<rparr>) = output_rest tls"
  "output_rest (tls\<lparr>t_timeout_handler := x13\<rparr>) = output_rest tls"
  "output_rest (tls\<lparr>t_drain_handler := x14\<rparr>) = output_rest tls"
  "output_rest (tls\<lparr>t_read_mode := x15\<rparr>) = output_rest tls"
  "output_rest (tls\<lparr>t_read_handler := x16\<rparr>) = output_rest tls"
  by (simp_all add: output_rest_def cong: option.case_cong)

definition begin_read :: "'h \<Rightarrow> nat \<Rightarrow> 'h tls \<Rightarrow> 'h tls" where
  "begin_read h n tls = kick ReadW EV_READ
     (tls\<lparr>t_read_mode := (if n = 0 then READ_LINE else READ_BYTES),
          t_input_size := (if n = 0 then LINE_BUFFER_SIZE else n), t_read_handler := Some h\<rparr>)"

definition line_written :: "string \<Rightarrow> 'h tls \<Rightarrow> 'h tls" where
  "line_written s tls = write_buffered LINE_TERMINATOR (write_buffered s tls)"

definition shut :: "'h tls \<Rightarrow> 'h tls" where
  "shut tls =
     (let tls = tls\<lparr>t_error_handler := None, t_timeout_handler := Default, t_drain_handler := Some StartShutdown\<rparr>
      in if is_active WriteW tls then tls else kick ShutdownW EV_WRITE tls)"

lemma tls_read_eq: "\<not> t_freed tls \<Longrightarrow> \<not> is_active ReadW tls \<Longrightarrow> tls_read h n tls = Ret (begin_read h n tls)"
  by (simp add: tls_read_def live_def begin_read_def Let_def)

lemma tls_write_line_eq: "\<not> t_freed tls \<Longrightarrow> tls_write_line s tls = Ret (line_written s tls)"
  by (simp add: tls_write_line_def live_def line_written_def)

lemma tls_write_eq: "\<not> t_freed tls \<Longrightarrow> tls_write d False tls = Ret (write_buffered d tls)"
  by (simp add: tls_write_def live_def)

lemma tls_shutdown_eq: "\<not> t_freed tls \<Longrightarrow> tls_shutdown tls = Ret (shut tls)"
  by (simp add: tls_shutdown_def tls_on_drain_def live_def shut_def Let_def run_drain_def start_shutdown_def
      kick_def ev_feed_event_def ev_io_start_def ev_io_set_def set_watcher_def is_active_def)

lemmas request_eqs = tls_read_eq tls_write_line_eq tls_write_eq tls_shutdown_eq

lemma write_buffered_fields [simp]:
  "view (write_buffered d tls) = view (tls\<lparr>t_written := t_written tls @ d\<rparr>)" "reading (write_buffered d tls) = reading tls"
  "read_idle (write_buffered d tls) = read_idle tls" "t_freed (write_buffered d tls) = t_freed tls"
  "t_written (write_buffered d tls) = t_written tls @ d"
  "t_drain_handler (write_buffered d tls) = t_drain_handler tls"
  "is_active w (write_buffered d tls) = (w = WriteW \<or> is_active w tls)"
  by (simp_all add: write_buffered_def watcher_defs view_def reading_def read_idle_def Let_def)

lemma line_written_fields [simp]:
  "view (line_written d tls) = view (tls\<lparr>t_written := t_written tls @ d @ LINE_TERMINATOR\<rparr>)" "reading (line_written d tls) = reading tls"
  "read_idle (line_written d tls) = read_idle tls" "t_freed (line_written d tls) = t_freed tls"
  "t_written (line_written d tls) = t_written tls @ d @ LINE_TERMINATOR"
  "t_drain_handler (line_written d tls) = t_drain_handler tls"
  "is_active w (line_written d tls) = (w = WriteW \<or> is_active w tls)"
  by (auto simp: line_written_def) (auto simp: write_buffered_def view_def watcher_defs Let_def)

lemma begin_read_fields [simp]:
  "view (begin_read h n tls) = view (tls\<lparr>t_read_handler := Some h\<rparr>)"
  "reading (begin_read h n tls) = Some (if n = 0 then (READ_LINE, LINE_BUFFER_SIZE) else (READ_BYTES, n))"
  "t_freed (begin_read h n tls) = t_freed tls" "t_written (begin_read h n tls) = t_written tls"
  "t_drain_handler (begin_read h n tls) = t_drain_handler tls"
  "is_active w (begin_read h n tls) = (w = ReadW \<or> is_active w tls)"
  by (simp_all add: begin_read_def watcher_defs view_def reading_def)

lemma shut_fields [simp]:
  "view (shut tls) = view (tls\<lparr>t_error_handler := None, t_timeout_handler := Default,
     t_drain_handler := Some StartShutdown\<rparr>)"
  "reading (shut tls) = reading tls" "read_idle (shut tls) = read_idle tls"
  "t_freed (shut tls) = t_freed tls" "t_written (shut tls) = t_written tls"
  "t_drain_handler (shut tls) = Some StartShutdown"
  "w \<noteq> ShutdownW \<Longrightarrow> is_active w (shut tls) = is_active w tls"
  by (auto simp: shut_def watcher_defs view_def reading_def read_idle_def Let_def)

lemma write_buffered_core:
  assumes "tls_core tls"
  shows "tls_core (write_buffered d tls)"
proof -
  let ?tls = "tls\<lparr>t_output_buffer := buffer_append (t_output_buffer tls) d, t_written := t_written tls @ d\<rparr>"
  have "tls_core ?tls"
    using assms by (auto simp: tls_core_def is_active_def cong: option.case_cong)
  moreover have "tls_core (kick WriteW EV_WRITE ?tls)" if "tls_core ?tls"
    by (rule tls_core_same[OF that]) (use that in \<open>auto simp: watcher_defs tls_core_def\<close>)
  ultimately show ?thesis by (simp add: write_buffered_def Let_def)
qed

lemma write_buffered_inv:
  assumes "tls_core tls" "d \<noteq> []" "is_active ShutdownW tls \<longrightarrow> t_drain_handler tls \<noteq> None"
  shows "tls_inv (write_buffered d tls)"
proof -
  have "buffer_size (t_output_buffer (write_buffered d tls)) = buffer_size (t_output_buffer tls) + length d"
    by (simp add: write_buffered_def watcher_defs buffer_size_def Let_def)
  then show ?thesis
    using write_buffered_core[OF assms(1), of d] assms(2,3) by (simp add: tls_inv_def)
qed

lemma line_written_inv:
  assumes "tls_core tls" "is_active ShutdownW tls \<longrightarrow> t_drain_handler tls \<noteq> None"
  shows "tls_inv (line_written s tls)"
  unfolding line_written_def
  by (rule write_buffered_inv) (use assms write_buffered_core in \<open>auto simp: LINE_TERMINATOR_def\<close>)

lemma tls_inv_core: "tls_inv tls \<Longrightarrow> tls_core tls \<and> (is_active ShutdownW tls \<longrightarrow> t_drain_handler tls \<noteq> None) \<and> \<not> t_freed tls"
  by (simp add: tls_inv_def tls_core_def)

lemma begin_read_inv:
  assumes "tls_inv tls" "read_idle tls"
  shows "tls_inv (begin_read h n tls)"
proof -
  have "request_ok (begin_read h n tls)"
    using assms(2) by (simp add: request_ok_def begin_read_def watcher_defs read_idle_def)
  moreover have "tls_core tls" using assms(1) by (simp add: tls_inv_def)
  then have "tls_core (begin_read h n tls)"
    by (rule tls_core_same) (use calculation in \<open>simp_all add: begin_read_def watcher_defs\<close>)
  ultimately show ?thesis
    using assms(1) by (auto simp: tls_inv_def) (auto simp: begin_read_def watcher_defs)
qed

lemma shut_inv:
  assumes "tls_inv tls"
  shows "tls_inv (shut tls)"
proof -
  let ?tls = "tls\<lparr>t_error_handler := None, t_timeout_handler := Default, t_drain_handler := Some StartShutdown\<rparr>"
  have core: "tls_core tls" using assms by (simp add: tls_inv_def)
  have "tls_core (shut tls)"
  proof (cases "is_active WriteW tls")
    case True
    then have "shut tls = ?tls" by (simp add: shut_def Let_def is_active_def)
    moreover have "tls_core ?tls"
      by (rule tls_core_same[OF core]) (use core in \<open>auto simp: tls_core_def is_active_def\<close>)
    ultimately show ?thesis by simp
  next
    case False
    then have "shut tls = kick ShutdownW EV_WRITE ?tls" by (simp add: shut_def Let_def is_active_def)
    moreover have "tls_core (kick ShutdownW EV_WRITE ?tls)"
      by (rule tls_core_same[OF core]) (use core in \<open>auto simp: tls_core_def watcher_defs\<close>)
    ultimately show ?thesis by simp
  qed
  then show ?thesis using assms
    by (auto simp: tls_inv_def) (auto simp: shut_def watcher_defs Let_def)
qed

end
