(* ===== verification/TlsEvents.thy ===== *)
theory TlsEvents
  imports Tls
begin

text \<open>
  What the callbacks of the TLS layer guarantee to its users, stated once as the locale
  \<open>tls_user\<close>: if every handler keeps an invariant of the user (\<open>good\<close>, on what the user sees
  of a connection and on its own state; \<open>gone\<close> once the connection is freed), then so does
  every callback of an active watcher, whatever OpenSSL answers. In particular no callback
  uses a freed connection, frees one twice, or issues a read request while one is pending.
\<close>

section \<open>OpenSSL's promises\<close>

text \<open>
  Documented behaviour: \<open>SSL_read\<close> and \<open>SSL_write\<close> succeed with at least one byte and at most
  those asked for.
\<close>

definition ssl_ok :: "ssl_env \<Rightarrow> bool" where
  "ssl_ok env \<longleftrightarrow>
     (\<forall>k n bs. ssl_read env k n = Inr bs \<longrightarrow> bs \<noteq> [] \<and> length bs \<le> n) \<and>
     (\<forall>k bs n. ssl_write env k bs = Inr n \<longrightarrow> 0 < n \<and> n \<le> length bs)"

lemma ssl_readD: "ssl_ok env \<Longrightarrow> ssl_read env k n = Inr bs \<Longrightarrow> bs \<noteq> [] \<and> length bs \<le> n"
  by (auto simp: ssl_ok_def)

lemma ssl_writeD: "ssl_ok env \<Longrightarrow> ssl_write env k bs = Inr n \<Longrightarrow> 0 < n \<and> n \<le> length bs"
  by (auto simp: ssl_ok_def)

section \<open>Steps inside a callback\<close>

lemma tls_core_watcher:
  assumes "tls_core tls" "w_active (ws ReadW) \<Longrightarrow> is_active ReadW tls"
  shows "tls_core (tls\<lparr>t_watcher := ws\<rparr>)"
  by (rule tls_core_same[OF assms(1)]) (use assms in \<open>auto simp: tls_core_def is_active_def\<close>)

lemma ev_io_stop_core [simp]: "tls_core tls \<Longrightarrow> tls_core (ev_io_stop w tls)"
  unfolding ev_io_stop_def set_watcher_def
  by (rule tls_core_watcher) (auto simp: is_active_def split: if_splits)

lemma tick_core [simp]: "tls_core (tls_tick tls) = tls_core tls"
  by (auto simp: tls_core_def tls_tick_def is_active_def cong: option.case_cong)

lemma tick_inv [simp]: "tls_inv (tls_tick tls) = tls_inv tls"
  by (simp add: tls_inv_def) (simp add: tls_tick_def is_active_def)

lemma activity_core [simp]: "tls_core (tls\<lparr>t_last_activity := x\<rparr>) = tls_core tls"
  by (auto simp: tls_core_def is_active_def cong: option.case_cong)

lemma timer_core [simp]:
  "tls_core (tls\<lparr>t_timer_active := a\<rparr>) = tls_core tls"
  "tls_core (ev_timer_start d tls) = tls_core tls"
  by (auto simp: tls_core_def is_active_def ev_timer_start_def cong: option.case_cong)

lemma activity_inv [simp]: "tls_inv (tls\<lparr>t_last_activity := x\<rparr>) = tls_inv tls"
  by (simp add: tls_inv_def) (simp add: is_active_def)

lemma timer_inv [simp]:
  "tls_inv (tls\<lparr>t_timer_active := a\<rparr>) = tls_inv tls"
  "tls_inv (ev_timer_start d tls) = tls_inv tls"
  by (simp_all add: tls_inv_def) (simp_all add: is_active_def ev_timer_start_def)

lemma timer_fields [simp]:
  "t_freed (ev_timer_start d tls) = t_freed tls" "is_active w (ev_timer_start d tls) = is_active w tls"
  "is_active w (tls\<lparr>t_timer_active := a\<rparr>) = is_active w tls"
  by (simp_all add: ev_timer_start_def is_active_def)

lemma view_updates [simp]:
  "view (tls_tick tls) = view tls" "view (tls\<lparr>t_last_activity := x\<rparr>) = view tls"
  "view (tls\<lparr>t_timer_active := a\<rparr>) = view tls" "view (ev_timer_start d tls) = view tls"
  "view (reset_watcher_state w tls) = view tls" "w \<noteq> InitW \<Longrightarrow> view (ev_io_stop w tls) = view tls"
  "w \<noteq> InitW \<Longrightarrow> view (kick w ev tls) = view tls" "is_active w tls \<Longrightarrow> view (wait_for w ev tls) = view tls"
  by (auto simp: view_def watcher_defs)

lemma input_view [simp]: "view (tls\<lparr>t_input := x\<rparr>) = view tls" "reading (tls\<lparr>t_input := x\<rparr>) = reading tls"
  by (simp_all add: view_def reading_def is_active_def)

lemma reading_updates [simp]:
  "reading (tls_tick tls) = reading tls" "reading (tls\<lparr>t_last_activity := x\<rparr>) = reading tls"
  "reading (tls\<lparr>t_timer_active := a\<rparr>) = reading tls" "reading (ev_timer_start d tls) = reading tls"
  "reading (reset_watcher_state w tls) = reading tls" "w \<noteq> ReadW \<Longrightarrow> reading (ev_io_stop w tls) = reading tls"
  "w \<noteq> ReadW \<Longrightarrow> reading (kick w ev tls) = reading tls"
  "is_active w tls \<Longrightarrow> reading (wait_for w ev tls) = reading tls"
  by (auto simp: reading_def watcher_defs)

text \<open>Nothing of a read request that is over is left.\<close>

definition fresh :: "'h tls \<Rightarrow> bool" where
  "fresh tls \<longleftrightarrow> is_active ReadW tls \<or> t_input tls = None \<and> t_input_offset tls = 0"

lemma fresh_updates [simp]:
  "fresh (tls_tick tls) = fresh tls" "fresh (tls\<lparr>t_last_activity := x\<rparr>) = fresh tls"
  "fresh (tls\<lparr>t_timer_active := a\<rparr>) = fresh tls" "fresh (ev_timer_start d tls) = fresh tls"
  "fresh (reset_watcher_state w tls) = fresh tls" "w \<noteq> ReadW \<Longrightarrow> fresh (ev_io_stop w tls) = fresh tls"
  "w \<noteq> ReadW \<Longrightarrow> fresh (kick w ev tls) = fresh tls"
  "is_active w tls \<Longrightarrow> fresh (wait_for w ev tls) = fresh tls"
  by (auto simp: fresh_def watcher_defs)

lemma fresh_reading: "reading tls = Some m \<Longrightarrow> fresh tls"
  by (simp add: fresh_def reading_def split: if_splits)

lemma fresh_idle: "reading tls = None \<Longrightarrow> fresh tls = read_idle tls"
  by (simp add: fresh_def reading_def read_idle_def split: if_splits)

lemma tick_active [simp]: "is_active w (tls_tick tls) = is_active w tls"
  "is_active w (tls\<lparr>t_last_activity := x\<rparr>) = is_active w tls"
  by (simp_all add: tls_tick_def is_active_def)

lemma reset_core [simp]: "tls_core tls \<Longrightarrow> tls_core (reset_watcher_state w tls)"
  unfolding reset_watcher_state_def ev_feed_event_def set_watcher_def
  by (auto intro!: tls_core_watcher simp: is_active_def split: if_splits)

lemma tls_inv_same:
  assumes "tls_inv tls" "tls_core tls'" "\<And>w. w \<noteq> ReadW \<Longrightarrow> is_active w tls' = is_active w tls"
    "t_output tls' = t_output tls" "t_output_buffer tls' = t_output_buffer tls"
    "t_drain_handler tls' = t_drain_handler tls"
  shows "tls_inv tls'"
  using assms by (auto simp: tls_inv_def)

lemma reset_fields [simp]:
  "is_active w' (reset_watcher_state w tls) = is_active w' tls"
  "t_output (reset_watcher_state w tls) = t_output tls"
  "t_output_buffer (reset_watcher_state w tls) = t_output_buffer tls"
  "t_drain_handler (reset_watcher_state w tls) = t_drain_handler tls"
  by (auto simp: watcher_defs)

lemma reset_inv [simp]: "tls_inv tls \<Longrightarrow> tls_inv (reset_watcher_state w tls)"
  by (rule tls_inv_same) (auto simp: tls_inv_def)

lemma wait_for_inv:
  assumes "tls_inv tls" "is_active w tls"
  shows "tls_inv (wait_for w ev tls)"
proof (rule tls_inv_same[OF assms(1)])
  show "tls_core (wait_for w ev tls)"
    using assms unfolding wait_for_def ev_io_start_def ev_io_stop_def ev_io_set_def set_watcher_def
    by (auto intro!: tls_core_watcher simp: is_active_def tls_inv_def split: if_splits)
qed (use assms(2) in \<open>auto simp: watcher_defs\<close>)

lemma ev_io_stop_fields [simp]:
  "is_active w' (ev_io_stop w tls) = (w' \<noteq> w \<and> is_active w' tls)"
  "t_output (ev_io_stop w tls) = t_output tls" "t_freed (ev_io_stop w tls) = t_freed tls"
  "t_output_buffer (ev_io_stop w tls) = t_output_buffer tls"
  "t_drain_handler (ev_io_stop w tls) = t_drain_handler tls"
  "t_line_too_long_handler (ev_io_stop w tls) = t_line_too_long_handler tls"
  "t_read_handler (ev_io_stop w tls) = t_read_handler tls"
  by (auto simp: watcher_defs)

lemma ev_io_stop_read_inv: "tls_inv tls \<Longrightarrow> tls_inv (ev_io_stop ReadW tls)"
  by (rule tls_inv_same) (auto simp: tls_inv_def)

lemma tls_inv_live: "tls_inv tls \<Longrightarrow> \<not> t_freed tls"
  by (simp add: tls_inv_def tls_core_def)

lemma input_object_inv:
  assumes "tls_inv tls" "t_read_mode tls = READ_BYTES \<Longrightarrow> length d = t_input_size tls + 1"
  shows "tls_inv (tls\<lparr>t_input := Some d\<rparr>)"
proof (rule tls_inv_same[OF assms(1)])
  have core: "tls_core tls" using assms(1) by (simp add: tls_inv_def)
  show "tls_core (tls\<lparr>t_input := Some d\<rparr>)"
    by (rule tls_core_same[OF core])
      (use core assms(2) in \<open>auto simp: is_active_def tls_core_def request_ok_def split: read_mode.splits\<close>)
qed (simp_all add: is_active_def)

lemma output_done_ok:
  assumes "tls_core tls" "output_rest tls = []" "is_active WriteW tls"
    "is_active ShutdownW tls \<longrightarrow> t_drain_handler tls \<noteq> None"
  shows "\<exists>tls'. output_done tls = Ret tls' \<and> tls_inv tls' \<and> view tls' = view tls \<and> reading tls' = reading tls \<and>
    fresh tls' = fresh tls \<and> (is_active WriteW tls' \<longleftrightarrow> buffer_size (t_output_buffer tls') > 0)"
proof -
  let ?tls = "tls\<lparr>t_output := None, t_output_size := 0, t_output_offset := 0\<rparr>"
  have "request_ok tls \<Longrightarrow> request_ok ?tls" by simp
  then have core: "tls_core ?tls"
    using assms(1,2) by (auto simp: tls_core_def is_active_def output_rest_def)
  have v: "view ?tls = view tls" "reading ?tls = reading tls" "is_active w ?tls = is_active w tls"
    "fresh ?tls = fresh tls" "t_drain_handler ?tls = t_drain_handler tls" "t_freed ?tls = t_freed tls" for w
    by (simp_all add: view_def reading_def is_active_def fresh_def)
  have live: "live ?tls = Ret ()" "live (ev_io_stop WriteW ?tls) = Ret ()" using assms(1) by (simp_all add: live_def tls_core_def)
  show ?thesis
  proof (cases "buffer_size (t_output_buffer tls) = 0")
    case False
    then have "output_done tls = Ret ?tls" by (simp add: output_done_def Let_def)
    moreover have "tls_inv ?tls" using core assms(3,4) v(3,5) False by (simp add: tls_inv_def)
    ultimately show ?thesis using v assms(3) False by (simp add: v)
  next
    case True
    let ?stop = "ev_io_stop WriteW ?tls"
    have score: "tls_core ?stop" by (rule ev_io_stop_core[OF core])
    show ?thesis
    proof (cases "t_drain_handler tls")
      case None
      then have "output_done tls = Ret ?stop" using True by (simp add: output_done_def Let_def)
      moreover have "tls_inv ?stop"
        using score assms(4) None v(3) True by (simp add: tls_inv_def)
      ultimately show ?thesis using v True by simp
    next
      case (Some d)
      let ?kick = "kick ShutdownW EV_WRITE ?stop"
      have "output_done tls = Ret ?kick" using True Some live(2)
        by (cases d) (simp add: output_done_def Let_def run_drain_def start_shutdown_def)
      moreover have "tls_core ?kick"
        using score unfolding kick_def ev_feed_event_def ev_io_start_def ev_io_set_def set_watcher_def
        by (auto intro!: tls_core_watcher simp: is_active_def)
      then have "tls_inv ?kick"
        using Some True by (simp add: tls_inv_def) (simp add: watcher_defs)
      moreover have "view ?kick = view tls" "reading ?kick = reading tls" "fresh ?kick = fresh tls" using v by simp_all
      moreover have "\<not> is_active WriteW ?kick" "buffer_size (t_output_buffer ?kick) = 0"
        using True by (simp_all add: watcher_defs)
      ultimately show ?thesis by auto
    qed
  qed
qed

lemma tls_slurp_ok:
  assumes "tls_inv tls" "is_active WriteW tls"
  shows "\<exists>tls'. tls_slurp tls = Ret tls' \<and> tls_inv tls' \<and> view tls' = view tls \<and> reading tls' = reading tls \<and>
    fresh tls' = fresh tls \<and> (\<forall>w. is_active w tls' = is_active w tls) \<and> t_output tls' \<noteq> None \<and> t_calls tls' = t_calls tls"
proof (cases "t_output tls")
  case (Some d)
  then show ?thesis using assms(1) by (simp add: tls_slurp_def)
next
  case None
  have core: "tls_core tls" using assms(1) by (simp add: tls_inv_def)
  then have bi: "buf_inv (t_output_buffer tls)" by (simp add: tls_core_def)
  from buffer_slurp_correct[OF bi] obtain m b where
    b: "buffer_slurp (t_output_buffer tls) = Ret (m, length (buffer_bytes (t_output_buffer tls)), b)"
      "length (buffer_bytes (t_output_buffer tls)) \<le> length m"
      "take (length (buffer_bytes (t_output_buffer tls))) m = buffer_bytes (t_output_buffer tls)"
      "buf_inv b" "buffer_bytes b = []" by blast
  let ?tls = "tls\<lparr>t_output := Some m, t_output_size := length (buffer_bytes (t_output_buffer tls)), t_output_buffer := b\<rparr>"
  have "tls_core ?tls"
    using core b None by (auto simp: tls_core_def output_rest_def is_active_def)
  then have "tls_inv ?tls"
    using assms by (simp add: tls_inv_def) (simp add: is_active_def)
  moreover have "view ?tls = view tls" "reading ?tls = reading tls" "\<forall>w. is_active w ?tls = is_active w tls"
    "fresh ?tls = fresh tls"
    by (simp_all add: view_def reading_def is_active_def fresh_def)
  ultimately show ?thesis using None b(1) by (simp add: tls_slurp_def)
qed

lemma sent_inv:
  assumes "tls_inv tls" "t_output tls \<noteq> None" "n \<le> length (output_rest tls)"
  defines "tls' \<equiv> (output_sent n tls)\<lparr>t_output_offset := t_output_offset tls + n\<rparr>"
  shows "tls_inv tls'" "output_rest tls' = drop n (output_rest tls)" "view tls' = view tls"
    "reading tls' = reading tls" "is_active w tls' = is_active w tls" "t_freed tls' = t_freed tls"
    "length (output_rest tls) = t_output_size tls - t_output_offset tls"
    "output_done tls' = output_done (output_sent n tls)" "fresh tls' = fresh tls"
proof -
  obtain d where d: "t_output tls = Some d" using assms(2) by blast
  have core: "tls_core tls" using assms(1) by (simp add: tls_inv_def)
  then have sz: "t_output_offset tls \<le> t_output_size tls" "t_output_size tls \<le> length d"
    using d by (auto simp: tls_core_def)
  then show len: "length (output_rest tls) = t_output_size tls - t_output_offset tls"
    using d by (simp add: output_rest_def)
  show rest: "output_rest tls' = drop n (output_rest tls)"
    using d by (simp add: output_rest_def tls'_def output_sent_def drop_take add.commute)
  have td: "take n (output_rest tls) @ drop n (output_rest tls) @ b = output_rest tls @ b" for b
    by (metis append_assoc append_take_drop_id)
  have "tls_core tls'"
    using core d assms(3) rest len sz
    by (auto simp: tls_core_def tls'_def output_sent_def is_active_def td)
  then show "tls_inv tls'"
    by (rule tls_inv_same[OF assms(1)]) (simp_all add: tls'_def output_sent_def is_active_def)
qed (simp_all add: tls'_def output_sent_def view_def reading_def is_active_def output_done_def fresh_def Let_def)

lemma tick_output [simp]: "output_rest (tls_tick tls) = output_rest tls" "t_output (tls_tick tls) = t_output tls"
  "t_output_offset (tls_tick tls) = t_output_offset tls" "t_output_size (tls_tick tls) = t_output_size tls"
  by (simp_all add: tls_tick_def)


text \<open>What a read handler is given: a terminated line, or the bytes asked for and a NUL.\<close>

fun data_fits :: "read_mode \<times> nat \<Rightarrow> bytes \<Rightarrow> bool" where
  "data_fits (READ_LINE, n) d = (NUL \<in> set d)"
| "data_fits (READ_BYTES, n) d = (length d = n + 1 \<and> d ! n = NUL)"

lemma stop_all_io_fields [simp]:
  "\<not> is_active w (stop_all_io tls)" "t_freed (stop_all_io tls) = t_freed tls"
  "\<not> is_active InitW tls \<Longrightarrow> view (stop_all_io tls) = view tls"
  by (cases w; auto simp: watcher_defs) (auto simp: watcher_defs view_def)

lemma stop_if_active_core [simp]: "tls_core tls \<Longrightarrow> tls_core (stop_if_active w tls)"
  by (simp add: stop_if_active_def)

lemma stop_all_io_core [simp]: "tls_core tls \<Longrightarrow> tls_core (stop_all_io tls)"
  by (simp add: stop_all_io_def)

definition asleep :: "'h tls \<Rightarrow> bool" where
  "asleep tls \<longleftrightarrow> (\<forall>w. \<not> is_active w tls) \<and> \<not> t_timer_active tls"

lemma tls_free_eq: "\<not> t_freed tls \<Longrightarrow> \<exists>tls'. tls_free tls = Ret tls' \<and> t_freed tls' \<and> asleep tls'"
proof -
  have "\<not> is_active w ((stop_all_io tls)\<lparr>t_timer_active := a, t_freed := b\<rparr>)"
    "\<not> is_active w ((stop_all_io tls)\<lparr>t_freed := b\<rparr>)" for w a b
    using stop_all_io_fields(1)[of w tls] by (simp_all add: is_active_def)
  then show "\<not> t_freed tls \<Longrightarrow> ?thesis"
    by (simp add: tls_free_def live_def Let_def asleep_def)
qed

lemma viewD:
  assumes "view tls' = view tls"
  shows "t_id tls' = t_id tls" "t_addr tls' = t_addr tls" "t_peer tls' = t_peer tls"
    "t_connect_handler tls' = t_connect_handler tls" "t_read_handler tls' = t_read_handler tls"
    "t_drain_handler tls' = t_drain_handler tls" "t_error_handler tls' = t_error_handler tls"
    "t_timeout_handler tls' = t_timeout_handler tls" "t_freed tls' = t_freed tls"
    "t_line_too_long_handler tls' = t_line_too_long_handler tls" "t_auto_die tls' = t_auto_die tls"
    "is_active InitW tls' = is_active InitW tls"
    "t_written tls' = t_written tls"
  using assms by (simp_all add: view_def)

section \<open>The users of the TLS layer\<close>

text \<open>
  How a callback may end: with the invariants kept, or with the connection freed and none of
  its watchers active any more, or with the program, for one of the reasons in \<open>fatal\<close>; a
  TLS error is one of them exactly on a \<open>TLS_AUTO_DIE\<close> connection.
\<close>

definition tls_settled :: "string set \<Rightarrow> ('h tls \<Rightarrow> 'g \<Rightarrow> bool) \<Rightarrow> ('g \<Rightarrow> bool) \<Rightarrow> ('h tls \<times> 'g) outcome \<Rightarrow> bool" where
  "tls_settled fatal good gone r =
     (case r of
        Die e \<Rightarrow> e \<in> fatal
      | Ret (tls, g) \<Rightarrow> if t_freed tls then gone g \<and> asleep tls else tls_inv tls \<and> good tls g)"

lemma tls_settled_simps [simp]:
  "tls_settled fatal good gone (Die e) = (e \<in> fatal)"
  "tls_settled fatal good gone (Ret (tls, g)) =
     (if t_freed tls then gone g \<and> asleep tls else tls_inv tls \<and> good tls g)"
  by (simp_all add: tls_settled_def)

text \<open>The data a read callback hands on, or how it ended without.\<close>

definition read_result ::
  "string set \<Rightarrow> ('h tls \<Rightarrow> 'g \<Rightarrow> bool) \<Rightarrow> ('g \<Rightarrow> bool) \<Rightarrow> 'h tls \<Rightarrow> 'g \<Rightarrow> (bytes option \<times> 'h tls \<times> 'g) outcome \<Rightarrow> bool" where
  "read_result fatal good gone tls g r =
     (case r of
        Die e \<Rightarrow> e \<in> fatal
      | Ret (None, tls', g') \<Rightarrow> tls_settled fatal good gone (Ret (tls', g'))
      | Ret (Some d, tls', g') \<Rightarrow> g' = g \<and> \<not> t_freed tls' \<and> view tls' = view tls \<and>
          tls_inv (ev_io_stop ReadW tls') \<and> read_idle (ev_io_stop ReadW tls') \<and>
          data_fits (the (reading tls)) d)"

lemma read_result_none:
  "tls_settled fatal good gone r \<Longrightarrow>
   read_result fatal good gone tls g (obind r (\<lambda>(tls, g). Ret (None, tls, g)))"
  by (cases r) (auto simp: read_result_def)

lemma read_result_view:
  "read_result fatal good gone tls1 g r \<Longrightarrow> view tls1 = view tls \<Longrightarrow> reading tls1 = reading tls \<Longrightarrow>
   read_result fatal good gone tls g r"
  by (auto simp: read_result_def split: outcome.splits prod.splits option.splits)

text \<open>Replacing what a read request works on, once the request is over.\<close>

lemma read_over_inv:
  assumes "tls_inv tls" "buf_inv b"
  shows "tls_inv (ev_io_stop ReadW (tls\<lparr>t_input_buffer := b, t_input := i, t_input_size := s, t_input_offset := off\<rparr>))"
proof (rule tls_inv_same[OF assms(1)])
  show "tls_core (ev_io_stop ReadW (tls\<lparr>t_input_buffer := b, t_input := i, t_input_size := s, t_input_offset := off\<rparr>))"
    using assms by (auto simp: tls_inv_def tls_core_def watcher_defs cong: option.case_cong)
qed (auto simp: watcher_defs)

lemma input_buffer_inv:
  assumes "tls_inv tls" "buf_inv b"
  shows "tls_inv (tls\<lparr>t_input_buffer := b\<rparr>)"
  by (rule tls_inv_same[OF assms(1)])
    (use assms in \<open>auto simp: tls_inv_def tls_core_def is_active_def cong: option.case_cong\<close>)

locale tls_user =
  fixes run :: "('h, 'g) run"
    and good :: "'h tls \<Rightarrow> 'g \<Rightarrow> bool"
    and gone :: "'g \<Rightarrow> bool"
    and fatal :: "string set"
  assumes good_view: "good tls g \<Longrightarrow> view tls' = view tls \<Longrightarrow> reading tls' = reading tls \<Longrightarrow>
      fresh tls' = fresh tls \<Longrightarrow> good tls' g"
    and good_auto: "good tls g \<Longrightarrow> t_auto_die tls \<longleftrightarrow> TLS_FATAL \<in> fatal"
    and closing: "good tls g \<Longrightarrow> t_drain_handler tls \<noteq> None \<Longrightarrow> gone g"
    and quiet: "good tls g \<Longrightarrow> TLS_FATAL \<notin> fatal \<Longrightarrow> t_error_handler tls = None \<or>
      t_timeout_handler tls = Default \<or> t_line_too_long_handler tls = Default \<Longrightarrow> gone g"
    and starting: "good tls g \<Longrightarrow> is_active InitW tls \<Longrightarrow> t_timeout_handler tls = Default"
    and on_error: "tls_core tls \<Longrightarrow> good tls g \<Longrightarrow> t_error_handler tls = Some h \<Longrightarrow>
      \<exists>tls' g'. run h None tls g = Ret (tls', g') \<and> \<not> t_freed tls' \<and> gone g'"
    and on_read: "tls_inv tls \<Longrightarrow> read_idle tls \<Longrightarrow> good tls0 g \<Longrightarrow> reading tls0 = Some m \<Longrightarrow>
      view tls = view tls0 \<Longrightarrow> t_read_handler tls = Some h \<Longrightarrow> data_fits m d \<Longrightarrow>
      tls_settled fatal good gone (run h (Some d) tls g)"
    and on_timeout: "tls_core tls \<Longrightarrow> (\<And>w. \<not> is_active w tls) \<Longrightarrow> good tls0 g \<Longrightarrow>
      view tls = view tls0 \<Longrightarrow> t_timeout_handler tls = User h \<Longrightarrow>
      tls_settled fatal good gone (run h None tls g)"
    and on_line_too_long: "tls_inv tls \<Longrightarrow> \<not> is_active ReadW tls \<Longrightarrow> good tls0 g \<Longrightarrow>
      reading tls0 \<noteq> None \<Longrightarrow> view tls = view tls0 \<Longrightarrow> t_line_too_long_handler tls = User h \<Longrightarrow>
      tls_settled fatal good gone (run h None tls g)"
begin

abbreviation ok :: "('h tls \<times> 'g) outcome \<Rightarrow> bool" where
  "ok \<equiv> tls_settled fatal good gone"

lemma complain_ok:
  assumes "good tls g"
  shows "complain tls = (if TLS_FATAL \<in> fatal then Die TLS_FATAL else Ret ())"
  using good_auto[OF assms] by (simp add: complain_def)

lemma free_ok:
  assumes "tls_core tls" "gone g"
  shows "ok (obind (tls_free tls) (\<lambda>tls. Ret (tls, g)))"
  using tls_free_eq[of tls] assms by (auto simp: tls_core_def)

lemma tls_failed_ok:
  assumes "tls_core tls" "good tls g"
  shows "ok (tls_failed run tls g)"
proof (cases "t_error_handler tls")
  case None
  then show ?thesis using free_ok[OF assms(1) quiet[OF assms(2)]] complain_ok[OF assms(2)] None
    by (cases "TLS_FATAL \<in> fatal") (simp_all add: tls_failed_def)
next
  case (Some h)
  from on_error[OF assms Some] obtain tls1 g1 where
    r: "run h None tls g = Ret (tls1, g1)" "\<not> t_freed tls1" "gone g1" by blast
  with tls_free_eq[of tls1] show ?thesis
    by (auto simp: tls_failed_def Some complain_ok[OF assms(2)])
qed

lemma check_tls_error_ok:
  assumes "tls_inv tls" "good tls g" "is_active w tls"
  shows "ok (check_tls_error run w err tls g)"
proof -
  have core: "tls_core tls" and l: "live tls = Ret ()" using assms(1) by (simp_all add: tls_inv_def tls_core_def live_def)
  have w: "ok (Ret (wait_for w ev tls, g))" for ev
    using wait_for_inv[OF assms(1,3), of ev] tls_inv_live[OF wait_for_inv[OF assms(1,3), of ev]]
      good_view[OF assms(2)] assms(3) by simp
  have f: "ok (tls_failed run tls g)" using tls_failed_ok[OF core assms(2)] .
  have i: "ok (Ret (tls, g))" using assms(1,2) tls_inv_live[OF assms(1)] by simp
  show ?thesis
    using w f i by (cases err) (simp_all add: check_tls_error_def l)
qed

abbreviation rd :: "'h tls \<Rightarrow> 'g \<Rightarrow> (bytes option \<times> 'h tls \<times> 'g) outcome \<Rightarrow> bool" where
  "rd \<equiv> read_result fatal good gone"

lemma read_line_loop_ok:
  assumes "ssl_ok env" "tls_inv tls" "good tls g" "reading tls = Some (READ_LINE, n)"
    and "r = run"
  shows "rd tls g (read_line_loop env r tls g)"
  using assms
proof (induction env r tls g rule: read_line_loop.induct)
  case (1 env r tls g)
  have core: "tls_core tls" and bi: "buf_inv (t_input_buffer tls)" and rq: "request_ok tls"
    using 1(3,5) by (auto simp: tls_inv_def tls_core_def reading_def split: if_splits)
  have mode: "t_input_offset tls = 0" "is_active ReadW tls" "t_read_mode tls = READ_LINE"
    using rq 1(5) by (auto simp: request_ok_def reading_def split: if_splits)
  show ?case
  proof (cases "LF \<in> set (buffer_bytes (t_input_buffer tls))")
    case True
    with buffer_read_line_correct[OF bi] obtain m buf' where
      m: "buffer_read_line (t_input_buffer tls) = Ret (Some m, buf')" "NUL \<in> set m" "buf_inv buf'" by auto
    have "line_received m buf' tls = tls\<lparr>t_input_buffer := buf', t_input := None, t_input_size := 0, t_input_offset := 0\<rparr>"
      using mode(1) by (cases tls) (simp add: line_received_def)
    with m read_over_inv[OF 1(3) m(3), where i = None and s = 0 and off = 0] tls_inv_live[OF 1(3)] mode 1(5) show ?thesis
      by (subst read_line_loop.simps) (auto simp: read_result_def view_def is_active_def read_idle_def watcher_defs)
  next
    case False
    then have n: "buffer_read_line (t_input_buffer tls) = Ret (None, t_input_buffer tls)"
      using buffer_read_line_correct[OF bi] by simp
    show ?thesis
    proof (cases "buffer_size (t_input_buffer tls) + t_input_size tls > LINE_MAX_SIZE")
      case long: True
      let ?tls = "ev_io_stop ReadW tls"
      have d: "ok (run_default r (t_line_too_long_handler tls) ?tls g)" if "TLS_FATAL \<notin> fatal"
      proof (cases "t_line_too_long_handler tls")
        case Default
        then show ?thesis using free_ok[of ?tls g] quiet[OF 1(4) that] core by (simp add: run_default_def)
      next
        case (User h)
        have "ok (run h None ?tls g)"
          by (rule on_line_too_long[OF ev_io_stop_read_inv[OF 1(3)] _ 1(4)])
            (use 1(5) User in simp_all)
        then show ?thesis by (simp add: run_default_def User 1(6))
      qed
      have "rd tls g (obind (complain tls) (\<lambda>_.
          obind (run_default r (t_line_too_long_handler tls) ?tls g) (\<lambda>(tls, g). Ret (None, tls, g))))"
        using complain_ok[OF 1(4)] read_result_none[OF d] by (cases "TLS_FATAL \<in> fatal") (auto simp: read_result_def)
      then show ?thesis using long n by (subst read_line_loop.simps) simp
    next
      case short: False
      show ?thesis
      proof (cases "ssl_read env (t_calls tls) (t_input_size tls)")
        case (Inl err)
        have "ok (check_tls_error r ReadW err (tls_tick tls) g)"
          unfolding 1(6) by (rule check_tls_error_ok) (use 1(3) mode(2) good_view[OF 1(4)] in simp_all)
        then show ?thesis using n short Inl read_result_none by (subst read_line_loop.simps) simp
      next
        case (Inr bs)
        let ?tls = "(tls_tick tls)\<lparr>t_input_buffer := buffer_append (t_input_buffer tls) bs\<rparr>"
        have bs: "bs \<noteq> []" using ssl_readD[OF 1(2) Inr] by simp
        have v: "view ?tls = view tls" "reading ?tls = reading tls"
          by (simp_all add: view_def reading_def tls_tick_def is_active_def)
        have fr: "fresh ?tls = fresh tls" by (simp add: fresh_def tls_tick_def is_active_def)
        have "rd ?tls g (read_line_loop env r ?tls g)"
          by (rule 1(1)[OF n refl refl short Inr bs 1(2)])
            (use 1(3,5,6) bi v fr good_view[OF 1(4)] input_buffer_inv[of "tls_tick tls"] in simp_all)
        then have "rd tls g (read_line_loop env r ?tls g)" using v by (rule read_result_view)
        then show ?thesis using n short Inr bs by (subst read_line_loop.simps) simp
      qed
    qed
  qed
qed

lemma read_bytes_loop_ok:
  assumes "ssl_ok env" "tls_inv tls" "good tls g" "reading tls = Some (READ_BYTES, n)"
    and "t_input tls \<noteq> None" "r = run"
  shows "rd tls g (read_bytes_loop env r tls g)"
  using assms
proof (induction env r tls g rule: read_bytes_loop.induct)
  case (1 env r tls g)
  have core: "tls_core tls" and rq: "request_ok tls"
    using 1(3,5) by (auto simp: tls_inv_def tls_core_def reading_def split: if_splits)
  obtain d where d: "t_input tls = Some d" using 1(6) by blast
  have mode: "t_input_offset tls < t_input_size tls" "is_active ReadW tls" "t_read_mode tls = READ_BYTES"
    "length d = t_input_size tls + 1" "t_input_size tls = n"
    using rq 1(5) d by (auto simp: request_ok_def reading_def split: if_splits)
  let ?todo = "t_input_size tls - t_input_offset tls"
  show ?case
  proof (cases "ssl_read env (t_calls tls) ?todo")
    case (Inl err)
    have "ok (check_tls_error r ReadW err (tls_tick tls) g)"
      unfolding 1(7)
      by (rule check_tls_error_ok) (use 1(3) mode(2) good_view[OF 1(4)] in simp_all)
    then show ?thesis using Inl read_result_none by (subst read_bytes_loop.simps) simp
  next
    case (Inr bs)
    have bs: "bs \<noteq> []" "length bs \<le> ?todo" using ssl_readD[OF 1(2) Inr] by simp_all
    define d' where "d' = memcpy_at (t_input_offset tls) bs d"
    have d': "length d' = n + 1" using bs(2) mode by (simp add: d'_def)
    let ?tls1 = "(tls_tick tls)\<lparr>t_input := Some d'\<rparr>"
    show ?thesis
    proof (cases "length bs < ?todo")
      case True
      let ?tls = "?tls1\<lparr>t_input_offset := t_input_offset tls + length bs\<rparr>"
      have v: "view ?tls = view tls" "reading ?tls = reading tls"
        by (simp_all add: view_def reading_def tls_tick_def is_active_def)
      have fr: "fresh ?tls = fresh tls" using 1(5) v(2) fresh_reading by metis
      have "tls_core ?tls"
        by (rule tls_core_same[OF core])
          (use True mode d' rq in \<open>simp_all add: tls_tick_def is_active_def request_ok_def\<close>)
      then have inv: "tls_inv ?tls"
        by (rule tls_inv_same[OF 1(3)]) (simp_all add: tls_tick_def is_active_def)
      have "rd ?tls g (read_bytes_loop env r ?tls g)"
        using 1(1)[OF refl Inr refl bs(1) True 1(2)] inv v fr good_view[OF 1(4)] 1(5,7)
        by (simp add: d d'_def tls_tick_def)
      then have "rd tls g (read_bytes_loop env r ?tls g)" using v by (rule read_result_view)
      then show ?thesis using Inr bs(1) True d
        by (subst read_bytes_loop.simps) (simp add: Let_def d'_def tls_tick_def)
    next
      case False
      let ?tls = "?tls1\<lparr>t_input := None, t_input_size := 0, t_input_offset := 0\<rparr>"
      let ?data = "d'[n := NUL]"
      have r: "read_bytes_loop env r tls g = Ret (Some ?data, ?tls, g)"
        using Inr bs(1) False d d' mode(5)
        by (subst read_bytes_loop.simps) (simp add: Let_def d'_def tls_tick_def)
      have i: "tls_inv (ev_io_stop ReadW (tls\<lparr>t_input_buffer := t_input_buffer tls, t_input := None,
          t_input_size := 0, t_input_offset := 0\<rparr>))"
        by (rule read_over_inv[OF 1(3)]) (use core in \<open>simp add: tls_core_def\<close>)
      have "tls_inv (ev_io_stop ReadW ?tls)"
        by (rule tls_inv_same[OF i])
          (use i in \<open>auto simp: tls_inv_def tls_tick_def watcher_defs tls_core_def cong: option.case_cong\<close>)
      moreover have "read_idle (ev_io_stop ReadW ?tls)" by (simp add: read_idle_def watcher_defs)
      moreover have "view ?tls = view tls" by (simp add: view_def tls_tick_def is_active_def)
      ultimately show ?thesis
        using r d' 1(5) tls_inv_live[OF 1(3)] by (simp add: read_result_def tls_tick_def)
    qed
  qed
qed

lemma write_loop_ok:
  assumes "ssl_ok env" "tls_inv tls" "good tls g" "is_active WriteW tls" "r = run"
  shows "ok (tls_write_loop env r tls g)"
  using assms
proof (induction env r tls g rule: tls_write_loop.induct)
  case (1 env r tls g)
  from tls_slurp_ok[OF 1(4,6)] obtain tls1 where
    s: "tls_slurp tls = Ret tls1" "tls_inv tls1" "view tls1 = view tls" "reading tls1 = reading tls"
      "is_active WriteW tls1" "t_output tls1 \<noteq> None" "fresh tls1 = fresh tls" using 1(6) by blast
  have g1: "good tls1 g" using good_view[OF 1(5)] s(3,4,7) by simp
  let ?todo = "t_output_size tls1 - t_output_offset tls1"
  let ?t = "tls_tick tls1"
  have gt: "good ?t g" using good_view[OF g1] by simp
  show ?case
  proof (cases "ssl_write env (t_calls tls1) (output_rest tls1)")
    case (Inl err)
    have "ok (check_tls_error r WriteW err ?t g)"
      unfolding 1(7) by (rule check_tls_error_ok) (use s(2,5) gt in simp_all)
    then show ?thesis using s(1) Inl by (subst tls_write_loop.simps) (simp add: Let_def)
  next
    case (Inr n)
    have n: "0 < n" "n \<le> length (output_rest ?t)" using ssl_writeD[OF 1(3) Inr] by simp_all
    have ti: "tls_inv ?t" "t_output ?t \<noteq> None" using s by simp_all
    note sent = sent_inv[OF ti n(2)]
    let ?next = "(output_sent n ?t)\<lparr>t_output_offset := t_output_offset ?t + n\<rparr>"
    have g2: "good ?next g" using good_view[OF gt] sent(3,4,9) by simp
    show ?thesis
    proof (cases "n < ?todo")
      case True
      have "ok (tls_write_loop env r ?next g)"
        using 1(1)[OF s(1) refl Inr _ True 1(3)] n(1) sent(1,5) g2 s(5) 1(7) by simp
      then show ?thesis using s(1) Inr n(1) True
        by (subst tls_write_loop.simps) (simp add: Let_def)
    next
      case False
      then have "output_rest ?next = []" using sent(2,7) by simp
      moreover have "tls_core ?next" "is_active ShutdownW ?next \<longrightarrow> t_drain_handler ?next \<noteq> None"
        using tls_inv_core[OF sent(1)] by simp_all
      ultimately obtain tls3 where o: "output_done (output_sent n ?t) = Ret tls3" "tls_inv tls3"
        "view tls3 = view ?next" "reading tls3 = reading ?next"
        "is_active WriteW tls3 \<longleftrightarrow> buffer_size (t_output_buffer tls3) > 0" "fresh tls3 = fresh ?next"
        using output_done_ok[of ?next] sent(5,8) s(5) by auto
      have l: "live tls3 = Ret ()" "\<not> t_freed tls3" using tls_inv_live[OF o(2)] by (simp_all add: live_def)
      have g3: "good tls3 g" using good_view[OF g2] o(3,4,6) by simp
      show ?thesis
      proof (cases "buffer_size (t_output_buffer tls3) > 0")
        case True
        have "ok (tls_write_loop env r tls3 g)"
          using 1(2)[OF s(1) refl Inr _ False o(1) l(1) True 1(3) o(2) g3] o(5) True n(1) 1(7) by simp
        then show ?thesis using s(1) Inr n(1) False o(1) l(1) True
          by (subst tls_write_loop.simps) (simp add: Let_def)
      next
        case empty: False
        then show ?thesis using s(1) Inr n(1) False o(1,2) l g3
          by (subst tls_write_loop.simps) (simp add: Let_def)
      qed
    qed
  qed
qed

theorem tls_write_cb_ok:
  assumes "ssl_ok env" "tls_inv tls" "good tls g" "is_active WriteW tls"
  shows "ok (tls_write_cb env run tls g)"
proof -
  let ?tls = "(reset_watcher_state ReadW tls)\<lparr>t_last_activity := t_now tls\<rparr>"
  have "t_now (reset_watcher_state ReadW tls) = t_now tls" by (simp add: watcher_defs)
  moreover have "good ?tls g" using good_view[OF assms(3)] by simp
  moreover have "is_active WriteW ?tls" using assms(4) by (simp add: watcher_defs)
  ultimately show ?thesis
    using write_loop_ok[OF assms(1), of ?tls g run] assms(2) tls_inv_live[OF assms(2)]
    by (simp add: tls_write_cb_def live_def Let_def)
qed

theorem tls_shutdown_cb_ok:
  assumes "tls_inv tls" "good tls g" "is_active ShutdownW tls"
  shows "ok (tls_shutdown_cb env run tls g)"
proof -
  have loop: "ok (shutdown_loop run z a tls g)"
    if "tls_inv tls" "good tls g" "is_active ShutdownW tls" for z a and tls :: "'h tls"
  proof (induction z)
    case 0
    have "gone g" using that closing tls_inv_core[OF that(1)] by blast
    then show ?case
      using check_tls_error_ok[OF that] free_ok[of tls g] tls_inv_core[OF that(1)] by (cases a) auto
  qed simp
  let ?tls = "tls_tick (tls\<lparr>t_last_activity := t_now tls\<rparr>)"
  have "tls_inv ?tls" "good ?tls g" "is_active ShutdownW ?tls"
    using assms good_view[OF assms(2)] by simp_all
  from loop[OF this] show ?thesis
    using tls_inv_live[OF assms(1)] by (simp add: tls_shutdown_cb_def live_def Let_def split: prod.split)
qed

theorem tls_read_cb_ok:
  assumes "ssl_ok env" "tls_inv tls" "good tls g" "is_active ReadW tls"
  shows "ok (tls_read_cb env run tls g)"
proof -
  let ?tls = "(reset_watcher_state WriteW tls)\<lparr>t_last_activity := t_now tls\<rparr>"
  have now: "t_now (reset_watcher_state WriteW tls) = t_now tls" by (simp add: watcher_defs)
  have f: "t_read_mode ?tls = t_read_mode tls" "t_input_size ?tls = t_input_size tls" "t_input ?tls = t_input tls"
    "t_read_handler ?tls = t_read_handler tls" "is_active ReadW ?tls" "view ?tls = view tls" "reading ?tls = reading tls"
    "fresh ?tls = fresh tls"
    using assms(4) by (simp_all add: watcher_defs view_def reading_def fresh_def)
  have inv: "tls_inv ?tls" using assms(2) by simp
  have gd: "good ?tls g" using good_view[OF assms(3)] f(6-8) by simp
  have rd0: "reading tls = Some (t_read_mode tls, t_input_size tls)" using assms(4) by (simp add: reading_def)
  obtain h where h: "t_read_handler tls = Some h"
    using assms(2,4) by (auto simp: tls_inv_def tls_core_def request_ok_def)
  let ?obj = "\<lambda>k. if t_input ?tls = None then ?tls\<lparr>t_input := Some (replicate k undefined)\<rparr> else ?tls"
  have obj: "tls_inv (?obj k)" "view (?obj k) = view tls" "reading (?obj k) = reading tls" "good (?obj k) g"
    if "t_read_mode tls = READ_BYTES \<Longrightarrow> k = t_input_size tls + 1" for k
  proof -
    show "tls_inv (?obj k)" using inv that f(1,2) by (auto intro!: input_object_inv)
    show v: "view (?obj k) = view tls" "reading (?obj k) = reading tls"
      using f(6,7) by simp_all
    have "fresh (?obj k)" using fresh_reading[of "?obj k"] v(2) rd0 by simp
    then show "good (?obj k) g"
      using good_view[OF assms(3) v] fresh_reading[OF rd0] by simp
  qed
  let ?read = "if t_read_mode ?tls = READ_LINE then read_line env run ?tls g else read_bytes env run ?tls g"
  have "rd tls g ?read"
  proof (cases "t_read_mode tls")
    case READ_LINE
    have "rd (?obj (t_input_size tls)) g (read_line_loop env run (?obj (t_input_size tls)) g)"
      by (rule read_line_loop_ok[OF assms(1)]) (use obj[of "t_input_size tls"] READ_LINE rd0 in auto)
    then have "rd tls g (read_line_loop env run (?obj (t_input_size tls)) g)"
      by (rule read_result_view) (use obj[of "t_input_size tls"] READ_LINE in auto)
    moreover have "?read = read_line_loop env run (?obj (t_input_size tls)) g"
      using READ_LINE f(1-3) by (simp add: read_line_def)
    ultimately show ?thesis by (simp only:)
  next
    case READ_BYTES
    have "rd (?obj (t_input_size tls + 1)) g (read_bytes_loop env run (?obj (t_input_size tls + 1)) g)"
      by (rule read_bytes_loop_ok[OF assms(1)]) (use obj[of "t_input_size tls + 1"] READ_BYTES rd0 in auto)
    then have "rd tls g (read_bytes_loop env run (?obj (t_input_size tls + 1)) g)"
      by (rule read_result_view) (use obj[of "t_input_size tls + 1"] in auto)
    moreover have "?read = read_bytes_loop env run (?obj (t_input_size tls + 1)) g"
      using READ_BYTES f(1-3) by (simp add: read_bytes_def)
    ultimately show ?thesis by (simp only:)
  qed
  moreover have eq: "tls_read_cb env run tls g = obind ?read (\<lambda>(data, tls, g).
      case data of None \<Rightarrow> Ret (tls, g)
      | Some d \<Rightarrow> obind (live tls) (\<lambda>_. case t_read_handler tls of None \<Rightarrow> Die ''NULL read handler''
          | Some h \<Rightarrow> run h (Some d) (ev_io_stop ReadW tls) g))"
    using tls_inv_live[OF assms(2)] by (simp add: tls_read_cb_def live_def Let_def now)
  moreover have handled: "ok (obind (live tls') (\<lambda>_. case t_read_handler tls' of None \<Rightarrow> Die ''NULL read handler''
          | Some h \<Rightarrow> run h (Some d) (ev_io_stop ReadW tls') g))"
    if "\<not> t_freed tls'" "view tls' = view tls" "tls_inv (ev_io_stop ReadW tls')"
      "read_idle (ev_io_stop ReadW tls')" "data_fits (the (reading tls)) d" for tls' d
  proof -
    have "t_read_handler tls' = Some h" using that(2) h by (simp add: view_def)
    moreover from this have "ok (run h (Some d) (ev_io_stop ReadW tls') g)"
      by (intro on_read[OF that(3,4) assms(3) rd0]) (use that rd0 in simp_all)
    ultimately show ?thesis using that(1) by (simp add: live_def)
  qed
  ultimately show ?thesis
  proof (cases "?read")
    case (Ret r)
    obtain data tls' g' where r: "r = (data, tls', g')" by (cases r) auto
    with Ret \<open>rd tls g ?read\<close> have "rd tls g (Ret (data, tls', g'))" by simp
    with handled[of tls'] show ?thesis unfolding eq Ret r
      by (cases data) (simp_all add: read_result_def)
  qed (simp add: read_result_def)
qed

theorem tls_timeout_cb_ok:
  assumes "tls_inv tls" "good tls g"
  shows "ok (tls_timeout_cb run (tls\<lparr>t_timer_active := False\<rparr>) g)"
proof -
  let ?tls = "tls\<lparr>t_timer_active := False\<rparr>"
  have core: "tls_core ?tls" and l: "live ?tls = Ret ()" using tls_inv_core[OF assms(1)] by (simp_all add: live_def)
  have gd: "good ?tls g" using good_view[OF assms(2)] by simp
  let ?diff = "t_last_activity tls + t_timeout tls - t_now tls"
  show ?thesis
  proof (cases "?diff > 0")
    case True
    have "ok (Ret (ev_timer_start ?diff ?tls, g))"
      using assms(1) good_view[OF gd] tls_inv_live[OF assms(1)] by simp
    then show ?thesis using True l by (simp add: tls_timeout_cb_def)
  next
    case False
    let ?stop = "ev_timer_start (t_timeout tls) (stop_all_io ?tls)"
    have t: "t_timeout (stop_all_io ?tls) = t_timeout tls" "t_timeout_handler (stop_all_io ?tls) = t_timeout_handler tls"
      by (simp_all add: watcher_defs)
    have sc: "tls_core ?stop" using stop_all_io_core[OF core] by simp
    have r: "tls_timeout_cb run ?tls g =
      obind (complain ?tls) (\<lambda>_. run_default run (t_timeout_handler tls) ?stop g)"
      using False l t by (simp add: tls_timeout_cb_def Let_def stop_all_io_def)
    have d: "ok (run_default run (t_timeout_handler tls) ?stop g)" if "TLS_FATAL \<notin> fatal"
    proof (cases "t_timeout_handler tls")
      case Default
      then show ?thesis using free_ok[OF sc] quiet[OF assms(2) that] by (simp add: run_default_def)
    next
      case (User h)
      then have "\<not> is_active InitW tls" using starting[OF assms(2)] by auto
      then have v: "view ?stop = view tls" by simp
      have w: "\<not> is_active w ?stop" for w by simp
      have "ok (run h None ?stop g)"
        by (rule on_timeout[OF sc w assms(2) v]) (simp add: ev_timer_start_def t User)
      then show ?thesis by (simp add: run_default_def User)
    qed
    then show ?thesis unfolding r using complain_ok[OF gd] by (cases "TLS_FATAL \<in> fatal") simp_all
  qed
qed

end

section \<open>Events and new connections\<close>

datatype conn_event = Handshake | Readable | Writable | Closable | TimedOut

text \<open>The loop calls back active watchers; a timer that fires is inactive when its callback runs.\<close>

fun conn_enabled :: "conn_event \<Rightarrow> 'h tls \<Rightarrow> bool" where
  "conn_enabled Handshake tls = is_active InitW tls"
| "conn_enabled Readable tls = is_active ReadW tls"
| "conn_enabled Writable tls = is_active WriteW tls"
| "conn_enabled Closable tls = is_active ShutdownW tls"
| "conn_enabled TimedOut tls = t_timer_active tls"

lemma now_fresh [simp]: "fresh (tls\<lparr>t_now := x\<rparr>) = fresh tls"
  by (simp add: fresh_def is_active_def)

lemma now_inv [simp]:
  "tls_inv (tls\<lparr>t_now := x\<rparr>) = tls_inv tls" "view (tls\<lparr>t_now := x\<rparr>) = view tls"
  "reading (tls\<lparr>t_now := x\<rparr>) = reading tls" "is_active w (tls\<lparr>t_now := x\<rparr>) = is_active w tls"
proof -
  have "request_ok (tls\<lparr>t_now := x\<rparr>) = request_ok tls" "output_rest (tls\<lparr>t_now := x\<rparr>) = output_rest tls"
    by (simp_all add: request_ok_def output_rest_def cong: option.case_cong read_mode.case_cong)
  then have "tls_core (tls\<lparr>t_now := x\<rparr>) = tls_core tls"
    by (simp add: tls_core_def is_active_def cong: option.case_cong)
  then show "tls_inv (tls\<lparr>t_now := x\<rparr>) = tls_inv tls"
    by (simp add: tls_inv_def is_active_def)
  show "view (tls\<lparr>t_now := x\<rparr>) = view tls" "reading (tls\<lparr>t_now := x\<rparr>) = reading tls"
    "is_active w (tls\<lparr>t_now := x\<rparr>) = is_active w tls"
    by (simp_all add: view_def reading_def is_active_def)
qed

lemma enabled_now [simp]: "conn_enabled ev (tls\<lparr>t_now := x\<rparr>) = conn_enabled ev tls"
  by (cases ev) simp_all

lemma new_conn_inv:
  assumes "t_freed tls = False" "t_input_buffer tls = buffer_new" "t_output_buffer tls = buffer_new"
    "t_output tls = None" "t_output_size tls = 0" "t_output_offset tls = 0" "t_sent tls = []" "t_written tls = []"
    "\<not> is_active ReadW tls" "\<not> is_active WriteW tls" "\<not> is_active ShutdownW tls" "t_drain_handler tls = None"
  shows "tls_inv tls"
  using assms by (simp add: tls_inv_def tls_core_def output_rest_def buffer_size_def) (simp add: buffer_new_def)

lemma tls_on_timeout_eq:
  "\<not> t_freed tls \<Longrightarrow> \<exists>a d l. tls_on_timeout h tls =
     Ret (tls\<lparr>t_timer_active := a, t_timer_after := d, t_timeout_handler := h, t_last_activity := l\<rparr>)"
  by (rule exI[of _ "t_timeout tls > 0"],
      rule exI[of _ "if t_timeout tls > 0 then t_timeout tls else t_timer_after tls"],
      rule exI[of _ "if t_timeout tls > 0 then t_now tls else t_last_activity tls"], cases tls)
    (simp add: tls_on_timeout_def live_def ev_timer_start_def)

text \<open>A zero-copy write: the output object is the data itself.\<close>

lemma tls_write_owned:
  assumes "tls_inv tls" "d \<noteq> []" "t_drain_handler tls = None"
  shows "\<exists>tls'. tls_write d True tls = Ret tls' \<and> tls_inv tls' \<and> reading tls' = reading tls \<and>
    view tls' = view (tls\<lparr>t_written := t_written tls @ d\<rparr>) \<and> read_idle tls' = read_idle tls"
proof (cases "t_output tls = None \<and> buffer_size (t_output_buffer tls) = 0")
  case False
  moreover have core: "tls_core tls" "\<not> t_freed tls" using tls_inv_core[OF assms(1)] by simp_all
  ultimately have "tls_write d True tls = Ret (write_buffered d tls)" by (auto simp: tls_write_def live_def)
  then show ?thesis using write_buffered_inv[OF core(1) assms(2)] tls_inv_core[OF assms(1)] by simp
next
  case True
  let ?tls = "kick WriteW EV_WRITE (tls\<lparr>t_output := Some d, t_output_size := length d, t_written := t_written tls @ d\<rparr>)"
  have core: "tls_core tls" and w: "\<not> is_active WriteW tls" "is_active ShutdownW tls \<longrightarrow> t_drain_handler tls \<noteq> None"
    using assms(1) True by (simp_all add: tls_inv_def)
  have "buffer_bytes (t_output_buffer tls) = []"
    using core True buffer_size_bytes by (auto simp: tls_core_def)
  then have "tls_core (tls\<lparr>t_output := Some d, t_output_size := length d, t_written := t_written tls @ d\<rparr>)"
    using core True by (auto simp: tls_core_def output_rest_def is_active_def)
  then have "tls_core ?tls"
    by (rule tls_core_same) (use \<open>tls_core (tls\<lparr>t_output := _, t_output_size := _, t_written := _\<rparr>)\<close>
      in \<open>auto simp: watcher_defs tls_core_def\<close>)
  then have "tls_inv ?tls" using w assms(3) by (simp add: tls_inv_def) (simp add: watcher_defs)
  moreover have "tls_write d True tls = Ret ?tls"
    using True w(1) tls_inv_live[OF assms(1)] by (simp add: tls_write_def live_def Let_def is_active_def)
  ultimately show ?thesis
    by (simp add: watcher_defs view_def reading_def read_idle_def)
qed

section \<open>Sample runs\<close>

text \<open>The definitions a run of a connection on a concrete environment unfolds.\<close>

lemmas tls_run_simps =
  BUFFER_BLOCK_SIZE_def buffer_new_def block_add_def block_remove_def block_detach_def
  write_last_def append_room_def buffer_append_def read_step_def buffer_read_def
  buffer_read_alloc_def buffer_find_char_def buffer_read_line_def buffer_read_chunk_def
  buffer_slurp_def buffer_size_def buffer_free_def tolower_def byte_diff_def chomp_def strchr_def
  strrchr_def SIZE_MODULUS_def concat_str_def strtok_next_def wordlist_def digit_char_def
  show_int_def is_space_def digit_val_def is_digit_in_def clamp_long_def to_int_def
  LINE_BUFFER_SIZE_def LINE_TERMINATOR_def tls_tick_def set_watcher_def is_active_def
  ev_io_start_def ev_io_stop_def ev_io_set_def ev_feed_event_def ev_timer_start_def
  stop_if_active_def kick_def live_def idle_watcher_def tls_new_def stop_all_io_def tls_free_def
  tls_read_def tls_read_line_def write_buffered_def tls_write_def tls_write_line_def
  start_shutdown_def run_drain_def tls_on_drain_def tls_on_error_def tls_on_timeout_def
  tls_on_line_too_long_def tls_shutdown_def tls_set_connection_id_def TLS_FATAL_def complain_def
  run_default_def wait_for_def tls_failed_def check_tls_error_def reset_watcher_state_def
  line_received_def read_line_def read_bytes_def tls_read_cb_def tls_slurp_def output_rest_def
  output_sent_def output_done_def tls_write_cb_def tls_shutdown_cb_def tls_timeout_cb_def
  tls_connect_cb_def tls_accept_cb_def accept_one_def initialize_openssl_def tls_client_start_def
  scan_descriptor_def tls_server_start_def tls_connect_def append_loop.simps read_loop.simps
  scan_block.simps strcasecmp.simps show_nat.simps read_line_loop.simps tls_write_loop.simps
  read_bytes_loop.simps Let_def LINE_MAX_SIZE_def memcpy_at_def store_def cstr_def

end
