(* ===== verification/Input.thy ===== *)
theory Input
  imports Buffer
begin

text \<open>
  The reader of the standard input, \<open>src/client/input.c\<close>. The answers of \<open>read(2)\<close> that are
  there to be had are a list; when it is used up, a read would block. The callback ends by
  calling one of the two handlers or by waiting, which is its result: the user of the reader
  runs the handler. An empty answer is the end of the file. Two ghost fields note all bytes
  that were read and all chunks that were delivered; the invariant \<open>input_ok\<close> says that the
  chunks are the pieces of the text between its separators.
\<close>

datatype stdin_answer = Got bytes | WouldBlock | Failed

type_synonym stdin = "stdin_answer list"

record input_state =
  i_active :: bool
  i_buffer :: buffer
  i_separator :: byte
  i_eof :: bool
  i_text :: bytes
  i_chunks :: "string list"

datatype input_action = Deliver bytes | AtEof | NotYet

text \<open>The two answers of \<open>fcntl\<close> can fail.\<close>

definition input_start :: "bool \<Rightarrow> bool \<Rightarrow> byte \<Rightarrow> input_state outcome" where
  "input_start getfl setfl separator =
     (if \<not> getfl then Die ''Cannot get standard input descriptor flags''
      else if \<not> setfl then Die ''Cannot mark standard input as non-blocking''
      else Ret \<lparr>i_active = False, i_buffer = buffer_new, i_separator = separator, i_eof = False,
               i_text = [], i_chunks = []\<rparr>)"

definition STDIN_FATAL :: string where "STDIN_FATAL = ''Cannot read from standard input''"

definition ready_chunk :: "input_state \<Rightarrow> (bytes option \<times> input_state) outcome" where
  "ready_chunk inp =
     obind (buffer_read_chunk (i_buffer inp) (i_separator inp)) (\<lambda>(chunk, buf).
       Ret (chunk, inp\<lparr>i_buffer := buf\<rparr>))"

text \<open>The watcher is stopped before the handler gets the chunk.\<close>

definition delivered :: "bytes \<Rightarrow> input_state \<Rightarrow> input_state" where
  "delivered chunk inp = inp\<lparr>i_active := False, i_chunks := i_chunks inp @ [cstr chunk]\<rparr>"

lemma delivered_fields [simp]:
  "i_buffer (delivered c inp) = i_buffer inp" "i_eof (delivered c inp) = i_eof inp"
  "i_separator (delivered c inp) = i_separator inp" "i_text (delivered c inp) = i_text inp"
  "i_chunks (delivered c inp) = i_chunks inp @ [cstr c]" "\<not> i_active (delivered c inp)"
  by (simp_all add: delivered_def)

fun input_read_cb :: "input_state \<Rightarrow> stdin \<Rightarrow> (input_action \<times> input_state \<times> stdin) outcome" where
  "input_read_cb inp [] =
     obind (ready_chunk inp) (\<lambda>(chunk, inp).
       case chunk of
         Some c \<Rightarrow> Ret (Deliver c, delivered c inp, [])
       | None \<Rightarrow> Ret (NotYet, inp, []))"
| "input_read_cb inp (a # as) =
     obind (ready_chunk inp) (\<lambda>(chunk, inp).
       case chunk of
         Some c \<Rightarrow> Ret (Deliver c, delivered c inp, a # as)
       | None \<Rightarrow>
           (case a of
              WouldBlock \<Rightarrow> Ret (NotYet, inp, as)
            | Failed \<Rightarrow> Die STDIN_FATAL
            | Got bs \<Rightarrow>
                if bs = [] then
                  let len = buffer_size (i_buffer inp); inp = inp\<lparr>i_eof := True\<rparr> in
                  if len > 0 then
                    obind (buffer_read (i_buffer inp) len) (\<lambda>(chunk, buf).
                      Ret (Deliver (chunk @ [NUL]), delivered (chunk @ [NUL]) (inp\<lparr>i_buffer := buf\<rparr>), as))
                  else Ret (AtEof, inp, as)
                else input_read_cb (inp\<lparr>i_buffer := buffer_append (i_buffer inp) bs,
                                      i_text := i_text inp @ bs\<rparr>) as))"

definition input_read_chunk :: "input_state \<Rightarrow> stdin \<Rightarrow> (input_action \<times> input_state \<times> stdin) outcome" where
  "input_read_chunk inp stdin =
     (if \<not> i_eof inp then input_read_cb (inp\<lparr>i_active := True\<rparr>) stdin
      else Ret (AtEof, inp, stdin))"

text \<open>What is to be read still, so that delivering a chunk takes something away from it.\<close>

definition input_left :: "input_state \<Rightarrow> stdin \<Rightarrow> (nat \<times> nat)" where
  "input_left inp stdin = (length stdin, bsize (i_buffer inp) + length (blocks (i_buffer inp)))"

lemma ready_chunk_Some:
  "ready_chunk inp = Ret (Some c, inp') \<Longrightarrow> snd (input_left inp' s) < snd (input_left inp s)"
  by (auto simp: ready_chunk_def input_left_def obind_eq_Ret dest: buffer_read_chunk_shrinks)

lemma input_read_cb_left:
  "input_read_cb inp as = Ret (Deliver c, inp', as') \<Longrightarrow>
     length as' < length as \<or>
     (as' = as \<and> snd (input_left inp' s) < snd (input_left inp s))"
proof (induction inp as rule: input_read_cb.induct)
  case (1 inp)
  then obtain ch inp1 where r: "ready_chunk inp = Ret (ch, inp1)" by (auto simp: obind_eq_Ret)
  with 1 have "ch = Some c" "inp' = delivered c inp1" "as' = []" by (auto split: option.splits)
  with ready_chunk_Some[of inp c inp1 s] r show ?case by (simp add: input_left_def)
next
  case (2 inp a as)
  from 2(2) obtain ch inp1 where r: "ready_chunk inp = Ret (ch, inp1)" by (auto simp: obind_eq_Ret)
  show ?case
  proof (cases ch)
    case (Some d)
    then show ?thesis using 2(2) r ready_chunk_Some[of inp d inp1 s]
      by (auto simp: input_left_def)
  next
    case None
    show ?thesis
    proof (cases a)
      case (Got bs)
      then show ?thesis using 2(2) r None 2(1)[OF r refl None Got]
        by (cases "bs = []") (auto simp: Let_def obind_eq_Ret split: if_splits)
    qed (use 2(2) r None in auto)
  qed
qed

lemma input_read_chunk_left:
  assumes "input_read_chunk inp as = Ret (Deliver c, inp', as')"
  shows "length as' < length as \<or> (as' = as \<and>
    bsize (i_buffer inp') + length (blocks (i_buffer inp')) < bsize (i_buffer inp) + length (blocks (i_buffer inp)))"
  using assms input_read_cb_left[of "inp\<lparr>i_active := True\<rparr>" as c inp' as']
  by (auto simp: input_read_chunk_def input_left_def split: if_splits)

section \<open>The chunks are the pieces of the text\<close>

function pieces :: "byte \<Rightarrow> bytes \<Rightarrow> bytes list" where
  "pieces c t =
     (if t = [] then [] else if c \<in> set t then before c t # pieces c (after c t) else [t])"
  by pat_completeness auto
termination
proof (relation "measure (\<lambda>(c, t). length t)", goal_cases)
  case (2 c t)
  then show ?case using arg_cong[OF before_after[of c t], of length] by simp
qed simp

declare pieces.simps [simp del]

lemma pieces_terminated:
  "(\<forall>p \<in> set ps. c \<notin> set p) \<Longrightarrow> pieces c (concat (map (\<lambda>p. p @ [c]) ps) @ r) = ps @ pieces c r"
  by (induction ps) (simp_all add: pieces.simps[of c "p @ c # q" for p q])

lemma pieces_end: "c \<notin> set r \<Longrightarrow> pieces c r = (if r = [] then [] else [r])"
  by (simp add: pieces.simps)

definition input_ok :: "input_state \<Rightarrow> bool" where
  "input_ok inp \<longleftrightarrow> buf_inv (i_buffer inp) \<and>
     (if i_eof inp then i_chunks inp = map cstr (pieces (i_separator inp) (i_text inp))
      else \<exists>ps. i_chunks inp = map cstr ps \<and> (\<forall>p \<in> set ps. i_separator inp \<notin> set p) \<and>
        i_text inp = concat (map (\<lambda>p. p @ [i_separator inp]) ps) @ buffer_bytes (i_buffer inp))"

definition input_step_ok :: "input_state \<Rightarrow> (input_action \<times> input_state \<times> stdin) outcome \<Rightarrow> bool" where
  "input_step_ok inp r =
     (case r of
        Die e \<Rightarrow> e = STDIN_FATAL
      | Ret (act, inp', as') \<Rightarrow> input_ok inp' \<and> i_separator inp' = i_separator inp \<and>
          (case act of
             Deliver c \<Rightarrow> i_chunks inp' = i_chunks inp @ [cstr c] \<and> \<not> i_active inp'
           | AtEof \<Rightarrow> i_chunks inp' = i_chunks inp \<and> i_eof inp'
           | NotYet \<Rightarrow> i_chunks inp' = i_chunks inp \<and> i_active inp' = i_active inp \<and> \<not> i_eof inp'))"

lemma input_step_ok_same:
  "i_separator inp' = i_separator inp \<Longrightarrow> i_chunks inp' = i_chunks inp \<Longrightarrow> i_active inp' = i_active inp \<Longrightarrow>
   input_step_ok inp' r = input_step_ok inp r"
  by (simp only: input_step_ok_def)

lemma input_start_ok: "input_start a b sep = Ret inp \<Longrightarrow> input_ok inp"
  by (auto simp: input_start_def input_ok_def split: if_splits)

lemma ready_chunk_none:
  assumes "buf_inv (i_buffer inp)" "i_separator inp \<notin> set (buffer_bytes (i_buffer inp))"
  shows "ready_chunk inp = Ret (None, inp)"
  using buffer_read_chunk_correct[OF assms(1), of "i_separator inp"] assms(2) by (simp add: ready_chunk_def)

lemma ready_chunk_some:
  assumes "buf_inv (i_buffer inp)" "i_separator inp \<in> set (buffer_bytes (i_buffer inp))"
  obtains m buf where "ready_chunk inp = Ret (Some m, inp\<lparr>i_buffer := buf\<rparr>)" "buf_inv buf"
    "cstr m = cstr (before (i_separator inp) (buffer_bytes (i_buffer inp)))"
    "buffer_bytes buf = after (i_separator inp) (buffer_bytes (i_buffer inp))"
  using buffer_read_chunk_correct[OF assms(1), of "i_separator inp"] assms(2) that
  by (auto simp: ready_chunk_def)

text \<open>A chunk that is ready is the next piece.\<close>

lemma delivered_ok:
  assumes "input_ok inp" "\<not> i_eof inp" "i_separator inp \<in> set (buffer_bytes (i_buffer inp))"
    and "buf_inv buf" "buffer_bytes buf = after (i_separator inp) (buffer_bytes (i_buffer inp))"
    and "cstr m = cstr (before (i_separator inp) (buffer_bytes (i_buffer inp)))"
  shows "input_ok (delivered m (inp\<lparr>i_buffer := buf\<rparr>))"
proof -
  let ?c = "i_separator inp" and ?b = "buffer_bytes (i_buffer inp)"
  obtain ps where ps: "i_chunks inp = map cstr ps" "\<forall>p \<in> set ps. ?c \<notin> set p"
    "i_text inp = concat (map (\<lambda>p. p @ [?c]) ps) @ ?b"
    using assms(1,2) by (auto simp: input_ok_def)
  have "i_text inp = concat (map (\<lambda>p. p @ [?c]) (ps @ [before ?c ?b])) @ after ?c ?b"
    using ps(3) before_after[OF assms(3)] by simp
  then show ?thesis using ps(1,2) assms(2,4-6) 
    by (auto simp: input_ok_def intro!: exI[of _ "ps @ [before ?c ?b]"])
qed

lemma input_read_cb_ok:
  assumes "input_ok inp" "\<not> i_eof inp"
  shows "input_step_ok inp (input_read_cb inp as)"
  using assms
proof (induction inp as rule: input_read_cb.induct)
  case (1 inp)
  then have bi: "buf_inv (i_buffer inp)" by (simp add: input_ok_def)
  show ?case
  proof (cases "i_separator inp \<in> set (buffer_bytes (i_buffer inp))")
    case True
    then show ?thesis using 1 delivered_ok[OF 1(1,2) True]
      by (auto simp: input_step_ok_def elim!: ready_chunk_some[OF bi])
  next
    case False
    then show ?thesis using 1 ready_chunk_none[OF bi] by (simp add: input_step_ok_def)
  qed
next
  case (2 inp a as)
  then have bi: "buf_inv (i_buffer inp)" by (simp add: input_ok_def)
  show ?case
  proof (cases "i_separator inp \<in> set (buffer_bytes (i_buffer inp))")
    case True
    then show ?thesis using 2(2,3) delivered_ok[OF 2(2,3) True]
      by (auto simp: input_step_ok_def elim!: ready_chunk_some[OF bi])
  next
    case False
    note r = ready_chunk_none[OF bi False]
    obtain ps where ps: "i_chunks inp = map cstr ps" "\<forall>p \<in> set ps. i_separator inp \<notin> set p"
      "i_text inp = concat (map (\<lambda>p. p @ [i_separator inp]) ps) @ buffer_bytes (i_buffer inp)"
      using 2(2,3) by (auto simp: input_ok_def)
    have all: "pieces (i_separator inp) (i_text inp) = ps @
        (if buffer_bytes (i_buffer inp) = [] then [] else [buffer_bytes (i_buffer inp)])"
      using ps pieces_end[OF False] by (simp add: pieces_terminated)
    show ?thesis
    proof (cases a)
      case (Got bs)
      show ?thesis
      proof (cases "bs = []")
        case True
        obtain buf where rd: "buffer_read (i_buffer inp) (length (buffer_bytes (i_buffer inp))) =
            Ret (buffer_bytes (i_buffer inp), buf)" "buf_inv buf" "buffer_bytes buf = []"
          using buffer_read_correct[OF bi, of "length (buffer_bytes (i_buffer inp))"] by auto
        show ?thesis using Got True r 2(2,3) all ps(1) bi rd
          by (simp add: Let_def buffer_size_bytes input_step_ok_def)
            (auto simp: input_ok_def)
      next
        case ne: False
        let ?inp = "inp\<lparr>i_buffer := buffer_append (i_buffer inp) bs, i_text := i_text inp @ bs\<rparr>"
        have "input_ok ?inp" using ps bi 2(3) by (auto simp: input_ok_def)
        then have "input_step_ok ?inp (input_read_cb ?inp as)"
          using 2(1)[OF r refl refl Got ne] 2(3) by simp
        moreover have "input_step_ok inp x = input_step_ok ?inp x" for x
          by (rule input_step_ok_same[symmetric]) simp_all
        ultimately show ?thesis using Got ne r by simp
      qed
    qed (use r 2(2,3) in \<open>simp_all add: input_step_ok_def\<close>)
  qed
qed

lemma input_read_chunk_ok:
  assumes "input_ok inp"
  shows "input_step_ok (inp\<lparr>i_active := True\<rparr>) (input_read_chunk inp as)"
proof (cases "i_eof inp")
  case True
  then show ?thesis using assms by (simp add: input_read_chunk_def input_step_ok_def)
next
  case False
  have "input_ok (inp\<lparr>i_active := True\<rparr>)" using assms by (simp add: input_ok_def)
  then show ?thesis using False input_read_cb_ok[of "inp\<lparr>i_active := True\<rparr>" as]
    by (simp add: input_read_chunk_def)
qed

end
