(* ===== verification/ClientParse.thy ===== *)
theory ClientParse
  imports CString Numbers
begin

text \<open>
  The command builder of \<open>src/client/parse.c\<close>: \<open>parse_command\<close> for raw monitoring
  commands, \<open>parse_check_result\<close> for delimited check results, and \<open>escape\<close>. The
  current time is an argument. \<open>escape\<close> allocates the object it sized in a first pass
  and fills it byte by byte; a write outside the object would be \<open>Die\<close>, and the lemmas
  show that it never happens and that the text is the escaped input. The field loop keeps
  the source's arrays of offsets and lengths, and is shown equal to cutting the input at
  its first three delimiters.
\<close>

section \<open>Escaping\<close>

fun escape_size_loop :: "string \<Rightarrow> nat \<Rightarrow> nat" where
  "escape_size_loop [] n = n"
| "escape_size_loop (c # inp) n =
     escape_size_loop inp (if c = BACKSLASH \<or> c = LF then Suc n else n)"

fun escape_loop :: "string \<Rightarrow> bytes \<Rightarrow> nat \<Rightarrow> bytes outcome" where
  "escape_loop [] m out = store m out NUL"
| "escape_loop (c # inp) m out =
     (if c = BACKSLASH then
        obind (store m out BACKSLASH) (\<lambda>m.
        obind (store m (out + 1) BACKSLASH) (\<lambda>m. escape_loop inp m (out + 2)))
      else if c = LF then
        obind (store m out BACKSLASH) (\<lambda>m.
        obind (store m (out + 1) (CHR ''n'')) (\<lambda>m. escape_loop inp m (out + 2)))
      else obind (store m out c) (\<lambda>m. escape_loop inp m (out + 1)))"

definition escape :: "string \<Rightarrow> bytes outcome" where
  "escape inp =
     (let n = escape_size_loop inp (length inp + 1)
      in escape_loop inp (replicate n undefined) 0)"

section \<open>Commands\<close>

definition timestamp :: "nat \<Rightarrow> string" where
  "timestamp now = ''['' @ show_nat now @ ''] ''"

definition parse_command :: "nat \<Rightarrow> string \<Rightarrow> string" where
  "parse_command now line =
     (let line = skip_whitespace line in
      if deref line = CHR ''['' then line else timestamp now @ line)"

text \<open>
  \<open>fields\<close> are offsets into the input (NULL is \<open>None\<close>), \<open>lengths\<close> starts out
  uninitialised; \<open>n\<close> counts the fields found.
\<close>

record field_state =
  fs_n :: nat
  fs_start :: nat
  fs_lengths :: "nat list"
  fs_fields :: "nat option list"

function field_loop :: "string \<Rightarrow> byte \<Rightarrow> nat \<Rightarrow> field_state \<Rightarrow> field_state" where
  "field_loop inp delimiter pos st =
     (if fs_n st < 4 \<and> pos < length inp
      then field_loop inp delimiter (Suc pos)
        (if inp ! pos = delimiter
         then st\<lparr>fs_lengths := (fs_lengths st)[fs_n st - 1 := pos - fs_start st],
                 fs_start := Suc pos,
                 fs_fields := (fs_fields st)[fs_n st := Some (Suc pos)],
                 fs_n := Suc (fs_n st)\<rparr>
         else st)
      else st)"
  by pat_completeness auto
termination
  by (relation "measure (\<lambda>(inp, delimiter, pos, st). length inp - pos)") auto

declare field_loop.simps [simp del]

definition field_init :: field_state where
  "field_init = \<lparr>fs_n = 1, fs_start = 0, fs_lengths = replicate 3 undefined,
     fs_fields = [Some 0, None, None, None]\<rparr>"

text \<open>\<open>%s\<close> and \<open>%.*s\<close> of field \<open>k\<close>.\<close>

definition field_text :: "string \<Rightarrow> field_state \<Rightarrow> nat \<Rightarrow> string" where
  "field_text inp st k = drop (the (fs_fields st ! k)) inp"

definition field_part :: "string \<Rightarrow> field_state \<Rightarrow> nat \<Rightarrow> string" where
  "field_part inp st k = take (fs_lengths st ! k) (field_text inp st k)"

definition parse_check_result :: "nat \<Rightarrow> string \<Rightarrow> byte \<Rightarrow> string outcome" where
  "parse_check_result now inp delimiter =
     obind (if BACKSLASH \<in> set inp \<or> LF \<in> set inp
            then obind (escape inp) (\<lambda>m. Ret (cstr m)) else Ret inp) (\<lambda>inp.
     let st = field_loop inp delimiter 0 field_init in
     if fs_n st = 3 then
       Ret (timestamp now @ ''PROCESS_HOST_CHECK_RESULT;'' @
         field_part inp st 0 @ '';'' @ field_part inp st 1 @ '';'' @ field_text inp st 2)
     else if fs_n st = 4 then
       Ret (timestamp now @ ''PROCESS_SERVICE_CHECK_RESULT;'' @
         field_part inp st 0 @ '';'' @ field_part inp st 1 @ '';'' @ field_part inp st 2 @ '';'' @
         field_text inp st 3)
     else Die ''Input format incorrect, see the send_nsca(8) man page'')"

section \<open>What escaping computes\<close>

fun escape_text :: "string \<Rightarrow> string" where
  "escape_text [] = []"
| "escape_text (c # s) =
     (if c = BACKSLASH then [BACKSLASH, BACKSLASH]
      else if c = LF then [BACKSLASH, CHR ''n''] else [c]) @ escape_text s"

fun unescape_text :: "string \<Rightarrow> string" where
  "unescape_text (c # d # s) =
     (if c = BACKSLASH
      then (if d = CHR ''n'' then LF else d) # unescape_text s
      else c # unescape_text (d # s))"
| "unescape_text s = s"

lemma escape_size_loop_eq: "escape_size_loop s n + length s = n + length (escape_text s)"
proof (induction s arbitrary: n)
  case (Cons c s)
  then show ?case by (auto simp: Cons.IH[of "Suc n", simplified])
qed simp

lemma escape_text_no_LF [simp]: "LF \<notin> set (escape_text s)"
  by (induction s) auto

lemma escape_text_no_NUL: "NUL \<notin> set s \<Longrightarrow> NUL \<notin> set (escape_text s)"
  by (induction s) auto

lemma escape_text_id: "BACKSLASH \<notin> set s \<Longrightarrow> LF \<notin> set s \<Longrightarrow> escape_text s = s"
  by (induction s) auto

lemma unescape_plain: "c \<noteq> BACKSLASH \<Longrightarrow> unescape_text (c # s) = c # unescape_text s"
  by (cases s) auto

lemma unescape_escape: "unescape_text (escape_text s) = s"
  by (induction s) (auto simp: unescape_plain)

lemma memory_split: "out < length m \<Longrightarrow> m[out := c] = take out m @ c # drop (Suc out) m"
  by (simp add: upd_conv_take_nth_drop)

lemma escape_loop_correct:
  assumes "out + length (escape_text inp) < length m"
  shows "\<exists>m'. escape_loop inp m out = Ret m' \<and> length m' = length m \<and>
    take (out + length (escape_text inp) + 1) m' = take out m @ escape_text inp @ [NUL]"
  using assms
proof (induction inp arbitrary: m out)
  case Nil
  then show ?case by (simp add: memory_split take_Suc_conv_app_nth)
next
  case (Cons c inp)
  show ?case
  proof (cases "c = BACKSLASH \<or> c = LF")
    case True
    define d where "d = (if c = BACKSLASH then BACKSLASH else CHR ''n'')"
    let ?m = "m[out := BACKSLASH, Suc out := d]"
    have eq: "escape_loop (c # inp) m out = escape_loop inp ?m (out + 2)"
      using Cons.prems True by (auto simp: d_def)
    have "Suc out < length m" using Cons.prems True by auto
    then have "take (out + 2) ?m = take out m @ [BACKSLASH, d]"
      by (simp add: take_Suc_conv_app_nth)
    moreover have "escape_text (c # inp) = [BACKSLASH, d] @ escape_text inp"
      using True by (auto simp: d_def)
    ultimately show ?thesis
      using Cons.IH[of "out + 2" ?m] Cons.prems True unfolding eq by (auto simp: d_def)
  next
    case False
    let ?m = "m[out := c]"
    have eq: "escape_loop (c # inp) m out = escape_loop inp ?m (out + 1)"
      using Cons.prems False by simp
    have "take (out + 1) ?m = take out m @ [c]"
      using Cons.prems False by (simp add: take_Suc_conv_app_nth)
    then show ?thesis
      using Cons.IH[of "out + 1" ?m] Cons.prems False unfolding eq by auto
  qed
qed

lemma escape_correct:
  assumes "NUL \<notin> set inp"
  shows "\<exists>m. escape inp = Ret m \<and> length m = length (escape_text inp) + 1 \<and> cstr m = escape_text inp"
proof -
  have size: "escape_size_loop inp (length inp + 1) = length (escape_text inp) + 1"
    using escape_size_loop_eq[of inp "length inp + 1"] by simp
  obtain m where "escape inp = Ret m" "length m = length (escape_text inp) + 1"
    "take (length (escape_text inp) + 1) m = escape_text inp @ [NUL]"
    using escape_loop_correct[of 0 inp "replicate (length (escape_text inp) + 1) undefined"]
    unfolding escape_def Let_def size by auto
  then show ?thesis using escape_text_no_NUL[OF assms] by (auto simp: cstr_id)
qed

section \<open>What the field loop computes\<close>

text \<open>The input cut at its first \<open>k\<close> delimiters.\<close>

fun split_fields :: "byte \<Rightarrow> nat \<Rightarrow> string \<Rightarrow> string list" where
  "split_fields d 0 s = [s]"
| "split_fields d (Suc k) s =
     (if d \<in> set s then before d s # split_fields d k (after d s) else [s])"

text \<open>
  The state of the loop for fields found at known offsets: \<open>heads\<close> are the fields cut
  off, in order, each with its delimiter, in front of offset \<open>fs_start\<close>.
\<close>

fun field_offsets :: "nat \<Rightarrow> string list \<Rightarrow> nat list" where
  "field_offsets off [] = []"
| "field_offsets off (h # hs) = off # field_offsets (off + length h + 1) hs"

lemma length_field_offsets [simp]: "length (field_offsets off hs) = length hs"
  by (induction hs arbitrary: off) auto

lemma field_offsets_append:
  "field_offsets off (hs @ hs') =
   field_offsets off hs @ field_offsets (off + sum_list (map (\<lambda>h. length h + 1) hs)) hs'"
  by (induction hs arbitrary: off) (auto simp: add.assoc)

definition field_inv :: "string \<Rightarrow> byte \<Rightarrow> nat \<Rightarrow> field_state \<Rightarrow> string list \<Rightarrow> bool" where
  "field_inv inp d pos st hs \<longleftrightarrow>
     fs_n st = length hs + 1 \<and> length hs \<le> 3 \<and> length (fs_lengths st) = 3 \<and>
     length (fs_fields st) = 4 \<and>
     take (length hs) (fs_lengths st) = map length hs \<and>
     take (length hs + 1) (fs_fields st) = map Some (field_offsets 0 (hs @ [[]])) \<and>
     fs_start st = sum_list (map (\<lambda>h. length h + 1) hs) \<and>
     take (fs_start st) inp = concat (map (\<lambda>h. h @ [d]) hs) \<and>
     fs_start st \<le> pos \<and> pos \<le> length inp \<and>
     d \<notin> set (take (pos - fs_start st) (drop (fs_start st) inp))"

lemma part_at:
  "k < length hs \<Longrightarrow>
   take (length (hs ! k)) (drop (field_offsets (length p) hs ! k) (p @ concat (map (\<lambda>h. h @ [d]) hs) @ r)) = hs ! k"
proof (induction hs arbitrary: p k)
  case (Cons h hs)
  then show ?case using Cons.IH[of "k - 1" "p @ h @ [d]"] by (cases k) (auto simp: add.assoc)
qed simp

definition found :: "string \<Rightarrow> field_state \<Rightarrow> string list" where
  "found inp st = map (field_part inp st) [0..<fs_n st - 1] @ [field_text inp st (fs_n st - 1)]"

lemma found_inv:
  assumes "field_inv inp d pos st hs"
  shows "found inp st = hs @ [drop (fs_start st) inp]"
proof -
  have n: "fs_n st = length hs + 1" and l3: "length hs \<le> 3"
    and lens: "take (length hs) (fs_lengths st) = map length hs"
    and offs: "take (length hs + 1) (fs_fields st) = map Some (field_offsets 0 (hs @ [[]]))"
    and start: "fs_start st = sum_list (map (\<lambda>h. length h + 1) hs)"
    and pre: "take (fs_start st) inp = concat (map (\<lambda>h. h @ [d]) hs)"
    using assms by (auto simp: field_inv_def)
  have off: "fs_fields st ! k = Some (field_offsets 0 (hs @ [[]]) ! k)" if "k \<le> length hs" for k
    using arg_cong[OF offs, of "\<lambda>xs. xs ! k"] that by simp
  have inp: "inp = concat (map (\<lambda>h. h @ [d]) hs) @ drop (fs_start st) inp"
    using append_take_drop_id[of "fs_start st" inp] pre by simp
  have part: "field_part inp st k = hs ! k" if k: "k < length hs" for k
  proof -
    have "fs_lengths st ! k = length (hs ! k)"
      using arg_cong[OF lens, of "\<lambda>xs. xs ! k"] k by simp
    moreover have "field_offsets 0 (hs @ [[]]) ! k = field_offsets 0 hs ! k"
      using k by (simp add: field_offsets_append nth_append)
    moreover have "take (length (hs ! k)) (drop (field_offsets 0 hs ! k) inp) = hs ! k"
      using part_at[OF k, of "[]" d "drop (fs_start st) inp"] inp by simp
    ultimately show ?thesis using off[of k] k by (simp add: field_part_def field_text_def)
  qed
  have "field_text inp st (length hs) = drop (fs_start st) inp"
    using off[of "length hs"] start by (simp add: field_text_def field_offsets_append nth_append)
  moreover have "map (field_part inp st) [0..<length hs] = hs"
    using part by (intro nth_equalityI) auto
  ultimately show ?thesis by (simp add: found_def n)
qed

lemma field_inv_step:
  assumes inv: "field_inv inp d pos st hs" and "fs_n st < 4" "pos < length inp" and d: "inp ! pos = d"
  defines "h \<equiv> take (pos - fs_start st) (drop (fs_start st) inp)"
  shows "field_inv inp d (Suc pos)
    (st\<lparr>fs_lengths := (fs_lengths st)[fs_n st - 1 := pos - fs_start st], fs_start := Suc pos,
        fs_fields := (fs_fields st)[fs_n st := Some (Suc pos)], fs_n := Suc (fs_n st)\<rparr>) (hs @ [h])"
    "d \<notin> set h" "drop (fs_start st) inp = h @ d # drop (Suc pos) inp"
proof -
  have le: "fs_start st \<le> pos" and n: "fs_n st = length hs + 1" using inv by (auto simp: field_inv_def)
  have lh: "length h = pos - fs_start st" using assms(3) le by (simp add: h_def)
  show dh: "d \<notin> set h" using inv unfolding field_inv_def h_def by blast
  have "drop (fs_start st) inp = h @ drop pos inp"
    using append_take_drop_id[of "pos - fs_start st" "drop (fs_start st) inp"] le by (simp add: h_def)
  then show split: "drop (fs_start st) inp = h @ d # drop (Suc pos) inp"
    using assms(3) d by (simp flip: Cons_nth_drop_Suc)
  have "take (Suc pos) inp = take (fs_start st) inp @ h @ [d]"
    using take_split[of "fs_start st" "Suc pos" inp] le assms(3) lh
    by (simp add: split)
  then show "field_inv inp d (Suc pos)
    (st\<lparr>fs_lengths := (fs_lengths st)[fs_n st - 1 := pos - fs_start st], fs_start := Suc pos,
        fs_fields := (fs_fields st)[fs_n st := Some (Suc pos)], fs_n := Suc (fs_n st)\<rparr>) (hs @ [h])"
    using inv assms(2,3) le lh n
    by (clarsimp simp: field_inv_def take_Suc_conv_app_nth field_offsets_append)
qed

lemma field_loop_correct:
  assumes "field_inv inp d pos st hs"
  shows "found inp (field_loop inp d pos st) = hs @ split_fields d (3 - length hs) (drop (fs_start st) inp)
    \<and> fs_n (field_loop inp d pos st) = length (found inp (field_loop inp d pos st))"
  using assms
proof (induction inp d pos st arbitrary: hs rule: field_loop.induct)
  case (1 inp d pos st)
  have n: "fs_n st = length hs + 1" using "1.prems" by (simp add: field_inv_def)
  consider "fs_n st < 4" "pos < length inp" "inp ! pos = d" | "fs_n st < 4" "pos < length inp" "inp ! pos \<noteq> d"
    | "fs_n st = 4" | "fs_n st < 4" "pos = length inp"
    using "1.prems" by (fastforce simp: field_inv_def)
  then show ?case
  proof cases
    case 1
    obtain k where k: "3 - length hs = Suc k" "2 - length hs = k"
      using 1 n by (cases "3 - length hs") auto
    note s = field_inv_step[OF "1.prems" 1]
    have "split_fields d (3 - length hs) (drop (fs_start st) inp) =
      take (pos - fs_start st) (drop (fs_start st) inp) # split_fields d k (drop (Suc pos) inp)"
      unfolding k by (subst s(3)) (simp add: s(2))
    then show ?thesis
      using "1.IH"[of "hs @ [take (pos - fs_start st) (drop (fs_start st) inp)]"] 1 s(1) k
      by (simp add: field_loop.simps[of inp d pos st])
  next
    case 2
    have "field_inv inp d (Suc pos) st hs"
      using "1.prems" 2 by (auto simp: field_inv_def Suc_diff_le take_Suc_conv_app_nth)
    then show ?thesis using "1.IH"[of hs] 2 by (simp add: field_loop.simps[of inp d pos st])
  next
    case 3
    then show ?thesis using found_inv[OF "1.prems"] n by (simp add: field_loop.simps[of inp d pos st])
  next
    case 4
    have "d \<notin> set (take (pos - fs_start st) (drop (fs_start st) inp))"
      using "1.prems" unfolding field_inv_def by blast
    then have "d \<notin> set (drop (fs_start st) inp)" using 4 by simp
    moreover have "field_loop inp d pos st = st" by (subst field_loop.simps) (simp add: 4)
    ultimately show ?thesis using found_inv[OF "1.prems"] n 4
      by (cases "3 - length hs") simp_all
  qed
qed

lemma field_loop_found:
  "found inp (field_loop inp d 0 field_init) = split_fields d 3 inp"
  "fs_n (field_loop inp d 0 field_init) = length (split_fields d 3 inp)"
  using field_loop_correct[of inp d 0 field_init "[]"]
  by (simp_all add: field_inv_def field_init_def)

lemma found_texts:
  assumes "found inp st = xs" and "fs_n st = length xs"
  shows "k < length xs - 1 \<Longrightarrow> field_part inp st k = xs ! k"
    and "field_text inp st (length xs - 1) = xs ! (length xs - 1)"
proof -
  have "found inp st ! k = field_part inp st k" if "k < length xs - 1"
    using that assms(2) by (simp add: found_def nth_append)
  then show "k < length xs - 1 \<Longrightarrow> field_part inp st k = xs ! k" using assms(1) by simp
  have "found inp st ! (length xs - 1) = field_text inp st (length xs - 1)"
    using assms(2) by (simp add: found_def nth_append)
  then show "field_text inp st (length xs - 1) = xs ! (length xs - 1)" using assms(1) by simp
qed

lemma length_split_fields: "0 < length (split_fields d k s)" "length (split_fields d k s) \<le> Suc k"
  by (induction k arbitrary: s) auto

section \<open>Results\<close>

text \<open>What a check result of the given fields becomes; other numbers of fields are refused.\<close>

fun check_result_command :: "nat \<Rightarrow> string list \<Rightarrow> string outcome" where
  "check_result_command now [host, code, output] =
     Ret (timestamp now @ ''PROCESS_HOST_CHECK_RESULT;'' @ host @ '';'' @ code @ '';'' @ output)"
| "check_result_command now [host, service, code, output] =
     Ret (timestamp now @ ''PROCESS_SERVICE_CHECK_RESULT;'' @ host @ '';'' @ service @ '';'' @ code @
       '';'' @ output)"
| "check_result_command now _ = Die ''Input format incorrect, see the send_nsca(8) man page''"

lemma check_result_format:
  "(let st = field_loop inp d 0 field_init in
     if fs_n st = 3 then
       Ret (timestamp now @ ''PROCESS_HOST_CHECK_RESULT;'' @
         field_part inp st 0 @ '';'' @ field_part inp st 1 @ '';'' @ field_text inp st 2)
     else if fs_n st = 4 then
       Ret (timestamp now @ ''PROCESS_SERVICE_CHECK_RESULT;'' @
         field_part inp st 0 @ '';'' @ field_part inp st 1 @ '';'' @ field_part inp st 2 @ '';'' @
         field_text inp st 3)
     else Die ''Input format incorrect, see the send_nsca(8) man page'') =
   check_result_command now (split_fields d 3 inp)"
proof -
  let ?st = "field_loop inp d 0 field_init" and ?xs = "split_fields d 3 inp"
  note f = found_texts[OF field_loop_found[of inp d]] field_loop_found(2)[of inp d]
  have "length ?xs = 1 \<or> length ?xs = 2 \<or> length ?xs = 3 \<or> length ?xs = 4"
    using length_split_fields[where d = d and k = 3 and s = inp] by linarith
  then consider a where "?xs = [a]" | a b where "?xs = [a, b]" | a b c where "?xs = [a, b, c]"
    | a b c e where "?xs = [a, b, c, e]"
    by (auto simp: length_Suc_conv numeral_eq_Suc)
  then show ?thesis
    using f by cases (auto simp: Let_def eval_nat_numeral)
qed

lemma parse_check_result_eq:
  assumes "NUL \<notin> set inp"
  shows "parse_check_result now inp delimiter =
    check_result_command now (split_fields delimiter 3 (escape_text inp))"
proof (cases "BACKSLASH \<in> set inp \<or> LF \<in> set inp")
  case True
  obtain m where "escape inp = Ret m" "cstr m = escape_text inp"
    using escape_correct[OF assms] by blast
  with True show ?thesis by (simp add: parse_check_result_def check_result_format)
next
  case False
  then show ?thesis by (simp add: parse_check_result_def check_result_format escape_text_id)
qed

text \<open>
  Property C28. A check result is escaped, cut at its first three delimiters, and becomes the
  host check command (three fields) or the service check command (four fields), the fields
  separated by semicolons behind the bracketed time; one or two fields end the program with
  the usage hint. In particular the escaping pass never writes outside the memory it sized.
\<close>

theorem parse_check_result_correct:
  assumes "NUL \<notin> set inp"
  shows "parse_check_result now inp delimiter =
    check_result_command now (split_fields delimiter 3 (escape_text inp))"
  using assms by (rule parse_check_result_eq)

lemma parse_check_result_correct_witness:
  "parse_check_result 5 (''web'' @ [TAB] @ ''0'' @ [TAB] @ ''a'' @ [LF] @ ''b'') TAB =
   Ret (''[5] PROCESS_HOST_CHECK_RESULT;web;0;a'' @ [BACKSLASH] @ ''nb'')"
  using parse_check_result_correct[of "''web'' @ [TAB] @ ''0'' @ [TAB] @ ''a'' @ [LF] @ ''b''" 5 TAB]
  by (simp add: timestamp_def show_nat.simps numeral_3_eq_3 before_def after_def)

text \<open>
  Property C29. The escaping of newlines and backslashes is undone by reading
  backslash sequences back, and leaves no newline, so a command built from a check result is a
  single line whatever the check's output holds.
\<close>

theorem escape_roundtrip:
  assumes "NUL \<notin> set inp"
  shows "\<exists>m. escape inp = Ret m \<and> unescape_text (cstr m) = inp \<and> LF \<notin> set (cstr m)"
  using escape_correct[OF assms] by (auto simp: unescape_escape)

lemma escape_roundtrip_witness:
  "\<exists>m. escape [CHR ''a'', LF, BACKSLASH] = Ret m \<and> unescape_text (cstr m) = [CHR ''a'', LF, BACKSLASH] \<and>
     LF \<notin> set (cstr m)"
  by (rule escape_roundtrip) simp

lemma split_fields_set: "x \<in> set (split_fields d k s) \<Longrightarrow> set x \<subseteq> set s"
proof (induction k arbitrary: s)
  case (Suc k)
  have "set (before d s) \<subseteq> set s" "set (after d s) \<subseteq> set s" if "d \<in> set s"
    using that before_after[OF that] by (metis set_append set_subset_Cons Un_iff subsetI subset_trans)+
  with Suc show ?case by (fastforce split: if_splits)
qed simp

lemma parse_command_bracket: "deref (parse_command now line) = CHR ''[''"
  by (auto simp: parse_command_def Let_def timestamp_def)

end
