(* ===== verification/Client.thy ===== *)
theory Client
  imports TlsEvents Input ClientParse
begin

text \<open>
  The protocol client, \<open>src/client/client.c\<close>. It connects, introduces itself, and sends one
  command per non-empty chunk of the standard input, waiting for the server's answer before
  it reads the next; at the end of the input it quits. Its answers of the environment are the
  session ID (\<open>generate_session_id\<close>, the base64 text of random bytes), the time of each
  command, and whether \<open>fcntl\<close> succeeds. Four ghost fields note the commands that were
  announced, how many of them the server has confirmed, the standard input when its end
  was reached, and whether the server has confirmed the \<open>QUIT\<close>.
\<close>

section \<open>State\<close>

datatype client_mode = CLIENT_MODE_COMMAND | CLIENT_MODE_CHECK_RESULT

datatype client_handler =
  TlsConnect | TlsMoinResponse | TlsPushResponse | TlsCommandResponse | TlsQuitResponse

record client =
  c_tls :: bool
  c_input :: "input_state option"
  c_stdin :: stdin
  c_command :: bytes
  c_command_length :: nat
  c_mode :: client_mode
  c_delimiter :: byte
  c_separator :: byte
  c_freed :: bool
  c_exit_code :: int
  c_commands :: "bytes list"
  c_confirmed :: nat
  c_text :: "bytes option"
  c_quit :: bool

record client_env =
  ce_session_id :: string
  ce_time :: "nat \<Rightarrow> nat"
  ce_getfl :: bool
  ce_setfl :: bool

type_synonym cconn = "client_handler tls"

section \<open>Ends of the conversation\<close>

definition client_stop :: "cconn \<Rightarrow> client \<Rightarrow> (cconn \<times> client) outcome" where
  "client_stop tls g =
     (if c_freed g then Die ''double free of the client state''
      else
        let g = g\<lparr>c_input := None\<rparr> in
        obind (if c_tls g then tls_shutdown tls else Ret tls) (\<lambda>tls.
          Ret (tls, g\<lparr>c_freed := True\<rparr>)))"

definition send_request :: "cconn \<Rightarrow> string \<Rightarrow> cconn outcome" where
  "send_request tls request = tls_write_line request tls"

definition client_bail :: "string \<Rightarrow> cconn \<Rightarrow> client \<Rightarrow> (cconn \<times> client) outcome" where
  "client_bail message tls g =
     obind (tls_write ''BAIL '' False tls) (\<lambda>tls.
     obind (tls_write_line message tls) (\<lambda>tls.
     obind (client_stop tls g) (\<lambda>(tls, g).
       Ret (tls, g\<lparr>c_exit_code := EXIT_FAILURE\<rparr>))))"

definition server_is_grumpy :: "string \<Rightarrow> cconn \<Rightarrow> client \<Rightarrow> (bool \<times> cconn \<times> client) outcome" where
  "server_is_grumpy line tls g =
     (if strncasecmp ''FAIL'' line 4 = 0 \<or> strncasecmp ''BAIL'' line 4 = 0 then
        obind (client_stop tls g) (\<lambda>(tls, g).
          Ret (True, tls, g\<lparr>c_exit_code := EXIT_FAILURE\<rparr>))
      else Ret (False, tls, g))"

text \<open>What every handler does with a response it does not expect.\<close>

definition unexpected :: "string \<Rightarrow> string \<Rightarrow> cconn \<Rightarrow> client \<Rightarrow> (cconn \<times> client) outcome" where
  "unexpected message line tls g =
     obind (server_is_grumpy line tls g) (\<lambda>(grumpy, tls, g).
       if grumpy then Ret (tls, g) else client_bail message tls g)"

section \<open>Handlers\<close>

text \<open>
  The command made of a chunk. Its last byte, the terminating NUL, is overwritten by the
  newline, so that the object is no C string any more.
\<close>

definition build_command :: "client_env \<Rightarrow> string \<Rightarrow> client \<Rightarrow> (bytes \<times> nat) outcome" where
  "build_command env data g =
     obind (if c_mode g = CLIENT_MODE_CHECK_RESULT
            then parse_check_result (ce_time env (length (c_commands g))) (chomp data) (c_delimiter g)
            else Ret (parse_command (ce_time env (length (c_commands g))) data)) (\<lambda>command.
     obind (store (command @ [NUL]) (length command) LF) (\<lambda>m.
       Ret (m, length command + 1)))"

definition push_request :: "client_env \<Rightarrow> string \<Rightarrow> cconn \<Rightarrow> client \<Rightarrow> (cconn \<times> client) outcome" where
  "push_request env data tls g =
     obind (build_command env data g) (\<lambda>(command, len).
     let g = g\<lparr>c_command := command, c_command_length := len, c_commands := c_commands g @ [command]\<rparr> in
     obind (tls_write_line (''PUSH '' @ show_nat (len mod 2 ^ 32)) tls) (\<lambda>tls.
     obind (tls_read_line TlsPushResponse tls) (\<lambda>tls. Ret (tls, g))))"

definition handle_input_eof :: "input_state \<Rightarrow> cconn \<Rightarrow> client \<Rightarrow> (cconn \<times> client) outcome" where
  "handle_input_eof inp tls g =
     (let g = g\<lparr>c_input := None, c_text := Some (i_text inp)\<rparr> in
      obind (send_request tls ''QUIT'') (\<lambda>tls.
      obind (tls_read_line TlsQuitResponse tls) (\<lambda>tls. Ret (tls, g))))"

text \<open>
  What the reader of the standard input has to report goes to the client's two handlers; the
  one for chunks asks for the next chunk at once when it ignores an empty one.
\<close>

function handle_input ::
  "client_env \<Rightarrow> input_action \<Rightarrow> input_state \<Rightarrow> stdin \<Rightarrow> cconn \<Rightarrow> client \<Rightarrow> (cconn \<times> client) outcome" where
  "handle_input env NotYet inp stdin tls g = Ret (tls, g\<lparr>c_input := Some inp, c_stdin := stdin\<rparr>)"
| "handle_input env AtEof inp stdin tls g = handle_input_eof inp tls (g\<lparr>c_stdin := stdin\<rparr>)"
| "handle_input env (Deliver chunk) inp stdin tls g =
     (let data = skip_newlines (cstr chunk) in
      if deref data = NUL then
        obind (input_read_chunk inp stdin) (\<lambda>(act, inp, stdin). handle_input env act inp stdin tls g)
      else push_request env data tls (g\<lparr>c_input := Some inp, c_stdin := stdin\<rparr>))"
  by pat_completeness auto

termination
  by (relation "measures [\<lambda>(env, act, inp, stdin, tls, g). case act of Deliver c \<Rightarrow> 1 | _ \<Rightarrow> 0,
      \<lambda>(env, act, inp, stdin, tls, g). length stdin,
      \<lambda>(env, act, inp, stdin, tls, g). bsize (i_buffer inp) + length (blocks (i_buffer inp))]")
    (auto dest: input_read_chunk_left split: input_action.split)

definition read_input :: "client_env \<Rightarrow> cconn \<Rightarrow> client \<Rightarrow> (cconn \<times> client) outcome" where
  "read_input env tls g =
     (case c_input g of
        None \<Rightarrow> Die ''no input reader''
      | Some inp \<Rightarrow>
          obind (input_read_chunk inp (c_stdin g)) (\<lambda>(act, inp, stdin).
            handle_input env act inp stdin tls g))"

definition handle_tls_connect :: "client_env \<Rightarrow> cconn \<Rightarrow> client \<Rightarrow> (cconn \<times> client) outcome" where
  "handle_tls_connect env tls g =
     (let g = g\<lparr>c_tls := True\<rparr> in
      obind (tls_set_connection_id (ce_session_id env) tls) (\<lambda>tls.
      obind (send_request tls (''MOIN 1 '' @ ce_session_id env)) (\<lambda>tls.
      obind (tls_read_line TlsMoinResponse tls) (\<lambda>tls. Ret (tls, g)))))"

definition handle_tls_moin_response ::
  "client_env \<Rightarrow> string \<Rightarrow> cconn \<Rightarrow> client \<Rightarrow> (cconn \<times> client) outcome" where
  "handle_tls_moin_response env line tls g =
     (if strncasecmp ''MOIN'' line 4 = 0 then
        (let (parsed, args) = parse_line line 2 in
         if \<not> parsed then client_bail ''Cannot parse MOIN response'' tls g
         else
           let protocol_version = atoi (args ! 1) in
           if protocol_version \<le> 0 then client_bail ''Expected protocol version'' tls g
           else if protocol_version \<noteq> 1
           then client_bail (''Protocol version '' @ show_int protocol_version @ '' not supported'') tls g
           else
             obind (input_start (ce_getfl env) (ce_setfl env) (c_separator g)) (\<lambda>inp.
               read_input env tls (g\<lparr>c_input := Some inp\<rparr>)))
      else unexpected ''Received unexpected MOIN response'' line tls g)"

definition handle_tls_push_response :: "string \<Rightarrow> cconn \<Rightarrow> client \<Rightarrow> (cconn \<times> client) outcome" where
  "handle_tls_push_response line tls g =
     (if strcasecmp ''OKAY'' line = 0 then
        obind (tls_write (take (c_command_length g) (c_command g)) True tls) (\<lambda>tls.
        obind (tls_read_line TlsCommandResponse tls) (\<lambda>tls. Ret (tls, g)))
      else unexpected ''Received unexpected PUSH response'' line tls g)"

definition handle_tls_command_response ::
  "client_env \<Rightarrow> string \<Rightarrow> cconn \<Rightarrow> client \<Rightarrow> (cconn \<times> client) outcome" where
  "handle_tls_command_response env line tls g =
     (if strcasecmp ''OKAY'' line = 0 then read_input env tls (g\<lparr>c_confirmed := Suc (c_confirmed g)\<rparr>)
      else unexpected ''Received unexpected response after sending command(s)'' line tls g)"

definition handle_tls_quit_response :: "string \<Rightarrow> cconn \<Rightarrow> client \<Rightarrow> (cconn \<times> client) outcome" where
  "handle_tls_quit_response line tls g =
     (if strcasecmp ''OKAY'' line = 0 then client_stop tls (g\<lparr>c_quit := True\<rparr>)
      else unexpected ''Received unexpected QUIT response'' line tls g)"

fun client_run :: "client_env \<Rightarrow> (client_handler, client) run" where
  "client_run env TlsConnect data tls g = handle_tls_connect env tls g"
| "client_run env TlsMoinResponse data tls g = handle_tls_moin_response env (cstr (the data)) tls g"
| "client_run env TlsPushResponse data tls g = handle_tls_push_response (cstr (the data)) tls g"
| "client_run env TlsCommandResponse data tls g = handle_tls_command_response env (cstr (the data)) tls g"
| "client_run env TlsQuitResponse data tls g = handle_tls_quit_response (cstr (the data)) tls g"

section \<open>Start and events\<close>

definition client_init :: "client_mode \<Rightarrow> byte \<Rightarrow> byte \<Rightarrow> client" where
  "client_init mode delimiter separator =
     \<lparr>c_tls = False, c_input = None, c_stdin = [], c_command = [], c_command_length = 0, c_mode = mode,
      c_delimiter = delimiter, c_separator = (if mode = CLIENT_MODE_COMMAND then LF else separator),
      c_freed = False, c_exit_code = EXIT_SUCCESS, c_commands = [], c_confirmed = 0, c_text = None,
      c_quit = False\<rparr>"

definition client_start ::
  "openssl_env \<Rightarrow> ssl_env \<Rightarrow> client_env \<Rightarrow> string \<Rightarrow> string \<Rightarrow> real \<Rightarrow> real \<Rightarrow> client_mode \<Rightarrow> byte \<Rightarrow> byte
    \<Rightarrow> (cconn \<times> client) outcome" where
  "client_start os ssl env server ciphers timeout now mode delimiter separator =
     obind (tls_client_start os ciphers) (\<lambda>_.
       tls_connect os ssl (client_run env) server timeout now True TlsConnect Default
         (client_init mode delimiter separator))"

text \<open>What the event loop reports: a watcher or the timer of the connection, or that the standard
  input, whose reader waits for it, has given further answers.\<close>

datatype client_event = OnTls conn_event | OnStdin stdin

definition stdin_cb :: "client_env \<Rightarrow> cconn \<Rightarrow> client \<Rightarrow> (cconn \<times> client) outcome" where
  "stdin_cb env tls g =
     (case c_input g of
        None \<Rightarrow> Die ''no input reader''
      | Some inp \<Rightarrow>
          obind (input_read_cb inp (c_stdin g)) (\<lambda>(act, inp, stdin).
            handle_input env act inp stdin tls g))"

fun client_enabled :: "client_event \<Rightarrow> cconn \<Rightarrow> client \<Rightarrow> bool" where
  "client_enabled (OnTls ev) tls g = conn_enabled ev tls"
| "client_enabled (OnStdin as) tls g = (case c_input g of None \<Rightarrow> False | Some inp \<Rightarrow> i_active inp)"

fun client_handle ::
  "ssl_env \<Rightarrow> client_env \<Rightarrow> client_event \<Rightarrow> cconn \<Rightarrow> client \<Rightarrow> (cconn \<times> client) outcome" where
  "client_handle ssl env (OnTls Handshake) tls g = tls_connect_cb ssl (client_run env) False tls g"
| "client_handle ssl env (OnTls Readable) tls g = tls_read_cb ssl (client_run env) tls g"
| "client_handle ssl env (OnTls Writable) tls g = tls_write_cb ssl (client_run env) tls g"
| "client_handle ssl env (OnTls Closable) tls g = tls_shutdown_cb ssl (client_run env) tls g"
| "client_handle ssl env (OnTls TimedOut) tls g = tls_timeout_cb (client_run env) (tls\<lparr>t_timer_active := False\<rparr>) g"
| "client_handle ssl env (OnStdin as) tls g = stdin_cb env tls (g\<lparr>c_stdin := c_stdin g @ as\<rparr>)"

inductive client_reaches ::
  "ssl_env \<Rightarrow> client_env \<Rightarrow> client_mode \<Rightarrow> byte \<Rightarrow> byte \<Rightarrow> cconn \<Rightarrow> client \<Rightarrow> bool"
  for ssl env mode delimiter separator where
  client_begin: "client_start os ssl env server ciphers timeout now mode delimiter separator = Ret (tls, g) \<Longrightarrow>
    client_reaches ssl env mode delimiter separator tls g"
| client_next: "client_reaches ssl env mode delimiter separator tls g \<Longrightarrow> client_enabled ev tls g \<Longrightarrow>
    client_handle ssl env ev (tls\<lparr>t_now := now\<rparr>) g = Ret (tls', g') \<Longrightarrow>
    client_reaches ssl env mode delimiter separator tls' g'"

end
