(* ===== verification/ClientRun.thy ===== *)
theory ClientRun
  imports Client
begin

text \<open>
  The conversation of the client as a function of its standard input, and the proof that the
  client holds it: the client is a user of the TLS layer that ends the program for the
  reasons in \<open>CLIENT_FATAL\<close> only, and one that ends with \<open>EXIT_SUCCESS\<close> has read its whole
  input, and had every command made of it confirmed.
\<close>

section \<open>The conversation\<close>

definition wire_line :: "string \<Rightarrow> bytes" where
  "wire_line s = s @ LINE_TERMINATOR"

definition hello :: "client_env \<Rightarrow> bytes" where
  "hello env = wire_line (''MOIN 1 '' @ ce_session_id env)"

definition announcement :: "bytes \<Rightarrow> bytes" where
  "announcement c = wire_line (''PUSH '' @ show_nat (length c mod 2 ^ 32))"

definition pushed :: "bytes list \<Rightarrow> bytes" where
  "pushed cs = concat (map (\<lambda>c. announcement c @ c) cs)"

text \<open>The command a piece of the input stands for, and the commands of a list of pieces: empty
  ones are ignored, and the \<open>k\<close>-th command has the \<open>k\<close>-th time stamp.\<close>

definition text_command :: "client_env \<Rightarrow> client_mode \<Rightarrow> byte \<Rightarrow> nat \<Rightarrow> string \<Rightarrow> bytes outcome" where
  "text_command env mode delimiter k data =
     obind (if mode = CLIENT_MODE_CHECK_RESULT
            then parse_check_result (ce_time env k) (chomp data) delimiter
            else Ret (parse_command (ce_time env k) data)) (\<lambda>command. Ret (command @ [LF]))"

fun commands_of :: "client_env \<Rightarrow> client_mode \<Rightarrow> byte \<Rightarrow> nat \<Rightarrow> string list \<Rightarrow> bytes list outcome" where
  "commands_of env mode delimiter k [] = Ret []"
| "commands_of env mode delimiter k (p # ps) =
     (if skip_newlines p = [] then commands_of env mode delimiter k ps
      else
        obind (text_command env mode delimiter k (skip_newlines p)) (\<lambda>c.
        obind (commands_of env mode delimiter (Suc k) ps) (\<lambda>cs. Ret (c # cs))))"

lemma build_command_eq:
  "build_command env data g =
     obind (text_command env (c_mode g) (c_delimiter g) (length (c_commands g)) data) (\<lambda>c. Ret (c, length c))"
  by (simp add: build_command_def text_command_def obind_assoc store_def)

lemma commands_of_snoc:
  assumes "commands_of env mode d k xs = Ret cs"
  shows "commands_of env mode d k (xs @ [p]) =
    (if skip_newlines p = [] then Ret cs
     else obind (text_command env mode d (k + length cs) (skip_newlines p)) (\<lambda>c. Ret (cs @ [c])))"
  using assms
proof (induction xs arbitrary: k cs)
  case (Cons x xs)
  show ?case
  proof (cases "skip_newlines x = []")
    case False
    with Cons.prems obtain c cs' where c: "text_command env mode d k (skip_newlines x) = Ret c"
      "commands_of env mode d (Suc k) xs = Ret cs'" "cs = c # cs'" by (auto simp: obind_eq_Ret)
    show ?thesis using Cons.IH[OF c(2)] False c
      by (cases "text_command env mode d (Suc (k + length cs')) (skip_newlines p)") auto
  qed (use Cons in auto)
qed simp

lemma pushed_snoc [simp]: "pushed [] = []" "pushed (cs @ [c]) = pushed cs @ announcement c @ c"
  by (simp_all add: pushed_def)

section \<open>Why the client may end early\<close>

definition INPUT_FATAL :: string where
  "INPUT_FATAL = ''Input format incorrect, see the send_nsca(8) man page''"

definition CLIENT_FATAL :: "string set" where
  "CLIENT_FATAL = {TLS_FATAL, STDIN_FATAL, INPUT_FATAL, ''Cannot get standard input descriptor flags'',
     ''Cannot mark standard input as non-blocking''}"

lemma fatal_in [simp]: "TLS_FATAL \<in> CLIENT_FATAL" "STDIN_FATAL \<in> CLIENT_FATAL" "INPUT_FATAL \<in> CLIENT_FATAL"
  by (simp_all add: CLIENT_FATAL_def)

lemma parse_check_result_dies:
  assumes "NUL \<notin> set inp" "parse_check_result now inp d = Die e"
  shows "e = INPUT_FATAL"
  using assms escape_correct[OF assms(1)]
  by (auto simp: parse_check_result_def Let_def INPUT_FATAL_def split: if_splits)

lemma text_command_dies:
  assumes "NUL \<notin> set p" "text_command env mode d k p = Die e"
  shows "e = INPUT_FATAL"
proof -
  have "NUL \<notin> set (chomp p)" using assms(1) by (auto simp: chomp_def dest: in_set_takeD)
  then show ?thesis using assms(2) parse_check_result_dies[of "chomp p" "ce_time env k" d]
    by (cases "parse_check_result (ce_time env k) (chomp p) d") (auto simp: text_command_def split: if_splits)
qed

lemma input_start_dies: "input_start a b sep = Die e \<Longrightarrow> e \<in> CLIENT_FATAL"
  by (auto simp: input_start_def CLIENT_FATAL_def split: if_splits)

section \<open>The states of the client\<close>

definition said :: "client_env \<Rightarrow> client \<Rightarrow> string list \<Rightarrow> bool" where
  "said env g ps \<longleftrightarrow> commands_of env (c_mode g) (c_delimiter g) 0 ps = Ret (c_commands g)"

definition reader_ok :: "client_env \<Rightarrow> client \<Rightarrow> input_state \<Rightarrow> bool" where
  "reader_ok env g inp \<longleftrightarrow> input_ok inp \<and> i_separator inp = c_separator g \<and> said env g (i_chunks inp)"

text \<open>All of the input has been read, and every command of it was confirmed.\<close>

definition finished :: "client_env \<Rightarrow> client \<Rightarrow> bool" where
  "finished env g \<longleftrightarrow> c_confirmed g = length (c_commands g) \<and>
     (\<exists>text. c_text g = Some text \<and> said env g (map cstr (pieces (c_separator g) text)))"

definition plain_client :: "cconn \<Rightarrow> bool" where
  "plain_client tls \<longleftrightarrow> t_auto_die tls \<and> t_error_handler tls = None \<and> t_timeout_handler tls = Default \<and>
     t_line_too_long_handler tls = Default"

definition connecting :: "cconn \<Rightarrow> client \<Rightarrow> bool" where
  "connecting tls g \<longleftrightarrow> is_active InitW tls \<and> reading tls = None \<and> fresh tls \<and> t_drain_handler tls = None \<and>
     t_connect_handler tls = Some TlsConnect \<and> t_peer tls \<noteq> None \<and> t_written tls = [] \<and>
     c_input g = None \<and> \<not> c_freed g \<and> c_commands g = [] \<and> c_confirmed g = 0 \<and> c_exit_code g = EXIT_SUCCESS"

definition alive :: "cconn \<Rightarrow> client \<Rightarrow> bool" where
  "alive tls g \<longleftrightarrow> plain_client tls \<and> \<not> is_active InitW tls \<and> t_drain_handler tls = None \<and> c_tls g \<and> \<not> c_freed g \<and>
     c_exit_code g = EXIT_SUCCESS"

text \<open>Waiting for the server, for the response that the read handler stands for.\<close>

fun awaiting :: "client_env \<Rightarrow> client_handler \<Rightarrow> bytes \<Rightarrow> client \<Rightarrow> bool" where
  "awaiting env TlsConnect written g = False"
| "awaiting env TlsMoinResponse written g =
     (c_input g = None \<and> c_commands g = [] \<and> c_confirmed g = 0 \<and> written = hello env)"
| "awaiting env TlsPushResponse written g =
     ((\<exists>inp. c_input g = Some inp \<and> reader_ok env g inp \<and> \<not> i_active inp) \<and> c_command_length g = length (c_command g) \<and> c_command g \<noteq> [] \<and>
      (\<exists>cs. c_commands g = cs @ [c_command g] \<and> c_confirmed g = length cs \<and>
        written = hello env @ pushed cs @ announcement (c_command g)))"
| "awaiting env TlsCommandResponse written g =
     ((\<exists>inp. c_input g = Some inp \<and> reader_ok env g inp \<and> \<not> i_active inp) \<and>
      Suc (c_confirmed g) = length (c_commands g) \<and> written = hello env @ pushed (c_commands g))"
| "awaiting env TlsQuitResponse written g =
     (c_input g = None \<and> finished env g \<and> written = hello env @ pushed (c_commands g) @ wire_line ''QUIT'')"

text \<open>Waiting for the standard input.\<close>

definition idling :: "client_env \<Rightarrow> cconn \<Rightarrow> client \<Rightarrow> bool" where
  "idling env tls g \<longleftrightarrow> fresh tls \<and> c_confirmed g = length (c_commands g) \<and>
     t_written tls = hello env @ pushed (c_commands g) \<and>
     (\<exists>inp. c_input g = Some inp \<and> reader_ok env g inp \<and> i_active inp \<and> \<not> i_eof inp)"

definition talking :: "client_env \<Rightarrow> cconn \<Rightarrow> client \<Rightarrow> bool" where
  "talking env tls g \<longleftrightarrow> alive tls g \<and>
     (case reading tls of
        None \<Rightarrow> idling env tls g
      | Some (mode, n) \<Rightarrow> mode = READ_LINE \<and> (\<exists>h. t_read_handler tls = Some h \<and> awaiting env h (t_written tls) g))"

definition stopped :: "client_env \<Rightarrow> client \<Rightarrow> bool" where
  "stopped env g \<longleftrightarrow> c_freed g \<and> c_input g = None \<and> (c_exit_code g = EXIT_SUCCESS \<longrightarrow> c_quit g \<and> finished env g)"

definition leaving :: "client_env \<Rightarrow> cconn \<Rightarrow> client \<Rightarrow> bool" where
  "leaving env tls g \<longleftrightarrow> plain_client tls \<and> \<not> is_active InitW tls \<and> t_drain_handler tls \<noteq> None \<and> reading tls = None \<and>
     stopped env g \<and> (c_exit_code g = EXIT_SUCCESS \<longrightarrow>
       t_written tls = hello env @ pushed (c_commands g) @ wire_line ''QUIT'')"

definition client_good :: "client_env \<Rightarrow> cconn \<Rightarrow> client \<Rightarrow> bool" where
  "client_good env tls g \<longleftrightarrow>
     plain_client tls \<and> (connecting tls g \<or> talking env tls g \<or> leaving env tls g)"

abbreviation cfine :: "client_env \<Rightarrow> (cconn \<times> client) outcome \<Rightarrow> bool" where
  "cfine env \<equiv> tls_settled CLIENT_FATAL (client_good env) (stopped env)"

lemma client_good_view:
  assumes "client_good env tls g" "view tls' = view tls" "reading tls' = reading tls" "fresh tls' = fresh tls"
  shows "client_good env tls' g"
proof -
  have "client_good env tls' g = client_good env tls g"
    by (simp only: client_good_def plain_client_def connecting_def talking_def alive_def leaving_def idling_def
        viewD[OF assms(2)] assms(3,4))
  then show ?thesis using assms(1) by simp
qed

section \<open>Ends\<close>

text \<open>Between two requests: what every handler starts from.\<close>

definition at_hand :: "cconn \<Rightarrow> client \<Rightarrow> bool" where
  "at_hand tls g \<longleftrightarrow> alive tls g \<and> read_idle tls"

lemmas written_view = viewD[OF line_written_fields(1), simplified] viewD[OF write_buffered_fields(1), simplified]

lemma at_hand_written [simp]:
  "at_hand (line_written s tls) g = at_hand tls g" "at_hand (write_buffered s tls) g = at_hand tls g"
  by (simp_all add: at_hand_def alive_def plain_client_def written_view)

lemma read_idleD: "read_idle tls \<Longrightarrow> reading tls = None" "read_idle tls \<Longrightarrow> \<not> is_active ReadW tls" "read_idle tls \<Longrightarrow> fresh tls"
  by (simp_all add: read_idle_def reading_def fresh_def)

lemma client_stop_ok:
  assumes "tls_inv tls" "at_hand tls g"
  shows "client_stop tls g = Ret (shut tls, g\<lparr>c_input := None, c_freed := True\<rparr>)"
    "\<lbrakk>stopped env g'; c_exit_code g' = EXIT_SUCCESS \<longrightarrow>
        t_written tls = hello env @ pushed (c_commands g') @ wire_line ''QUIT''\<rbrakk> \<Longrightarrow> cfine env (Ret (shut tls, g'))"
proof -
  have nf: "\<not> t_freed tls" using tls_inv_live[OF assms(1)] .
  show "client_stop tls g = Ret (shut tls, g\<lparr>c_input := None, c_freed := True\<rparr>)"
    using assms(2) by (simp add: client_stop_def at_hand_def alive_def tls_shutdown_eq[OF nf] Let_def)
  have v: "view (shut tls) = view (tls\<lparr>t_error_handler := None, t_timeout_handler := Default,
     t_drain_handler := Some StartShutdown\<rparr>)" by simp
  have "leaving env (shut tls) g'" if "stopped env g'" "c_exit_code g' = EXIT_SUCCESS \<longrightarrow>
        t_written tls = hello env @ pushed (c_commands g') @ wire_line ''QUIT''"
    using assms(2) that viewD[OF v] read_idleD(1)[of tls]
    by (simp add: leaving_def plain_client_def at_hand_def alive_def is_active_def)
  then show "\<lbrakk>stopped env g'; c_exit_code g' = EXIT_SUCCESS \<longrightarrow>
        t_written tls = hello env @ pushed (c_commands g') @ wire_line ''QUIT''\<rbrakk> \<Longrightarrow> cfine env (Ret (shut tls, g'))"
    using shut_inv[OF assms(1)] nf by (simp add: client_good_def leaving_def)
qed

lemma failure_stopped [simp]:
  "stopped env (g\<lparr>c_input := None, c_freed := True, c_exit_code := EXIT_FAILURE\<rparr>)"
  by (simp add: stopped_def EXIT_FAILURE_def EXIT_SUCCESS_def)

lemma client_bail_ok:
  assumes "tls_inv tls" "at_hand tls g"
  shows "cfine env (client_bail message tls g)"
proof -
  have nf: "\<not> t_freed tls" using tls_inv_live[OF assms(1)] .
  let ?tls = "line_written message (write_buffered ''BAIL '' tls)"
  have "tls_core (write_buffered ''BAIL '' tls)" using write_buffered_core tls_inv_core[OF assms(1)] by blast
  then have i: "tls_inv ?tls" by (rule line_written_inv) (use tls_inv_core[OF assms(1)] in simp)
  have h: "at_hand ?tls g" using assms(2) by simp
  show ?thesis
    using client_stop_ok(1)[OF i h] client_stop_ok(2)[OF i h, of env "g\<lparr>c_input := None, c_freed := True, c_exit_code := EXIT_FAILURE\<rparr>"] nf
    by (simp add: client_bail_def tls_write_eq tls_write_line_eq) (simp add: EXIT_FAILURE_def EXIT_SUCCESS_def)
qed

lemma unexpected_ok:
  assumes "tls_inv tls" "at_hand tls g"
  shows "cfine env (unexpected message line tls g)"
proof (cases "strncasecmp ''FAIL'' line 4 = 0 \<or> strncasecmp ''BAIL'' line 4 = 0")
  case True
  then show ?thesis
    using client_stop_ok(1)[OF assms] client_stop_ok(2)[OF assms, of env "g\<lparr>c_input := None, c_freed := True, c_exit_code := EXIT_FAILURE\<rparr>"]
    by (simp add: unexpected_def server_is_grumpy_def del: tls_settled_simps) (auto simp: EXIT_FAILURE_def EXIT_SUCCESS_def)
next
  case False
  then show ?thesis using client_bail_ok[OF assms] by (simp add: unexpected_def server_is_grumpy_def)
qed

section \<open>Handlers\<close>

lemma await_ok:
  assumes "tls_inv tls" "at_hand tls g" "awaiting env h (t_written tls) g"
  shows "tls_read_line h tls = Ret (begin_read h 0 tls)" "cfine env (Ret (begin_read h 0 tls, g))"
proof -
  have nf: "\<not> t_freed tls" using tls_inv_live[OF assms(1)] .
  have idle: "read_idle tls" using assms(2) by (simp add: at_hand_def)
  show "tls_read_line h tls = Ret (begin_read h 0 tls)"
    using nf read_idleD(2)[OF idle] by (simp add: tls_read_line_def tls_read_eq)
  have v: "view (begin_read h 0 tls) = view (tls\<lparr>t_read_handler := Some h\<rparr>)" by simp
  have "alive (begin_read h 0 tls) g"
    using assms(2) viewD[OF v] by (simp add: at_hand_def alive_def plain_client_def is_active_def)
  then have "talking env (begin_read h 0 tls) g"
    using assms(3) viewD[OF v] by (simp add: talking_def)
  then show "cfine env (Ret (begin_read h 0 tls, g))"
    using begin_read_inv[OF assms(1) idle] nf by (simp add: client_good_def talking_def alive_def)
qed

lemma say_and_await_ok:
  assumes "tls_inv tls" "at_hand tls g" "awaiting env h (t_written tls @ wire_line s) g"
  shows "cfine env (obind (tls_write_line s tls) (\<lambda>tls. obind (tls_read_line h tls) (\<lambda>tls. Ret (tls, g))))"
proof -
  have core: "tls_core tls" "is_active ShutdownW tls \<longrightarrow> t_drain_handler tls \<noteq> None" "\<not> t_freed tls"
    using tls_inv_core[OF assms(1)] by simp_all
  have w: "tls_inv (line_written s tls)" using line_written_inv[OF core(1,2)] .
  have "at_hand (line_written s tls) g" "awaiting env h (t_written (line_written s tls)) g"
    using assms(2,3) by (simp_all add: wire_line_def)
  note a = await_ok[OF w this]
  show ?thesis using a core(3) by (simp add: tls_write_line_eq del: tls_settled_simps)
qed

text \<open>What the reader has to report, between two commands.\<close>

definition ready :: "client_env \<Rightarrow> cconn \<Rightarrow> client \<Rightarrow> bool" where
  "ready env tls g \<longleftrightarrow> tls_inv tls \<and> at_hand tls g \<and> c_confirmed g = length (c_commands g) \<and>
     t_written tls = hello env @ pushed (c_commands g)"

definition heard :: "client_env \<Rightarrow> client \<Rightarrow> input_action \<Rightarrow> input_state \<Rightarrow> bool" where
  "heard env g act inp \<longleftrightarrow> input_ok inp \<and> i_separator inp = c_separator g \<and>
     (case act of
        Deliver c \<Rightarrow> \<exists>ps. i_chunks inp = ps @ [cstr c] \<and> said env g ps \<and> \<not> i_active inp
      | AtEof \<Rightarrow> said env g (i_chunks inp) \<and> i_eof inp
      | NotYet \<Rightarrow> said env g (i_chunks inp) \<and> i_active inp \<and> \<not> i_eof inp)"

lemma said_updates [simp]:
  "said env (g\<lparr>c_stdin := a\<rparr>) = said env g" "said env (g\<lparr>c_input := b\<rparr>) = said env g"
  "said env (g\<lparr>c_confirmed := n\<rparr>) = said env g" "said env (g\<lparr>c_text := t\<rparr>) = said env g"
  "said env (g\<lparr>c_command := m\<rparr>) = said env g" "said env (g\<lparr>c_command_length := n\<rparr>) = said env g"
  "said env (g\<lparr>c_tls := x\<rparr>) = said env g" "said env (g\<lparr>c_quit := x\<rparr>) = said env g"
  "said env (g\<lparr>c_freed := x\<rparr>) = said env g"
  by (simp_all add: said_def fun_eq_iff)

lemma at_hand_updates [simp]:
  "at_hand tls (g\<lparr>c_stdin := a\<rparr>) = at_hand tls g" "at_hand tls (g\<lparr>c_input := b\<rparr>) = at_hand tls g"
  "at_hand tls (g\<lparr>c_text := t\<rparr>) = at_hand tls g" "at_hand tls (g\<lparr>c_confirmed := n\<rparr>) = at_hand tls g"
  "at_hand tls (g\<lparr>c_commands := cs\<rparr>) = at_hand tls g" "at_hand tls (g\<lparr>c_command := m\<rparr>) = at_hand tls g"
  "at_hand tls (g\<lparr>c_command_length := n\<rparr>) = at_hand tls g" "at_hand tls (g\<lparr>c_quit := x\<rparr>) = at_hand tls g"
  by (simp_all add: at_hand_def alive_def)

lemma heard_step:
  assumes "input_step_ok inp0 r" "r = Ret (act, inp, stdin)" "i_separator inp0 = c_separator g"
    "said env g (i_chunks inp0)" "i_active inp0"
  shows "heard env g act inp"
  using assms by (auto simp: input_step_ok_def heard_def split: input_action.splits)

lemma heard_read_chunk:
  assumes "input_ok inp0" "i_separator inp0 = c_separator g" "said env g (i_chunks inp0)"
  shows "case input_read_chunk inp0 stdin of Die e \<Rightarrow> e = STDIN_FATAL | Ret (act, inp, stdin) \<Rightarrow> heard env g act inp"
  using heard_step[OF input_read_chunk_ok[OF assms(1), of stdin], of _ _ _ g env] assms(2,3)
    input_read_chunk_ok[OF assms(1), of stdin]
  by (auto simp: input_step_ok_def split: outcome.splits)

lemma push_request_ok:
  assumes "ready env tls g" "input_ok inp" "i_separator inp = c_separator g" "i_chunks inp = ps @ [p]"
    "said env g ps" "NUL \<notin> set p" "skip_newlines p \<noteq> []" "\<not> i_active inp"
  shows "cfine env (push_request env (skip_newlines p) tls (g\<lparr>c_input := Some inp, c_stdin := stdin\<rparr>))"
proof (cases "text_command env (c_mode g) (c_delimiter g) (length (c_commands g)) (skip_newlines p)")
  case (Die e)
  have "NUL \<notin> set (skip_newlines p)" using assms(6) skip_newlines_set by blast
  then have "e = INPUT_FATAL" using Die by (rule text_command_dies)
  then show ?thesis using Die by (simp add: push_request_def build_command_eq)
next
  case (Ret c)
  let ?g = "g\<lparr>c_input := Some inp, c_stdin := stdin, c_command := c, c_command_length := length c,
    c_commands := c_commands g @ [c]\<rparr>"
  have "c \<noteq> []" using Ret by (auto simp: text_command_def obind_eq_Ret)
  moreover have "said env ?g (i_chunks inp)"
    using commands_of_snoc[of env "c_mode g" "c_delimiter g" 0 ps "c_commands g" p] assms(4,5,7) Ret
    by (simp add: said_def)
  ultimately have "awaiting env TlsPushResponse (t_written tls @ wire_line (''PUSH '' @ show_nat (length c mod 2 ^ 32))) ?g"
    using assms(1-3,8) by (simp add: reader_ok_def ready_def announcement_def)
  from say_and_await_ok[OF _ _ this] assms(1) Ret show ?thesis
    by (simp add: push_request_def build_command_eq ready_def Let_def)
qed

lemma handle_input_ok:
  assumes "ready env tls g" "heard env g act inp"
  shows "cfine env (handle_input env act inp stdin tls g)"
  using assms
proof (induction env act inp stdin tls g rule: handle_input.induct)
  case (1 env inp stdin tls g)
  let ?g = "g\<lparr>c_input := Some inp, c_stdin := stdin\<rparr>"
  have "talking env tls ?g"
    using 1 read_idleD(1,3)[of tls]
    by (auto simp: talking_def ready_def at_hand_def heard_def reader_ok_def idling_def alive_def)
  then show ?case using 1 tls_inv_live[of tls] by (simp add: client_good_def ready_def talking_def alive_def)
next
  case (2 env inp stdin tls g)
  let ?g = "g\<lparr>c_stdin := stdin, c_input := None, c_text := Some (i_text inp)\<rparr>"
  have "finished env ?g" using 2 by (auto simp: finished_def heard_def ready_def input_ok_def)
  then have "awaiting env TlsQuitResponse (t_written tls @ wire_line ''QUIT'') ?g"
    using 2 by (simp add: ready_def)
  from say_and_await_ok[OF _ _ this] 2 show ?case
    by (simp add: handle_input_eof_def send_request_def ready_def Let_def)
next
  case (3 env chunk inp stdin tls g)
  let ?p = "cstr chunk"
  obtain ps where ps: "i_chunks inp = ps @ [?p]" "said env g ps" "\<not> i_active inp" and io: "input_ok inp" "i_separator inp = c_separator g"
    using 3(3) by (auto simp: heard_def)
  have nn: "NUL \<notin> set (skip_newlines ?p)" using skip_newlines_set cstr_no_NUL by blast
  then have d: "deref (skip_newlines ?p) = NUL \<longleftrightarrow> skip_newlines ?p = []" by (cases "skip_newlines ?p") auto
  show ?case
  proof (cases "skip_newlines ?p = []")
    case True
    have "said env g (i_chunks inp)"
      using commands_of_snoc[of env "c_mode g" "c_delimiter g" 0 ps "c_commands g" ?p] ps True by (simp add: said_def)
    note r = heard_read_chunk[OF io this, of stdin]
    show ?thesis
    proof (cases "input_read_chunk inp stdin")
      case (Ret x)
      obtain act inp' stdin' where x: "x = (act, inp', stdin')" by (cases x) auto
      have "cfine env (handle_input env act inp' stdin' tls g)"
        by (rule 3(1)[OF refl _ Ret x[symmetric] refl 3(2)]) (use True d r Ret x in auto)
      then show ?thesis using True Ret x by simp
    qed (use True r in simp)
  next
    case False
    then show ?thesis using push_request_ok[OF 3(2) io ps(1,2) _ False ps(3)] d by simp
  qed
qed

lemma read_input_ok:
  assumes "ready env tls g" "c_input g = Some inp" "reader_ok env g inp"
  shows "cfine env (read_input env tls g)"
proof (cases "input_read_chunk inp (c_stdin g)")
  case (Die e)
  then show ?thesis using heard_read_chunk[of inp g env "c_stdin g"] assms(2,3) by (simp add: read_input_def reader_ok_def)
next
  case (Ret x)
  then show ?thesis using heard_read_chunk[of inp g env "c_stdin g"] assms handle_input_ok[OF assms(1)]
    by (cases x) (simp add: read_input_def reader_ok_def)
qed

lemma handle_tls_moin_response_ok:
  assumes "tls_inv tls" "at_hand tls g" "awaiting env TlsMoinResponse (t_written tls) g"
  shows "cfine env (handle_tls_moin_response env line tls g)"
proof -
  note bail = client_bail_ok[OF assms(1,2), of env]
  have r: "cfine env (read_input env tls (g\<lparr>c_input := Some inp\<rparr>))"
    if "input_start (ce_getfl env) (ce_setfl env) (c_separator g) = Ret inp" for inp
  proof (rule read_input_ok[of _ _ _ inp])
    show "ready env tls (g\<lparr>c_input := Some inp\<rparr>)" using assms by (simp add: ready_def)
    show "reader_ok env (g\<lparr>c_input := Some inp\<rparr>) inp"
      using input_start_ok[OF that] that assms(3)
      by (auto simp: reader_ok_def said_def input_start_def split: if_splits)
  qed simp
  show ?thesis
    using bail r unexpected_ok[OF assms(1,2)] input_start_dies
    by (cases "input_start (ce_getfl env) (ce_setfl env) (c_separator g)")
      (auto simp: handle_tls_moin_response_def Let_def split: prod.split)
qed

lemma handle_tls_push_response_ok:
  assumes "tls_inv tls" "at_hand tls g" "awaiting env TlsPushResponse (t_written tls) g"
  shows "cfine env (handle_tls_push_response line tls g)"
proof (cases "strcasecmp ''OKAY'' line = 0")
  case False
  then show ?thesis using unexpected_ok[OF assms(1,2)] by (simp add: handle_tls_push_response_def)
next
  case True
  have c: "take (c_command_length g) (c_command g) = c_command g" "c_command g \<noteq> []" using assms(3) by simp_all
  have "t_drain_handler tls = None" using assms(2) by (simp add: at_hand_def alive_def)
  from tls_write_owned[OF assms(1) c(2) this] obtain tls' where
    t: "tls_write (c_command g) True tls = Ret tls'" "tls_inv tls'" "reading tls' = reading tls"
      "view tls' = view (tls\<lparr>t_written := t_written tls @ c_command g\<rparr>)" "read_idle tls' = read_idle tls" by blast
  have "at_hand tls' g"
    using assms(2) t(5) viewD[OF t(4)] by (simp add: at_hand_def alive_def plain_client_def is_active_def)
  moreover have "awaiting env TlsCommandResponse (t_written tls') g"
    using assms(3) viewD(13)[OF t(4)] by auto
  ultimately have "tls_read_line TlsCommandResponse tls' = Ret (begin_read TlsCommandResponse 0 tls')"
    "cfine env (Ret (begin_read TlsCommandResponse 0 tls', g))"
    by (rule await_ok[OF t(2)])+
  then show ?thesis using True t(1) c(1)
    by (simp add: handle_tls_push_response_def del: tls_settled_simps awaiting.simps)
qed

lemma handle_tls_command_response_ok:
  assumes "tls_inv tls" "at_hand tls g" "awaiting env TlsCommandResponse (t_written tls) g"
  shows "cfine env (handle_tls_command_response env line tls g)"
proof (cases "strcasecmp ''OKAY'' line = 0")
  case True
  obtain inp where inp: "c_input g = Some inp" "reader_ok env g inp" using assms(3) by auto
  have "cfine env (read_input env tls (g\<lparr>c_confirmed := Suc (c_confirmed g)\<rparr>))"
    by (rule read_input_ok[of _ _ _ inp]) (use assms inp in \<open>simp_all add: ready_def reader_ok_def\<close>)
  then show ?thesis using True by (simp add: handle_tls_command_response_def)
qed (use unexpected_ok[OF assms(1,2)] in \<open>simp add: handle_tls_command_response_def\<close>)

lemma finished_updates [simp]:
  "finished env (g\<lparr>c_quit := x\<rparr>) = finished env g" "finished env (g\<lparr>c_input := i\<rparr>) = finished env g"
  "finished env (g\<lparr>c_freed := x\<rparr>) = finished env g"
  by (simp_all add: finished_def)

lemma handle_tls_quit_response_ok:
  assumes "tls_inv tls" "at_hand tls g" "awaiting env TlsQuitResponse (t_written tls) g"
  shows "cfine env (handle_tls_quit_response line tls g)"
proof (cases "strcasecmp ''OKAY'' line = 0")
  case True
  have h: "at_hand tls (g\<lparr>c_quit := True\<rparr>)" using assms(2) by simp
  let ?g = "g\<lparr>c_quit := True, c_input := None, c_freed := True\<rparr>"
  have "stopped env ?g" using assms(3) by (simp add: stopped_def)
  then have "cfine env (Ret (shut tls, ?g))"
    by (rule client_stop_ok(2)[OF assms(1) h]) (use assms(3) in simp)
  then show ?thesis using True client_stop_ok(1)[OF assms(1) h] by (simp add: handle_tls_quit_response_def)
qed (use unexpected_ok[OF assms(1,2)] in \<open>simp add: handle_tls_quit_response_def\<close>)

lemma handle_tls_connect_ok:
  assumes "tls_inv tls" "plain_client tls" "\<not> is_active InitW tls" "read_idle tls" "t_drain_handler tls = None"
    "t_written tls = []" "t_peer tls \<noteq> None"
    and "c_input g = None" "\<not> c_freed g" "c_commands g = []" "c_confirmed g = 0" "c_exit_code g = EXIT_SUCCESS"
  shows "cfine env (handle_tls_connect env tls g)"
proof -
  obtain peer where p: "t_peer tls = Some peer" using assms(7) by blast
  let ?t = "tls\<lparr>t_peer := Some (peer @ '' (ID: '' @ ce_session_id env @ '')'')\<rparr>"
  have core: "tls_core ?t"
    by (rule tls_core_same[where tls = tls])
      (use assms(1,4) in \<open>simp_all add: tls_inv_def read_idle_def is_active_def\<close>)
  have inv: "tls_inv ?t"
    by (rule tls_inv_same[OF assms(1) core]) (simp_all add: is_active_def)
  have h: "at_hand ?t (g\<lparr>c_tls := True\<rparr>)"
    using assms by (simp add: at_hand_def alive_def plain_client_def read_idle_def is_active_def)
  have a: "awaiting env TlsMoinResponse (t_written ?t @ wire_line (''MOIN 1 '' @ ce_session_id env)) (g\<lparr>c_tls := True\<rparr>)"
    using assms by (simp add: hello_def)
  show ?thesis using say_and_await_ok[OF inv h a] p tls_inv_live[OF assms(1)]
    by (simp add: handle_tls_connect_def tls_set_connection_id_def send_request_def live_def Let_def del: tls_settled_simps)
qed

section \<open>The client is a user of the TLS layer\<close>

lemma client_on_read:
  assumes "tls_inv tls" "read_idle tls" "client_good env tls0 g" "reading tls0 = Some m" "view tls = view tls0"
    and "t_read_handler tls = Some h"
  shows "cfine env (client_run env h (Some d) tls g)"
proof -
  have t: "talking env tls0 g" using assms(3,4) by (auto simp: client_good_def connecting_def leaving_def)
  then have aw: "awaiting env h (t_written tls) g"
    using assms(4,6) viewD[OF assms(5)] by (auto simp: talking_def split: prod.splits)
  have h: "at_hand tls g"
    using t assms(2) viewD[OF assms(5)] by (simp add: talking_def at_hand_def alive_def plain_client_def)
  show ?thesis
    using handle_tls_moin_response_ok[OF assms(1) h, of env] handle_tls_push_response_ok[OF assms(1) h, of env]
      handle_tls_command_response_ok[OF assms(1) h, of env] handle_tls_quit_response_ok[OF assms(1) h, of env] aw
    by (cases h) simp_all
qed

text \<open>The settings the client was started with stay as they are.\<close>

definition settings :: "client \<Rightarrow> client_mode \<times> byte \<times> byte" where
  "settings g = (c_mode g, c_delimiter g, c_separator g)"

lemma settings_updates [simp]:
  "settings (g\<lparr>c_stdin := a\<rparr>) = settings g" "settings (g\<lparr>c_input := b\<rparr>) = settings g"
  "settings (g\<lparr>c_text := t\<rparr>) = settings g" "settings (g\<lparr>c_confirmed := n\<rparr>) = settings g"
  "settings (g\<lparr>c_commands := cs\<rparr>) = settings g" "settings (g\<lparr>c_command := m\<rparr>) = settings g"
  "settings (g\<lparr>c_command_length := n\<rparr>) = settings g" "settings (g\<lparr>c_quit := x\<rparr>) = settings g"
  "settings (g\<lparr>c_freed := x\<rparr>) = settings g" "settings (g\<lparr>c_exit_code := e\<rparr>) = settings g"
  "settings (g\<lparr>c_tls := x\<rparr>) = settings g"
  by (simp_all add: settings_def)

lemma client_stop_settings: "client_stop tls g = Ret (tls', g') \<Longrightarrow> settings g' = settings g"
  by (auto simp: client_stop_def Let_def obind_eq_Ret split: if_splits)

lemma unexpected_settings: "unexpected message line tls g = Ret (tls', g') \<Longrightarrow> settings g' = settings g"
  by (auto simp: unexpected_def server_is_grumpy_def client_bail_def obind_eq_Ret
      dest!: client_stop_settings split: if_splits)

lemma client_bail_settings: "client_bail message tls g = Ret (tls', g') \<Longrightarrow> settings g' = settings g"
  by (auto simp: client_bail_def obind_eq_Ret dest!: client_stop_settings)

lemma handle_input_settings: "handle_input env act inp stdin tls g = Ret (tls', g') \<Longrightarrow> settings g' = settings g"
proof (induction env act inp stdin tls g rule: handle_input.induct)
  case (3 env chunk inp stdin tls g)
  show ?case
  proof (cases "deref (skip_newlines (cstr chunk)) = NUL")
    case True
    then show ?thesis using 3(2) by (auto simp: obind_eq_Ret dest: 3(1)[OF refl])
  qed (use 3(2) in \<open>auto simp: push_request_def Let_def obind_eq_Ret\<close>)
qed (auto simp: handle_input_eof_def Let_def obind_eq_Ret)

lemma read_input_settings: "read_input env tls g = Ret (tls', g') \<Longrightarrow> settings g' = settings g"
  by (auto simp: read_input_def obind_eq_Ret split: option.splits dest: handle_input_settings)

lemma client_run_settings: "client_run env h d tls g = Ret (tls', g') \<Longrightarrow> settings g' = settings g"
  by (cases h)
    (auto simp: handle_tls_connect_def handle_tls_moin_response_def handle_tls_push_response_def
      handle_tls_command_response_def handle_tls_quit_response_def Let_def obind_eq_Ret
      dest!: unexpected_settings client_bail_settings read_input_settings client_stop_settings
      split: if_splits prod.splits)

definition good_with :: "client_env \<Rightarrow> client_mode \<times> byte \<times> byte \<Rightarrow> cconn \<Rightarrow> client \<Rightarrow> bool" where
  "good_with env st tls g \<longleftrightarrow> client_good env tls g \<and> settings g = st"

definition stopped_with :: "client_env \<Rightarrow> client_mode \<times> byte \<times> byte \<Rightarrow> client \<Rightarrow> bool" where
  "stopped_with env st g \<longleftrightarrow> stopped env g \<and> settings g = st"

abbreviation sfine :: "client_env \<Rightarrow> client_mode \<times> byte \<times> byte \<Rightarrow> (cconn \<times> client) outcome \<Rightarrow> bool" where
  "sfine env st \<equiv> tls_settled CLIENT_FATAL (good_with env st) (stopped_with env st)"

lemma cfine_with:
  assumes "cfine env r" "\<And>tls' g'. r = Ret (tls', g') \<Longrightarrow> settings g' = st"
  shows "sfine env st r"
  using assms by (cases r) (auto simp: good_with_def stopped_with_def)

interpretation cli: tls_user "client_run env" "good_with env st" "stopped_with env st" CLIENT_FATAL for env st
proof (unfold_locales, goal_cases)
  case (1 tls g tls')
  then show ?case using client_good_view by (auto simp: good_with_def)
next
  case (7 tls g tls0 m h d)
  show ?case
    by (rule cfine_with, rule client_on_read[OF 7(1,2) _ 7(4-6)]) (use 7(3) client_run_settings in \<open>auto simp: good_with_def\<close>)
next
  case (8 tls g tls0 h)
  then show ?case using viewD(8)[OF 8(4)] by (simp add: good_with_def client_good_def plain_client_def)
next
  case (9 tls g tls0 h)
  then show ?case using viewD(10)[OF 9(5)] by (simp add: good_with_def client_good_def plain_client_def)
qed (auto simp: good_with_def stopped_with_def client_good_def plain_client_def connecting_def talking_def
    alive_def leaving_def)

section \<open>Every event keeps the invariant\<close>

lemma fine_init:
  assumes "tls_inv tls" "client_good env tls g" "connecting tls g"
  shows "cfine env (handle_tls_connect env (ev_io_stop InitW tls) g)"
proof -
  let ?t = "ev_io_stop InitW tls"
  have f: "\<not> is_active InitW ?t" "t_drain_handler ?t = t_drain_handler tls" "t_written ?t = t_written tls"
    "t_peer ?t = t_peer tls" "plain_client ?t = plain_client tls" "read_idle ?t = read_idle tls"
    by (simp_all add: plain_client_def read_idle_def) (simp_all add: watcher_defs)
  have "tls_core ?t" using assms(1) by (simp add: tls_inv_def)
  then have "tls_inv ?t" using assms(1) by (auto simp: tls_inv_def)
  then show ?thesis
    by (rule handle_tls_connect_ok)
      (use assms(2,3) f fresh_idle[of tls] in \<open>simp_all add: connecting_def client_good_def\<close>)
qed

text \<open>Dying with one of the allowed reasons, or in a good state with the settings of the start.\<close>

lemma connecting_updates [simp]:
  "connecting (tls_tick tls) g = connecting tls g"
  "connecting (tls\<lparr>t_last_activity := x\<rparr>) g = connecting tls g"
  "plain_client (tls_tick tls) = plain_client tls" "plain_client (tls\<lparr>t_last_activity := x\<rparr>) = plain_client tls"
  by (simp_all add: connecting_def plain_client_def) (simp_all add: tls_tick_def)

lemma tls_connect_cb_ok:
  assumes "tls_inv tls" "client_good env tls g" "is_active InitW tls"
  shows "sfine env (settings g) (tls_connect_cb ssl (client_run env) False tls g)"
proof -
  have c: "connecting tls g" and pc: "plain_client tls"
    using assms(2,3) by (auto simp: client_good_def talking_def alive_def leaving_def)
  let ?t = "tls_tick (tls\<lparr>t_last_activity := t_now tls\<rparr>)"
  have t: "tls_inv ?t" "connecting ?t g" "client_good env ?t g" "is_active InitW ?t"
    using assms(1,3) c pc by (simp_all add: client_good_def)
  have l: "live tls = Ret ()" using tls_inv_live[OF assms(1)] by (simp add: live_def)
  have h: "t_connect_handler (ev_io_stop InitW ?t) = Some TlsConnect"
    using c by (simp add: connecting_def) (simp add: watcher_defs)
  show ?thesis
  proof (cases "ssl_connect ssl (t_calls tls)")
    case None
    have "sfine env (settings g) (client_run env TlsConnect None (ev_io_stop InitW ?t) g)"
      by (rule cfine_with) (use fine_init[OF t(1,3,2)] client_run_settings[of env TlsConnect None] in auto)
    then show ?thesis using None l h by (simp add: tls_connect_cb_def Let_def del: tls_settled_simps)
  next
    case (Some err)
    have "sfine env (settings g) (check_tls_error (client_run env) InitW err ?t g)"
      by (rule cli.check_tls_error_ok) (use t in \<open>simp_all add: good_with_def\<close>)
    then show ?thesis using Some l by (simp add: tls_connect_cb_def Let_def)
  qed
qed

lemma stdin_cb_ok:
  assumes "tls_inv tls" "client_good env tls g" "c_input g = Some inp" "i_active inp"
  shows "sfine env (settings g) (stdin_cb env tls (g\<lparr>c_stdin := stdin\<rparr>))"
proof (rule cfine_with)
  let ?g = "g\<lparr>c_stdin := stdin\<rparr>"
  have t: "talking env tls g" using assms(2,3) by (auto simp: client_good_def connecting_def leaving_def stopped_def)
  have "\<not> awaiting env h w g" for h w using assms(3,4) by (cases h) auto
  then have "reading tls = None" using t by (auto simp: talking_def split: option.splits prod.splits)
  then have idle: "idling env tls g" "read_idle tls" using t by (auto simp: talking_def idling_def fresh_idle)
  then have r: "reader_ok env g inp" "\<not> i_eof inp" using assms(3) by (auto simp: idling_def)
  have rdy: "ready env tls ?g" using t idle assms(1) by (simp add: ready_def at_hand_def talking_def idling_def)
      (simp add: alive_def)
  have s: "input_step_ok inp (input_read_cb inp stdin)" using r by (intro input_read_cb_ok) (simp_all add: reader_ok_def)
  show "cfine env (stdin_cb env tls ?g)"
  proof (cases "input_read_cb inp stdin")
    case (Ret x)
    obtain act inp' stdin' where x: "x = (act, inp', stdin')" by (cases x) auto
    have "heard env ?g act inp'"
      by (rule heard_step[OF s]) (use Ret x r assms(4) in \<open>simp_all add: reader_ok_def\<close>)
    from handle_input_ok[OF rdy this] show ?thesis using Ret x assms(3) by (simp add: stdin_cb_def)
  qed (use s assms(3) in \<open>simp add: stdin_cb_def input_step_ok_def\<close>)
qed (auto simp: stdin_cb_def obind_eq_Ret split: option.splits dest: handle_input_settings)

lemma client_handle_ok:
  assumes "ssl_ok ssl" "sfine env st (Ret (tls, g))" "client_enabled ev tls g"
  shows "sfine env st (client_handle ssl env ev tls g)"
proof -
  have "\<not> t_freed tls"
    using assms(2,3) by (cases ev; cases "case ev of OnTls e \<Rightarrow> e | _ \<Rightarrow> Readable")
      (auto simp: asleep_def stopped_with_def stopped_def split: if_splits)
  then have inv: "tls_inv tls" "good_with env st tls g" using assms(2) by simp_all
  then have g: "client_good env tls g" "settings g = st" by (simp_all add: good_with_def)
  show ?thesis
  proof (cases ev)
    case (OnTls e)
    then show ?thesis
      using cli.tls_read_cb_ok[OF assms(1) inv] cli.tls_write_cb_ok[OF assms(1) inv] cli.tls_shutdown_cb_ok[OF inv]
        cli.tls_timeout_cb_ok[OF inv] tls_connect_cb_ok[OF inv(1) g(1)] g(2) assms(3)
      by (cases e) auto
  next
    case (OnStdin as)
    then obtain inp where "c_input g = Some inp" "i_active inp"
      using assms(3) by (auto split: option.splits)
    then show ?thesis using stdin_cb_ok[OF inv(1) g(1)] g(2) OnStdin by simp
  qed
qed

definition START_FATAL :: "string set" where
  "START_FATAL = {''Cannot create SSL context'', ''Cannot set SSL cipher(s)'', ''Cannot create BIO object'',
     ''Cannot create SSL object'', ''Cannot create socket''}"

text \<open>A new connection, whose watchers are all idle.\<close>

definition newborn :: "cconn \<Rightarrow> bool" where
  "newborn tls \<longleftrightarrow> tls_inv tls \<and> plain_client tls \<and> (\<forall>w. \<not> is_active w tls) \<and> read_idle tls \<and>
     t_drain_handler tls = None \<and> t_connect_handler tls = Some TlsConnect \<and> t_peer tls \<noteq> None \<and> t_written tls = []"

lemma kick_init_inv:
  assumes "newborn tls"
  shows "tls_inv (kick InitW ev tls)"
proof -
  have i: "tls_inv tls" "\<not> is_active ReadW tls" using assms by (simp_all add: newborn_def)
  have "tls_core (kick InitW ev tls)"
    by (rule tls_core_same[where tls = tls]) (use i in \<open>simp_all add: tls_inv_def watcher_defs\<close>)
  moreover have "is_active w (kick InitW ev tls) = (w = InitW \<or> is_active w tls)"
    "t_output (kick InitW ev tls) = t_output tls" "t_output_buffer (kick InitW ev tls) = t_output_buffer tls"
    "t_drain_handler (kick InitW ev tls) = t_drain_handler tls" for w
    by (auto simp: watcher_defs)
  ultimately show ?thesis using i(1) by (auto simp: tls_inv_def)
qed

lemma first_connect_ok:
  assumes "newborn tls" "c_input g = None" "\<not> c_freed g" "c_commands g = []" "c_confirmed g = 0" "c_exit_code g = EXIT_SUCCESS"
  shows "(case tls_connect_cb ssl (client_run env) True tls g of
      Die e \<Rightarrow> e \<in> START_FATAL \<union> CLIENT_FATAL | Ret (tls, g') \<Rightarrow> sfine env (settings g) (Ret (tls, g')))"
proof -
  define fd where "fd = ssl_bio_fd ssl (Suc (t_calls tls))"
  let ?t = "(tls_tick (tls\<lparr>t_last_activity := t_now tls\<rparr>))\<lparr>t_fd := fd\<rparr>"
  have act: "is_active w ?t = is_active w tls" for w by (simp add: is_active_def tls_tick_def)
  have "tls_core ?t"
    by (rule tls_core_same[where tls = tls])
      (use assms(1) in \<open>simp_all add: newborn_def tls_inv_def tls_tick_def is_active_def\<close>)
  then have "tls_inv ?t"
    by (rule tls_inv_same[where tls = tls, rotated])
      (use assms(1) in \<open>simp_all add: newborn_def act\<close>, simp_all add: tls_tick_def)
  then have nb: "newborn ?t"
    using assms(1) by (simp add: newborn_def act plain_client_def read_idle_def) (simp add: tls_tick_def is_active_def)
  have l: "live tls = Ret ()" using assms(1) tls_inv_live[of tls] by (simp add: newborn_def live_def)
  have eq: "tls_connect_cb ssl (client_run env) True tls g =
      (if fd = - 1 then Die ''Cannot create socket''
       else case ssl_connect ssl (t_calls tls) of
          Some err \<Rightarrow> check_tls_error (client_run env) InitW err (kick InitW EV_WRITE ?t) g
        | None \<Rightarrow> handle_tls_connect env ?t g)"
    using l assms(1) by (simp add: tls_connect_cb_def Let_def fd_def newborn_def tls_tick_def split: option.split)
  have settled: "sfine env (settings g) r \<Longrightarrow> case r of Die e \<Rightarrow> e \<in> START_FATAL \<union> CLIENT_FATAL
      | Ret (tls, g') \<Rightarrow> sfine env (settings g) (Ret (tls, g'))" for r
    by (cases r) auto
  have "sfine env (settings g) (check_tls_error (client_run env) InitW err (kick InitW EV_WRITE ?t) g)" for err
  proof (rule cli.check_tls_error_ok)
    show "is_active InitW (kick InitW EV_WRITE ?t)" by (simp add: watcher_defs)
    have "connecting (kick InitW EV_WRITE ?t) g" "plain_client (kick InitW EV_WRITE ?t)"
      using nb assms(2-) read_idleD[of ?t]
      by (simp_all add: newborn_def connecting_def plain_client_def)
        (simp_all add: watcher_defs reading_def fresh_def read_idle_def)
    then show "good_with env (settings g) (kick InitW EV_WRITE ?t) g" by (simp add: good_with_def client_good_def)
  qed (rule kick_init_inv[OF nb])
  moreover have "sfine env (settings g) (handle_tls_connect env ?t g)"
    by (rule cfine_with, rule handle_tls_connect_ok)
      (use nb assms(2-) client_run_settings[of env TlsConnect None] in \<open>auto simp: newborn_def\<close>)
  ultimately show ?thesis unfolding eq
    by (cases "ssl_connect ssl (t_calls tls)") (auto simp: START_FATAL_def intro!: settled simp del: tls_settled_simps)
qed

lemma client_start_ok:
  "case client_start os ssl env server ciphers timeout now mode delimiter separator of
     Die e \<Rightarrow> e \<in> START_FATAL \<union> CLIENT_FATAL
   | Ret (tls, g) \<Rightarrow> sfine env (settings (client_init mode delimiter separator)) (Ret (tls, g))"
proof -
  define t0 where "t0 = (tls_new True now :: cconn)\<lparr>t_connect_handler := Some TlsConnect, t_timeout := timeout,
            t_peer := Some (case strrchr server (CHR '':'') of
                              None \<Rightarrow> server
                            | Some colon \<Rightarrow> take (length server - length colon) server)\<rparr>"
  have "\<not> t_freed t0" by (simp add: t0_def tls_new_def)
  from tls_on_timeout_eq[OF this, of Default] obtain a d l where
    t: "tls_on_timeout Default t0 = Ret (t0\<lparr>t_timer_active := a, t_timer_after := d, t_timeout_handler := Default, t_last_activity := l\<rparr>)"
    by blast
  let ?t = "t0\<lparr>t_timer_active := a, t_timer_after := d, t_timeout_handler := Default, t_last_activity := l\<rparr>"
  have act: "\<not> is_active w ?t" for w by (simp add: t0_def tls_new_def is_active_def idle_watcher_def)
  have "tls_inv ?t"
    by (rule new_conn_inv) (simp_all add: t0_def tls_new_def is_active_def idle_watcher_def)
  then have nb: "newborn ?t"
    by (simp add: newborn_def plain_client_def read_idle_def) (simp add: t0_def tls_new_def is_active_def idle_watcher_def)
  let ?g = "client_init mode delimiter separator"
  have f: "c_input ?g = None" "\<not> c_freed ?g" "c_commands ?g = []" "c_confirmed ?g = 0" "c_exit_code ?g = EXIT_SUCCESS"
    by (simp_all add: client_init_def)
  have "client_start os ssl env server ciphers timeout now mode delimiter separator =
    (if \<not> os_ctx_new os then Die ''Cannot create SSL context''
     else if \<not> os_cipher_list os ciphers then Die ''Cannot set SSL cipher(s)''
     else if \<not> os_new_connect os server then Die ''Cannot create BIO object''
     else if \<not> os_ssl_new os then Die ''Cannot create SSL object''
     else tls_connect_cb ssl (client_run env) True ?t ?g)"
    using t by (simp add: client_start_def tls_client_start_def initialize_openssl_def tls_connect_def t0_def Let_def)
  then show ?thesis using first_connect_ok[OF nb f, where ssl = ssl and env = env]
    by (auto simp: START_FATAL_def simp del: tls_settled_simps)
qed

lemma client_reaches_ok:
  assumes "client_reaches ssl env mode delimiter separator tls g" "ssl_ok ssl"
  shows "sfine env (settings (client_init mode delimiter separator)) (Ret (tls, g))"
  using assms
proof (induction rule: client_reaches.induct)
  case (client_begin os server ciphers timeout now tls g)
  then show ?case using client_start_ok[where os = os and ssl = ssl and env = env and server = server and ciphers = ciphers
        and timeout = timeout and now = now and mode = mode and delimiter = delimiter and separator = separator]
    by (simp del: tls_settled_simps)
next
  case (client_next tls g ev now tls' g')
  let ?st = "settings (client_init mode delimiter separator)"
  have "sfine env ?st (Ret (tls\<lparr>t_now := now\<rparr>, g))"
    using client_next.IH[OF client_next.prems] client_good_view[of env tls g "tls\<lparr>t_now := now\<rparr>"]
    by (auto simp: good_with_def asleep_def)
  moreover have "client_enabled ev (tls\<lparr>t_now := now\<rparr>) g" using client_next.hyps(2) by (cases ev) simp_all
  ultimately have "sfine env ?st (client_handle ssl env ev (tls\<lparr>t_now := now\<rparr>) g)"
    by (rule client_handle_ok[OF client_next.prems])
  then show ?case unfolding client_next.hyps(3) .
qed

end
