(* ===== verification/ClientSession.thy ===== *)
theory ClientSession
  imports ClientRun "HOL-Library.Sublist"
begin

text \<open>
  A sample run of the client, which submits one command and quits, and the properties of all
  reachable states of the client.
\<close>

section \<open>A sample run\<close>

fun client_exec :: "ssl_env \<Rightarrow> client_env \<Rightarrow> client_event list \<Rightarrow> cconn \<times> client \<Rightarrow> (cconn \<times> client) outcome" where
  "client_exec ssl env [] s = Ret s"
| "client_exec ssl env (ev # evs) s =
     (if client_enabled ev (fst s) (snd s)
      then obind (client_handle ssl env ev ((fst s)\<lparr>t_now := 0\<rparr>) (snd s)) (client_exec ssl env evs)
      else Die ''no such event'')"

lemma client_exec_reaches:
  "client_reaches ssl env m d sep (fst s) (snd s) \<Longrightarrow> client_exec ssl env evs s = Ret s' \<Longrightarrow>
   client_reaches ssl env m d sep (fst s') (snd s')"
proof (induction evs arbitrary: s)
  case (Cons ev evs)
  then obtain s1 where "client_enabled ev (fst s) (snd s)"
    "client_handle ssl env ev ((fst s)\<lparr>t_now := 0\<rparr>) (snd s) = Ret (fst s1, snd s1)"
    "client_exec ssl env evs s1 = Ret s'"
    by (auto simp: obind_eq_Ret split: if_splits)
  with Cons.IH[OF client_next[OF Cons.prems(1)]] show ?case by simp
qed simp

definition client_ssl :: ssl_env where
  "client_ssl = \<lparr>ssl_connect = (\<lambda>_. None), ssl_accept = (\<lambda>_. None),
     ssl_read = (\<lambda>k n. if n = 0 then Inl UnknownError
       else if k = 1 then Inr (take n (''MOIN 1'' @ LINE_TERMINATOR)) else Inr (take n (''OKAY'' @ LINE_TERMINATOR))),
     ssl_write = (\<lambda>k bs. if bs = [] then Inl UnknownError else Inr (length bs)), ssl_shutdown = (\<lambda>_. (0, ShutdownDone)),
     ssl_app_data = (\<lambda>_. None), ssl_bio_fd = (\<lambda>_. 5)\<rparr>"

definition client_openssl :: openssl_env where
  "client_openssl = \<lparr>os_ctx_new = True, os_cipher_list = (\<lambda>_. True), os_new_accept = (\<lambda>_. True), os_bio_new = True,
     os_do_accept = True, os_bio_fd = 3, os_new_connect = (\<lambda>_. True), os_ssl_new = True\<rparr>"

definition client_sample :: client_env where
  "client_sample = \<lparr>ce_session_id = ''ABCDEFGH'', ce_time = (\<lambda>_. 5), ce_getfl = True, ce_setfl = True\<rparr>"

text \<open>The greeting, a command, and the end of the input; then what is buffered is written.\<close>

definition client_events :: "client_event list" where
  "client_events = [OnTls Readable, OnStdin [Got (''hi'' @ [LF])], OnTls Readable, OnTls Readable, OnStdin [Got []],
     OnTls Readable, OnTls Writable, OnTls Closable]"

lemmas client_run_simps = tls_run_simps EXIT_SUCCESS_def EXIT_FAILURE_def client_stop_def send_request_def
  client_bail_def server_is_grumpy_def unexpected_def begin_read_def line_written_def handle_input_eof_def
  read_input_def handle_tls_connect_def handle_tls_moin_response_def handle_tls_push_response_def
  handle_tls_command_response_def handle_tls_quit_response_def client_init_def client_start_def stdin_cb_def
  input_start_def ready_chunk_def delivered_def input_read_chunk_def

lemma client_lines:
  "strncasecmp ''MOIN'' ''MOIN 1'' 4 = 0" "parse_line ''MOIN 1'' 2 = (True, [''MOIN'', ''1''])" "atoi ''1'' = 1"
  "strcasecmp ''OKAY'' ''OKAY'' = 0" "parse_command 5 ''hi'' = ''[5] hi''" "show_nat 7 = ''7''"
  by code_simp+

lemma client_sample_fields:
  "ce_session_id client_sample = ''ABCDEFGH''" "ce_getfl client_sample" "ce_setfl client_sample"
  by (simp_all add: client_sample_def)

lemma client_builds:
  "c_mode g = CLIENT_MODE_COMMAND \<Longrightarrow> build_command client_sample ''hi'' g = Ret (''[5] hi'' @ [LF], 7)"
  by (simp add: build_command_def client_sample_def client_lines [simplified] store_def)

lemma client_pushes:
  assumes "c_mode g = CLIENT_MODE_COMMAND" "\<not> t_freed tls" "\<not> w_active (t_watcher tls ReadW)"
  shows "push_request client_sample ''hi'' tls g =
     Ret (begin_read TlsPushResponse 0 (line_written ''PUSH 7'' tls),
       g\<lparr>c_command := ''[5] hi'' @ [LF], c_command_length := 7, c_commands := c_commands g @ [''[5] hi'' @ [LF]]\<rparr>)"
proof -
  have "\<not> is_active ReadW tls" using assms(3) by (simp add: is_active_def)
  then show ?thesis using assms(1,2)
    by (simp add: push_request_def client_builds client_lines tls_write_line_eq tls_read_line_def tls_read_eq)
qed

lemmas client_facts = client_lines [simplified] client_sample_fields client_pushes [simplified]

definition client_first :: "(cconn \<times> client) outcome" where
  "client_first = client_start client_openssl client_ssl client_sample ''host:5668'' ''PSK'' 0 0 CLIENT_MODE_COMMAND TAB LF"

lemma client_sample_run:
  "\<exists>tls g. obind client_first (client_exec client_ssl client_sample client_events) = Ret (tls, g) \<and>
     c_freed g \<and> t_freed tls \<and> c_exit_code g = EXIT_SUCCESS \<and> c_commands g = [''[5] hi'' @ [LF]] \<and>
     c_text g = Some (''hi'' @ [LF])"
  by (simp add: client_run_simps client_facts client_first_def client_openssl_def client_ssl_def
      client_events_def replicate_numeral_unfold cong: obind_weak_cong prod.case_cong_weak)

lemma client_middle_run:
  "\<exists>tls g. obind client_first (client_exec client_ssl client_sample (take 2 client_events)) = Ret (tls, g) \<and>
     \<not> t_freed tls \<and> c_exit_code g = EXIT_SUCCESS \<and> is_active ReadW tls \<and> c_commands g = [''[5] hi'' @ [LF]]"
  by (simp add: client_run_simps client_facts client_first_def client_openssl_def client_ssl_def
      client_events_def replicate_numeral_unfold cong: obind_weak_cong prod.case_cong_weak)

lemma client_run_reaches:
  assumes "obind client_first (client_exec client_ssl client_sample evs) = Ret (tls, g)"
  shows "client_reaches client_ssl client_sample CLIENT_MODE_COMMAND TAB LF tls g"
proof -
  obtain s where s: "client_first = Ret s" "client_exec client_ssl client_sample evs s = Ret (tls, g)"
    using assms by (auto simp: obind_eq_Ret)
  have "client_reaches client_ssl client_sample CLIENT_MODE_COMMAND TAB LF (fst s) (snd s)"
    using s(1) by (intro client_begin) (auto simp: client_first_def)
  from client_exec_reaches[OF this s(2)] show ?thesis by simp
qed

lemma client_ssl_ok: "ssl_ok client_ssl"
  by (auto simp: ssl_ok_def client_ssl_def split: if_splits)

section \<open>Consequences of the invariant\<close>

lemma live_client_waits:
  assumes "tls_inv tls" "client_good env tls g"
  shows "\<exists>ev. client_enabled ev tls g"
proof -
  have w: "client_enabled (OnTls Handshake) tls g = is_active InitW tls" "client_enabled (OnTls Readable) tls g = is_active ReadW tls"
    "client_enabled (OnTls Writable) tls g = is_active WriteW tls" "client_enabled (OnTls Closable) tls g = is_active ShutdownW tls"
    by simp_all
  consider "connecting tls g" | "talking env tls g" | "leaving env tls g" using assms(2) by (auto simp: client_good_def)
  then show ?thesis
  proof cases
    case 2
    show ?thesis
    proof (cases "reading tls")
      case None
      then obtain inp where "c_input g = Some inp" "i_active inp" using 2 by (auto simp: talking_def idling_def)
      then have "client_enabled (OnStdin []) tls g" by simp
      then show ?thesis by blast
    next
      case (Some m)
      then show ?thesis using w(2) by (metis option.distinct(1) reading_def)
    qed
  next
    case 3
    then have "is_active WriteW tls \<or> is_active ShutdownW tls" using assms(1) by (auto simp: leaving_def tls_inv_def)
    then show ?thesis using w(3,4) by blast
  next
    case 1
    then have "client_enabled (OnTls Handshake) tls g" by (simp add: connecting_def)
    then show ?thesis by blast
  qed
qed

lemma freed_client_rests:
  assumes "asleep tls" "stopped env g"
  shows "\<not> client_enabled ev tls g"
proof (cases ev)
  case (OnTls e)
  then show ?thesis using assms(1) by (cases e) (simp_all add: asleep_def)
qed (use assms(2) in \<open>simp add: stopped_def\<close>)

text \<open>What the client has written is the beginning of the whole conversation.\<close>

lemma awaiting_prefix:
  assumes "awaiting env h w g"
  shows "prefix w (hello env @ pushed (c_commands g) @ wire_line ''QUIT'') \<and>
    c_confirmed g \<le> length (c_commands g) \<and> length (c_commands g) \<le> Suc (c_confirmed g)"
  using assms by (cases h) (auto simp: finished_def)

lemma live_client_prefix:
  assumes "client_good env tls g" "c_exit_code g = EXIT_SUCCESS"
  shows "prefix (t_written tls) (hello env @ pushed (c_commands g) @ wire_line ''QUIT'') \<and>
    c_confirmed g \<le> length (c_commands g) \<and> length (c_commands g) \<le> Suc (c_confirmed g)"
proof -
  consider "connecting tls g" | "talking env tls g" | "leaving env tls g" using assms(1) by (auto simp: client_good_def)
  then show ?thesis
  proof cases
    case 2
    then show ?thesis using awaiting_prefix
      by (cases "reading tls") (auto simp: talking_def idling_def split: prod.splits)
  next
    case 3
    then show ?thesis using assms(2) by (auto simp: leaving_def stopped_def finished_def)
  qed (auto simp: connecting_def)
qed

lemma client_finished:
  assumes "client_reaches ssl env mode delimiter separator tls g" "ssl_ok ssl"
    and "c_freed g" "c_exit_code g = EXIT_SUCCESS"
  shows "c_quit g \<and> c_confirmed g = length (c_commands g) \<and>
    (\<exists>text. c_text g = Some text \<and>
      commands_of env mode delimiter 0
        (map cstr (pieces (if mode = CLIENT_MODE_COMMAND then LF else separator) text)) = Ret (c_commands g))"
proof -
  have "stopped env g" "settings g = settings (client_init mode delimiter separator)"
    using client_reaches_ok[OF assms(1,2)] assms(3)
    by (auto simp: good_with_def stopped_with_def client_good_def connecting_def talking_def alive_def leaving_def
        split: if_splits)
  then show ?thesis using assms(4)
    by (auto simp: stopped_def finished_def said_def settings_def client_init_def)
qed

section \<open>Properties of the client\<close>

text \<open>
  Property C7. Whatever the server, OpenSSL and the standard input answer, the client handles
  every event that can happen, without a use after free, a double free, a second read request
  while one is pending, a NULL handler or an endless loop: it goes on, or it ends the program
  for a TLS error, an unreadable standard input, or a line that is no check result.
\<close>

theorem client_never_fails:
  assumes "client_reaches ssl env mode delimiter separator tls g" "ssl_ok ssl" "client_enabled ev tls g"
  shows "(\<exists>tls' g'. client_handle ssl env ev tls g = Ret (tls', g')) \<or>
    (\<exists>e \<in> CLIENT_FATAL. client_handle ssl env ev tls g = Die e)"
  using client_handle_ok[OF assms(2) client_reaches_ok[OF assms(1,2)] assms(3)]
  by (cases "client_handle ssl env ev tls g") auto

lemma client_never_fails_witness:
  "\<exists>tls g. (\<exists>r. client_handle client_ssl client_sample (OnTls Readable) tls g = Ret r) \<or>
     (\<exists>e \<in> CLIENT_FATAL. client_handle client_ssl client_sample (OnTls Readable) tls g = Die e)"
proof -
  obtain tls g where "obind client_first (client_exec client_ssl client_sample (take 2 client_events)) = Ret (tls, g)"
    "is_active ReadW tls" using client_middle_run by blast
  from client_never_fails[OF client_run_reaches[OF this(1)] client_ssl_ok, of "OnTls Readable"] this(2)
  show ?thesis by fastforce
qed

text \<open>
  Property C17. The client is never stuck: until its connection has been freed, some event can
  happen, so it waits for something; once it has been freed, none can, so the event loop
  returns. A client whose connection is gone has freed its own state as well.
\<close>

theorem client_never_stuck:
  assumes "client_reaches ssl env mode delimiter separator tls g" "ssl_ok ssl"
  shows "((\<exists>ev. client_enabled ev tls g) = (\<not> t_freed tls)) \<and> (t_freed tls \<longrightarrow> c_freed g)"
proof (cases "t_freed tls")
  case True
  then have "asleep tls" "stopped env g" using client_reaches_ok[OF assms] by (simp_all add: stopped_with_def)
  then show ?thesis using freed_client_rests True by (auto simp: stopped_def)
next
  case False
  then show ?thesis using client_reaches_ok[OF assms] live_client_waits by (auto simp: good_with_def)
qed

lemma client_never_stuck_witness:
  "\<exists>tls (g :: client). (\<exists>ev. client_enabled ev tls g) \<and> \<not> t_freed tls \<and> c_commands g = [''[5] hi'' @ [LF]]"
proof -
  obtain tls g where "obind client_first (client_exec client_ssl client_sample (take 2 client_events)) = Ret (tls, g)"
    "\<not> t_freed tls" "c_commands g = [''[5] hi'' @ [LF]]" using client_middle_run by blast
  with client_never_stuck[OF client_run_reaches[OF this(1)] client_ssl_ok] show ?thesis by blast
qed

text \<open>
  Property C16. As long as nothing has gone wrong, what the client has written is a beginning
  of one conversation: the greeting with its session ID, then for each command the
  announcement of its length and the command, then the request to quit; and at most the last
  command has not been confirmed by the server.
\<close>

theorem client_conversation:
  assumes "client_reaches ssl env mode delimiter separator tls g" "ssl_ok ssl" "\<not> t_freed tls"
    and "c_exit_code g = EXIT_SUCCESS"
  shows "prefix (t_written tls) (hello env @ pushed (c_commands g) @ wire_line ''QUIT'') \<and>
    c_confirmed g \<le> length (c_commands g) \<and> length (c_commands g) \<le> Suc (c_confirmed g)"
  using client_reaches_ok[OF assms(1,2)] assms(3,4) live_client_prefix
  by (auto simp: good_with_def split: if_splits)

lemma client_conversation_witness:
  "\<exists>(tls :: cconn) (g :: client). prefix (t_written tls) (hello client_sample @ pushed (c_commands g) @ wire_line ''QUIT'') \<and>
     c_commands g = [''[5] hi'' @ [LF]] \<and> c_confirmed g \<le> 1"
proof -
  obtain tls g where "obind client_first (client_exec client_ssl client_sample (take 2 client_events)) = Ret (tls, g)"
    "\<not> t_freed tls" "c_exit_code g = EXIT_SUCCESS" "c_commands g = [''[5] hi'' @ [LF]]" using client_middle_run by blast
  with client_conversation[OF client_run_reaches[OF this(1)] client_ssl_ok this(2,3)] show ?thesis
    by (intro exI[of _ tls] exI[of _ g]) simp
qed

text \<open>
  Property C5. A client that stops with success has read its standard input to the end, cut
  it at the separator, made a command of every piece that is not just newlines, and the
  server has confirmed each of these commands and the request to quit.
\<close>

theorem client_delivers:
  assumes "client_reaches ssl env mode delimiter separator tls g" "ssl_ok ssl"
    and "c_freed g" "c_exit_code g = EXIT_SUCCESS"
  shows "c_quit g \<and> c_confirmed g = length (c_commands g) \<and>
    (\<exists>text. c_text g = Some text \<and>
      commands_of env mode delimiter 0
        (map cstr (pieces (if mode = CLIENT_MODE_COMMAND then LF else separator) text)) = Ret (c_commands g))"
  by (rule client_finished[OF assms])

lemma client_delivers_witness:
  "commands_of client_sample CLIENT_MODE_COMMAND TAB 0 (map cstr (pieces LF (''hi'' @ [LF]))) = Ret [''[5] hi'' @ [LF]]"
proof -
  obtain tls g where "obind client_first (client_exec client_ssl client_sample client_events) = Ret (tls, g)"
    "c_freed g" "c_exit_code g = EXIT_SUCCESS" "c_commands g = [''[5] hi'' @ [LF]]" "c_text g = Some (''hi'' @ [LF])"
    using client_sample_run by blast
  with client_delivers[OF client_run_reaches[OF this(1)] client_ssl_ok this(2,3)] show ?thesis by simp
qed

end
