(* ===== verification/SendNsca.thy ===== *)
theory SendNsca
  imports ClientOptions ClientSession
begin

text \<open>
  The program \<open>send_nsca\<close>: \<open>main\<close> of \<open>src/client/send_nsca.c\<close>, which starts the client with
  the settings of the command line and the configuration and runs it.
\<close>

section \<open>The program\<close>

record client_settings =
  cs_host_port :: string
  cs_ciphers :: string
  cs_timeout :: int
  cs_mode :: client_mode
  cs_delimiter :: byte
  cs_separator :: byte
  cs_log :: log_state
  cs_slept :: "nat \<times> nat"
  cs_conf :: conf

text \<open>\<open>main\<close> up to the call of \<open>client_start\<close>.\<close>

definition client_setup :: "send_env \<Rightarrow> string list \<Rightarrow> (int + client_settings) outcome" where
  "client_setup env args =
     (let lg = log_set (level_num Warning) LOG_TARGET_STDERR log_initial in
      if \<not> se_atexit env then Die ''Cannot register function to be called on exit''
      else if \<not> se_loop env then Die ''Cannot initialize libev''
      else obind (client_get_options args) (\<lambda>r.
        case r of
          Inl status \<Rightarrow> Ret (Inl status)
        | Inr opt \<Rightarrow>
            obind (client_conf env opt) (\<lambda>cfg.
            let lg = log_set (co_log_level opt) (co_log_target opt) lg in
            obind (client_delay env cfg) (\<lambda>slept.
            obind (get_text cfg ''server'') (\<lambda>server.
            obind (get_text cfg ''port'') (\<lambda>port.
            obind (get_text cfg ''tls_ciphers'') (\<lambda>ciphers.
            obind (conf_getint cfg ''timeout'') (\<lambda>timeout.
              Ret (Inr \<lparr>cs_host_port = server @ '':'' @ port, cs_ciphers = ciphers, cs_timeout = timeout,
                cs_mode = (if co_raw_commands opt then CLIENT_MODE_COMMAND else CLIENT_MODE_CHECK_RESULT),
                cs_delimiter = co_delimiter opt, cs_separator = co_separator opt,
                cs_log = lg, cs_slept = slept, cs_conf = cfg\<rparr>)))))))))"

text \<open>
  The whole of \<open>main\<close>, with the events the event loop reports until none can happen any more;
  the program ends with the exit code the client leaves, after the exit function has
  overwritten the password, whose memory is the last component of the result.
\<close>

definition send_nsca ::
  "send_env \<Rightarrow> openssl_env \<Rightarrow> ssl_env \<Rightarrow> client_env \<Rightarrow> real \<Rightarrow> client_event list \<Rightarrow> string list
    \<Rightarrow> (int + cconn \<times> client \<times> string option) outcome" where
  "send_nsca env os ssl cenv now evs args =
     obind (client_setup env args) (\<lambda>r.
       case r of
         Inl status \<Rightarrow> Ret (Inl status)
       | Inr s \<Rightarrow>
           obind (client_start os ssl cenv (cs_host_port s) (cs_ciphers s) (real_of_int (cs_timeout s)) now
             (cs_mode s) (cs_delimiter s) (cs_separator s)) (\<lambda>st.
           obind (client_exec ssl cenv evs st) (\<lambda>(tls, g).
           obind (client_forget_config (Some (cs_conf s))) (\<lambda>(password, _).
             Ret (Inr (tls, g, password))))))"


section \<open>Lemmas\<close>

lemma client_setup_Inr:
  assumes "client_setup env args = Ret (Inr s)"
  obtains opt where "client_get_options args = Ret (Inr opt)" "cs_delimiter s = co_delimiter opt"
    "cs_separator s = co_separator opt"
    "cs_mode s = (if co_raw_commands opt then CLIENT_MODE_COMMAND else CLIENT_MODE_CHECK_RESULT)"
proof -
  obtain r where r: "client_get_options args = Ret r" using assms
    by (auto simp: client_setup_def obind_eq_Ret Let_def split: if_splits)
  then obtain opt where "r = Inr opt" using assms by (cases r) (auto simp: client_setup_def split: if_splits)
  with r assms show ?thesis by (intro that[of opt]) (auto simp: client_setup_def obind_eq_Ret Let_def split: if_splits)
qed

lemma send_nsca_reaches:
  assumes "send_nsca env os ssl cenv now evs args = Ret (Inr (tls, g, password))"
  obtains opt where "client_get_options args = Ret (Inr opt)"
    "client_reaches ssl cenv (if co_raw_commands opt then CLIENT_MODE_COMMAND else CLIENT_MODE_CHECK_RESULT)
       (co_delimiter opt) (co_separator opt) tls g" "\<forall>p. password = Some p \<longrightarrow> set p \<subseteq> {NUL}"
proof -
  obtain r where r: "client_setup env args = Ret r" using assms by (auto simp: send_nsca_def obind_eq_Ret)
  then obtain s where s: "r = Inr s" using assms by (cases r) (auto simp: send_nsca_def)
  obtain st where st: "client_start os ssl cenv (cs_host_port s) (cs_ciphers s) (real_of_int (cs_timeout s)) now
      (cs_mode s) (cs_delimiter s) (cs_separator s) = Ret st" "client_exec ssl cenv evs st = Ret (tls, g)"
    using assms by (auto simp: send_nsca_def r s obind_eq_Ret)
  have p: "\<forall>p. password = Some p \<longrightarrow> set p \<subseteq> {NUL}"
    using assms by (auto simp: send_nsca_def r s obind_eq_Ret client_forget_config_def)
  have "client_reaches ssl cenv (cs_mode s) (cs_delimiter s) (cs_separator s) (fst st) (snd st)"
    using st(1) by (intro client_begin) (simp add: prod_eq_iff)
  from client_exec_reaches[OF this st(2)]
  have c: "client_reaches ssl cenv (cs_mode s) (cs_delimiter s) (cs_separator s) tls g" by simp
  obtain opt where "client_get_options args = Ret (Inr opt)" "cs_delimiter s = co_delimiter opt"
    "cs_separator s = co_separator opt" "cs_mode s = (if co_raw_commands opt then CLIENT_MODE_COMMAND else CLIENT_MODE_CHECK_RESULT)"
    using client_setup_Inr[of env args s] r s by blast
  with c p show ?thesis by (intro that[of opt]) simp_all
qed

lemma client_ended:
  assumes "client_reaches ssl env mode delimiter separator tls g" "ssl_ok ssl" "\<forall>ev. \<not> client_enabled ev tls g"
  shows "c_freed g"
  using client_reaches_ok[OF assms(1,2)] live_client_waits assms(3)
  by (auto simp: good_with_def stopped_with_def stopped_def split: if_splits)

section \<open>A sample run\<close>

definition send_sample :: send_env where
  "send_sample = \<lparr>se_atexit = True, se_loop = True, se_default_conf = ''/etc/send_nsca.cfg'', se_open = (\<lambda>_. Some \<lparr>st_bytes = [], st_error = False\<rparr>),
     se_closes = True, se_host_name = Some ''client'', se_random = (\<lambda>_. 7)\<rparr>"

definition send_args :: "string list" where
  "send_args = [''-CH'', ''host'', ''-o'', ''0'']"

lemma send_sample_options:
  "client_get_options send_args =
     Ret (Inr (client_no_options\<lparr>co_raw_commands := True, co_server := Some ''host'', co_timeout := 0\<rparr>))"
  by code_simp

lemma send_sample_setup:
  "\<exists>s. client_setup send_sample send_args = Ret (Inr s) \<and> cs_timeout s = 0 \<and>
     cs_host_port s = ''host:5668'' \<and> cs_mode s = CLIENT_MODE_COMMAND \<and>
     cs_delimiter s = TAB \<and> cs_separator s = ETB \<and> conf_getstr (cs_conf s) ''password'' = Ret (Some DEFAULT_PASSWORD)"
  by (simp add: client_setup_def send_sample_options client_conf_def send_sample_def conf_init_empty
      client_no_options_def override_str_def override_int_def default_conf_def conf_setstr_def conf_setint_def
      client_delay_def conf_getint_def get_text_def conf_getstr_def DEFAULT_PORT_def)

lemma client_start_sample:
  "client_start client_openssl client_ssl client_sample ''host:5668'' c 0 0 CLIENT_MODE_COMMAND TAB sep = client_first"
  by (simp add: client_first_def client_start_def tls_client_start_def initialize_openssl_def tls_connect_def
      client_openssl_def client_init_def)

lemma send_nsca_sample:
  "\<exists>tls g password. send_nsca send_sample client_openssl client_ssl client_sample 0 client_events send_args = Ret (Inr (tls, g, password)) \<and>
     (\<forall>ev. \<not> client_enabled ev tls g) \<and> c_exit_code g = EXIT_SUCCESS \<and> c_commands g = [''[5] hi'' @ [LF]] \<and>
     c_text g = Some (''hi'' @ [LF])"
proof -
  obtain s where s: "client_setup send_sample send_args = Ret (Inr s)" "cs_timeout s = 0"
    "cs_host_port s = ''host:5668''" "cs_mode s = CLIENT_MODE_COMMAND" "cs_delimiter s = TAB" "cs_separator s = ETB"
    "conf_getstr (cs_conf s) ''password'' = Ret (Some DEFAULT_PASSWORD)"
    using send_sample_setup by blast
  obtain tls g where r: "obind client_first (client_exec client_ssl client_sample client_events) = Ret (tls, g)"
    "t_freed tls" "c_exit_code g = EXIT_SUCCESS" "c_commands g = [''[5] hi'' @ [LF]]" "c_text g = Some (''hi'' @ [LF])"
    using client_sample_run by blast
  from client_reaches_ok[OF client_run_reaches[OF r(1)] client_ssl_ok] r(2)
  have "\<forall>ev. \<not> client_enabled ev tls g" using freed_client_rests by (auto simp: stopped_with_def)
  moreover have "\<exists>password. send_nsca send_sample client_openssl client_ssl client_sample 0 client_events send_args = Ret (Inr (tls, g, password))"
    using r(1) by (auto simp: send_nsca_def s client_start_sample client_forget_config_def obind_eq_Ret)
  ultimately show ?thesis using r by blast
qed

section \<open>Properties\<close>

text \<open>
  Property C4. When \<open>send_nsca\<close> has done all it can and ends with status 0, without having been
  asked for help or its version, then it has read its standard input to the end, cut it at
  the separator the command line asks for, made a command of every piece with the delimiter
  the command line asks for, and the server has confirmed every command and the end. The
  password has been overwritten when the program ends.
\<close>

theorem send_nsca_success:
  assumes "send_nsca env os ssl cenv now evs args = Ret (Inr (tls, g, password))" "ssl_ok ssl"
    and "\<forall>ev. \<not> client_enabled ev tls g" "c_exit_code g = EXIT_SUCCESS"
  shows "\<exists>opt text. client_get_options args = Ret (Inr opt) \<and> c_text g = Some text \<and>
    c_quit g \<and> c_confirmed g = length (c_commands g) \<and> (\<forall>p. password = Some p \<longrightarrow> set p \<subseteq> {NUL}) \<and>
    commands_of cenv (if co_raw_commands opt then CLIENT_MODE_COMMAND else CLIENT_MODE_CHECK_RESULT) (co_delimiter opt) 0
      (map cstr (pieces (if co_raw_commands opt then LF else co_separator opt) text)) = Ret (c_commands g)"
proof -
  obtain opt where o: "client_get_options args = Ret (Inr opt)"
    "client_reaches ssl cenv (if co_raw_commands opt then CLIENT_MODE_COMMAND else CLIENT_MODE_CHECK_RESULT)
       (co_delimiter opt) (co_separator opt) tls g"
    "\<forall>p. password = Some p \<longrightarrow> set p \<subseteq> {NUL}"
    using send_nsca_reaches[OF assms(1)] .
  from client_finished[OF o(2) assms(2) client_ended[OF o(2) assms(2,3)] assms(4)] o(1,3)
  show ?thesis by (auto split: if_splits)
qed

lemma send_nsca_success_witness:
  "\<exists>opt. client_get_options send_args = Ret (Inr opt) \<and>
     commands_of client_sample (if co_raw_commands opt then CLIENT_MODE_COMMAND else CLIENT_MODE_CHECK_RESULT) (co_delimiter opt) 0
       (map cstr (pieces (if co_raw_commands opt then LF else co_separator opt) (''hi'' @ [LF]))) = Ret [''[5] hi'' @ [LF]]"
proof -
  obtain tls g password where "send_nsca send_sample client_openssl client_ssl client_sample 0 client_events send_args = Ret (Inr (tls, g, password))"
    "\<forall>ev. \<not> client_enabled ev tls g" "c_exit_code g = EXIT_SUCCESS" "c_commands g = [''[5] hi'' @ [LF]]"
    "c_text g = Some (''hi'' @ [LF])"
    using send_nsca_sample by blast
  with send_nsca_success[OF this(1) client_ssl_ok this(2,3)] show ?thesis by auto
qed

end
