(* ===== verification/Pidfile.thy ===== *)
theory Pidfile
  imports Numbers
begin

text \<open>
  The PID file, \<open>src/lib/pidfile/pidfile.c\<close> and \<open>flopen.c\<close>: opening and locking it, writing
  the process ID, reading that of another process, and removing it. The answers of the system
  calls are functions of the number of calls made before. What the functions change outside
  is which descriptors are open, what has been written through them, and whether the file has
  been unlinked.
\<close>

section \<open>The system\<close>

text \<open>\<open>EWOULDBLOCK\<close> is \<open>EAGAIN\<close>; the other error numbers are told apart by a number.\<close>

datatype errno = EAGAIN | EINVAL | EEXIST | ENAMETOOLONG | ErrNo nat

type_synonym file_id = "nat \<times> nat"

record pid_os =
  po_open :: "nat \<Rightarrow> errno + int"
  po_flock :: "nat \<Rightarrow> errno option"
  po_stat :: "nat \<Rightarrow> file_id option"
  po_fstat :: "nat \<Rightarrow> errno + file_id"
  po_ftruncate :: "nat \<Rightarrow> errno option"
  po_pwrite :: "nat \<Rightarrow> errno option"
  po_close :: "nat \<Rightarrow> errno option"
  po_unlink :: "nat \<Rightarrow> errno option"
  po_contents :: "nat \<Rightarrow> errno + bytes"
  po_getpid :: nat

record pid_state =
  pd_calls :: nat
  pd_open :: "int list"
  pd_contents :: bytes
  pd_unlinked :: bool

definition call :: "pid_state \<Rightarrow> pid_state" where
  "call st = st\<lparr>pd_calls := Suc (pd_calls st)\<rparr>"

definition sys_close :: "pid_os \<Rightarrow> int \<Rightarrow> pid_state \<Rightarrow> errno option \<times> pid_state" where
  "sys_close os fd st = (po_close os (pd_calls st), (call st)\<lparr>pd_open := remove1 fd (pd_open st)\<rparr>)"

definition sys_unlink :: "pid_os \<Rightarrow> pid_state \<Rightarrow> errno option \<times> pid_state" where
  "sys_unlink os st =
     (po_unlink os (pd_calls st), (call st)\<lparr>pd_unlinked := pd_unlinked st \<or> po_unlink os (pd_calls st) = None\<rparr>)"

definition sys_ftruncate :: "pid_os \<Rightarrow> pid_state \<Rightarrow> errno option \<times> pid_state" where
  "sys_ftruncate os st =
     (po_ftruncate os (pd_calls st),
      (call st)\<lparr>pd_contents := if po_ftruncate os (pd_calls st) = None then [] else pd_contents st\<rparr>)"

definition sys_pwrite :: "pid_os \<Rightarrow> bytes \<Rightarrow> pid_state \<Rightarrow> errno option \<times> pid_state" where
  "sys_pwrite os bs st =
     (po_pwrite os (pd_calls st),
      (call st)\<lparr>pd_contents := if po_pwrite os (pd_calls st) = None then bs @ drop (length bs) (pd_contents st)
                 else pd_contents st\<rparr>)"

section \<open>Opening with a lock\<close>

text \<open>One turn of the loop of \<open>flopen\<close>; without a result the file has changed in the meantime.\<close>

definition flopen_once :: "pid_os \<Rightarrow> bool \<Rightarrow> pid_state \<Rightarrow> (errno + int) option \<times> pid_state" where
  "flopen_once os trunc st =
     (case po_open os (pd_calls st) of
        Inl e \<Rightarrow> (Some (Inl e), call st)
      | Inr fd \<Rightarrow>
          let st = (call st)\<lparr>pd_open := fd # pd_open st\<rparr> in
          case po_flock os (pd_calls st) of
            Some e \<Rightarrow> (Some (Inl e), snd (sys_close os fd (call st)))
          | None \<Rightarrow>
              let st = call st in
              case po_stat os (pd_calls st) of
                None \<Rightarrow> (None, snd (sys_close os fd (call st)))
              | Some sb \<Rightarrow>
                  let st = call st in
                  case po_fstat os (pd_calls st) of
                    Inl e \<Rightarrow> (Some (Inl e), snd (sys_close os fd (call st)))
                  | Inr fsb \<Rightarrow>
                      let st = call st in
                      if sb \<noteq> fsb then (None, snd (sys_close os fd st))
                      else if trunc then
                        (case sys_ftruncate os st of
                           (Some e, st) \<Rightarrow> (Some (Inl e), snd (sys_close os fd st))
                         | (None, st) \<Rightarrow> (Some (Inr fd), st))
                      else (Some (Inr fd), st))"

text \<open>The loop may go on as long as the file changes.\<close>

partial_function (option) flopen :: "pid_os \<Rightarrow> bool \<Rightarrow> pid_state \<Rightarrow> ((errno + int) \<times> pid_state) option" where
  "flopen os trunc st =
     (case flopen_once os trunc st of
        (Some r, st) \<Rightarrow> Some (r, st)
      | (None, st) \<Rightarrow> flopen os trunc st)"

section \<open>The handle\<close>

definition MAXPATHLEN :: nat where "MAXPATHLEN = 4096"

record pidfh =
  pf_fd :: int
  pf_path :: string
  pf_id :: file_id

text \<open>What a pointer to a handle points to.\<close>

datatype handle = NoHandle | Handle pidfh | FreedHandle

definition pidfile_verify :: "pid_os \<Rightarrow> handle \<Rightarrow> pid_state \<Rightarrow> (errno option \<times> pid_state) outcome" where
  "pidfile_verify os h st =
     (case h of
        NoHandle \<Rightarrow> Ret (Some EINVAL, st)
      | FreedHandle \<Rightarrow> Die ''use of a freed handle''
      | Handle pfh \<Rightarrow>
          if pf_fd pfh = - 1 then Ret (Some EINVAL, st)
          else case po_fstat os (pd_calls st) of
            Inl e \<Rightarrow> Ret (Some e, call st)
          | Inr sb \<Rightarrow> Ret (if sb \<noteq> pf_id pfh then Some EINVAL else None, call st))"

definition PID_BUFFER_SIZE :: nat where "PID_BUFFER_SIZE = 16"

text \<open>
  \<open>open\<close>, \<open>read\<close> and \<open>close\<close> of the file of another process; a \<open>pid_t\<close> is an \<open>int\<close>. The
  pointer comparison finds the end of what was read, not the first NUL byte.
\<close>

definition pidfile_read :: "pid_os \<Rightarrow> pid_state \<Rightarrow> (errno option \<times> int) \<times> pid_state" where
  "pidfile_read os st =
     (case po_contents os (pd_calls st) of
        Inl e \<Rightarrow> ((Some e, - 1), call st)
      | Inr bs \<Rightarrow>
          let buf = take (PID_BUFFER_SIZE - 1) bs in
          if buf = [] then ((Some EAGAIN, - 1), call st)
          else
            let (pid, rest) = strtol (cstr buf) 10 in
            if length (cstr buf) - length rest = length buf then ((None, to_int pid), call st)
            else ((Some EINVAL, to_int pid), call st))"

fun read_retries :: "pid_os \<Rightarrow> nat \<Rightarrow> pid_state \<Rightarrow> (errno option \<times> int) \<times> pid_state" where
  "read_retries os count st =
     (case pidfile_read os st of
        ((err, pid), st) \<Rightarrow>
          if err \<noteq> Some EAGAIN \<or> count \<le> 1 then ((err, pid), st) else read_retries os (count - 1) st)"

text \<open>The result is a handle, or the error and, if there is one, the ID of the other process.\<close>

definition pidfile_open :: "pid_os \<Rightarrow> string \<Rightarrow> pid_state \<Rightarrow> (((errno \<times> int option) + pidfh) \<times> pid_state) option" where
  "pidfile_open os path st =
     (if length path \<ge> MAXPATHLEN + 1 then Some (Inl (ENAMETOOLONG, None), st)
      else case flopen os True st of
        None \<Rightarrow> None
      | Some (Inl EAGAIN, st) \<Rightarrow>
          Some (case read_retries os 20 st of
            ((None, pid), st) \<Rightarrow> (Inl (EEXIST, Some pid), st)
          | ((Some e, pid), st) \<Rightarrow>
              (if e = EAGAIN then (Inl (EEXIST, Some (- 1)), st) else (Inl (e, None), st)))
      | Some (Inl e, st) \<Rightarrow> Some (Inl (e, None), st)
      | Some (Inr fd, st) \<Rightarrow>
          Some (case po_fstat os (pd_calls st) of
            Inl e \<Rightarrow> (Inl (e, None), snd (sys_close os fd (snd (sys_unlink os (call st)))))
          | Inr sb \<Rightarrow> (Inr \<lparr>pf_fd = fd, pf_path = path, pf_id = sb\<rparr>, call st)))"

definition pidfile_remove_with :: "bool \<Rightarrow> pid_os \<Rightarrow> handle \<Rightarrow> pid_state \<Rightarrow> (errno option \<times> handle \<times> pid_state) outcome" where
  "pidfile_remove_with freeit os h st =
     obind (pidfile_verify os h st) (\<lambda>(err, st).
       case err of
         Some e \<Rightarrow> Ret (Some e, h, st)
       | None \<Rightarrow>
           (case h of
              Handle pfh \<Rightarrow>
                (case sys_unlink os st of
                   (err, st) \<Rightarrow>
                     (case sys_close os (pf_fd pfh) st of
                        (err', st) \<Rightarrow>
                          Ret (case err of Some e \<Rightarrow> Some e | None \<Rightarrow> err',
                               if freeit then FreedHandle else Handle (pfh\<lparr>pf_fd := - 1\<rparr>), st)))
            | _ \<Rightarrow> Die ''no handle''))"

definition pidfile_remove :: "pid_os \<Rightarrow> handle \<Rightarrow> pid_state \<Rightarrow> (errno option \<times> handle \<times> pid_state) outcome" where
  "pidfile_remove = pidfile_remove_with True"

definition pidfile_write :: "pid_os \<Rightarrow> handle \<Rightarrow> pid_state \<Rightarrow> (errno option \<times> handle \<times> pid_state) outcome" where
  "pidfile_write os h st =
     obind (pidfile_verify os h st) (\<lambda>(err, st).
       case err of
         Some e \<Rightarrow> Ret (Some e, h, st)
       | None \<Rightarrow>
           (case sys_ftruncate os st of
              (Some e, st) \<Rightarrow>
                obind (pidfile_remove_with False os h st) (\<lambda>(_, h, st). Ret (Some e, h, st))
            | (None, st) \<Rightarrow>
                let pidstr = take (PID_BUFFER_SIZE - 1) (show_nat (po_getpid os mod 2 ^ 32)) in
                (case sys_pwrite os pidstr st of
                   (Some e, st) \<Rightarrow>
                     obind (pidfile_remove_with False os h st) (\<lambda>(_, h, st). Ret (Some e, h, st))
                 | (None, st) \<Rightarrow> Ret (None, h, st))))"

definition pidfile_close :: "pid_os \<Rightarrow> handle \<Rightarrow> pid_state \<Rightarrow> (errno option \<times> handle \<times> pid_state) outcome" where
  "pidfile_close os h st =
     obind (pidfile_verify os h st) (\<lambda>(err, st).
       case err of
         Some e \<Rightarrow> Ret (Some e, h, st)
       | None \<Rightarrow>
           (case h of
              Handle pfh \<Rightarrow> (case sys_close os (pf_fd pfh) st of (err, st) \<Rightarrow> Ret (err, FreedHandle, st))
            | _ \<Rightarrow> Die ''no handle''))"

definition pidfile_fileno :: "handle \<Rightarrow> (errno + int) outcome" where
  "pidfile_fileno h =
     (case h of
        FreedHandle \<Rightarrow> Die ''use of a freed handle''
      | NoHandle \<Rightarrow> Ret (Inl EINVAL)
      | Handle pfh \<Rightarrow> Ret (if pf_fd pfh = - 1 then Inl EINVAL else Inr (pf_fd pfh)))"

section \<open>Lemmas\<close>

lemma call_fields [simp]:
  "pd_calls (call st) = Suc (pd_calls st)" "pd_open (call st) = pd_open st"
  "pd_contents (call st) = pd_contents st" "pd_unlinked (call st) = pd_unlinked st"
  by (simp_all add: call_def)

lemma sys_close_fields [simp]:
  "pd_open (snd (sys_close os fd st)) = remove1 fd (pd_open st)"
  "pd_contents (snd (sys_close os fd st)) = pd_contents st"
  "pd_unlinked (snd (sys_close os fd st)) = pd_unlinked st"
  by (simp_all add: sys_close_def)

lemma sys_unlink_fields [simp]:
  "pd_open (snd (sys_unlink os st)) = pd_open st"
  "pd_contents (snd (sys_unlink os st)) = pd_contents st"
  "fst (sys_unlink os st) = None \<Longrightarrow> pd_unlinked (snd (sys_unlink os st))"
  by (simp_all add: sys_unlink_def)

text \<open>The file that \<open>fd\<close> refers to was locked and then still the one at its path.\<close>

definition locked_there :: "pid_os \<Rightarrow> int \<Rightarrow> bool" where
  "locked_there os fd \<longleftrightarrow>
     (\<exists>k i. po_open os k = Inr fd \<and> po_flock os (k + 1) = None \<and> po_stat os (k + 2) = Some i \<and>
        po_fstat os (k + 3) = Inr i)"

lemma flopen_once_result:
  assumes "flopen_once os trunc st = (r, st')"
  shows "case r of
      Some (Inr fd) \<Rightarrow> pd_open st' = fd # pd_open st \<and> locked_there os fd \<and> (trunc \<longrightarrow> pd_contents st' = [])
    | _ \<Rightarrow> pd_open st' = pd_open st"
proof -
  have l: "locked_there os fd" if "po_open os (pd_calls st) = Inr fd" "po_flock os (Suc (pd_calls st)) = None"
    "po_stat os (Suc (Suc (pd_calls st))) = Some i" "po_fstat os (Suc (Suc (Suc (pd_calls st)))) = Inr i" for fd i
    using that unfolding locked_there_def
    by (intro exI[of _ "pd_calls st"] exI[of _ i]) (simp add: eval_nat_numeral)
  show ?thesis
    using assms l by (auto simp: flopen_once_def Let_def sys_ftruncate_def
        split: sum.splits option.splits if_splits)
qed

text \<open>The state after a number of turns that had no result.\<close>

definition flopen_after :: "pid_os \<Rightarrow> bool \<Rightarrow> nat \<Rightarrow> pid_state \<Rightarrow> pid_state" where
  "flopen_after os trunc n st = ((\<lambda>s. snd (flopen_once os trunc s)) ^^ n) st"

lemma flopen_after_simps [simp]:
  "flopen_after os trunc 0 st = st"
  "flopen_after os trunc (Suc n) st = flopen_after os trunc n (snd (flopen_once os trunc st))"
  by (simp_all add: flopen_after_def funpow_swap1 del: funpow.simps(2) add: funpow_Suc_right)


lemma flopen_returned:
  assumes "flopen os trunc st = Some x"
  shows "\<exists>n. (\<forall>m < n. fst (flopen_once os trunc (flopen_after os trunc m st)) = None) \<and>
    flopen_once os trunc (flopen_after os trunc n st) = (Some (fst x), snd x)"
proof (rule flopen.raw_induct [where P = "\<lambda>os trunc st x. \<exists>n. (\<forall>m < n. fst (flopen_once os trunc (flopen_after os trunc m st)) = None) \<and>
    flopen_once os trunc (flopen_after os trunc n st) = (Some (fst x), snd x)", OF _ assms])
  fix f os trunc st x
  assume IH: "\<And>os trunc st x. f os trunc st = Some x \<Longrightarrow>
      \<exists>n. (\<forall>m < n. fst (flopen_once os trunc (flopen_after os trunc m st)) = None) \<and>
        flopen_once os trunc (flopen_after os trunc n st) = (Some (fst x), snd x)"
    and eq: "(case flopen_once os trunc st of (Some r, st) \<Rightarrow> Some (r, st) | (None, st) \<Rightarrow> f os trunc st) = Some x"
  obtain r st1 where o: "flopen_once os trunc st = (r, st1)" by (cases "flopen_once os trunc st")
  show "\<exists>n. (\<forall>m < n. fst (flopen_once os trunc (flopen_after os trunc m st)) = None) \<and>
      flopen_once os trunc (flopen_after os trunc n st) = (Some (fst x), snd x)"
  proof (cases r)
    case None
    then have "f os trunc st1 = Some x" using eq o by simp
    from IH[OF this] obtain n where n: "\<forall>m < n. fst (flopen_once os trunc (flopen_after os trunc m st1)) = None"
      "flopen_once os trunc (flopen_after os trunc n st1) = (Some (fst x), snd x)" by blast
    have "\<forall>m < Suc n. fst (flopen_once os trunc (flopen_after os trunc m st)) = None"
    proof (intro allI impI)
      fix m assume "m < Suc n"
      then show "fst (flopen_once os trunc (flopen_after os trunc m st)) = None"
        using n(1) o None by (cases m) simp_all
    qed
    then show ?thesis using n(2) o by (intro exI[of _ "Suc n"]) simp
  next
    case (Some a)
    then show ?thesis using eq o by (intro exI[of _ 0]) auto
  qed
qed

lemma flopen_after_open:
  assumes "\<forall>m < n. fst (flopen_once os trunc (flopen_after os trunc m st)) = None"
  shows "pd_open (flopen_after os trunc n st) = pd_open st"
  using assms
proof (induction n arbitrary: st)
  case (Suc n)
  obtain st1 where st1: "flopen_once os trunc st = (None, st1)"
    using Suc.prems[rule_format, of 0] by (cases "flopen_once os trunc st") simp
  have "fst (flopen_once os trunc (flopen_after os trunc m st1)) = None" if "m < n" for m
    using Suc.prems[rule_format, of "Suc m"] st1 that by simp
  with Suc.IH[of st1] flopen_once_result[OF st1] show ?case by (simp add: st1)
qed simp

lemma flopen_result:
  assumes "flopen os trunc st = Some (r, st')"
  shows "case r of
      Inr fd \<Rightarrow> pd_open st' = fd # pd_open st \<and> locked_there os fd \<and> (trunc \<longrightarrow> pd_contents st' = [])
    | Inl e \<Rightarrow> pd_open st' = pd_open st"
proof -
  obtain n where n: "\<forall>m < n. fst (flopen_once os trunc (flopen_after os trunc m st)) = None"
    "flopen_once os trunc (flopen_after os trunc n st) = (Some r, st')"
    using flopen_returned[OF assms] by auto
  from flopen_once_result[OF n(2)] flopen_after_open[OF n(1)] show ?thesis by (simp split: sum.splits)
qed

lemma read_retries_open [simp]: "pd_open (snd (read_retries os count st)) = pd_open st"
proof (induction os count st rule: read_retries.induct)
  case (1 os count st)
  have r: "pd_open (snd (pidfile_read os st)) = pd_open st"
    by (auto simp: pidfile_read_def Let_def split: sum.split prod.split)
  obtain err pid st1 where p: "pidfile_read os st = ((err, pid), st1)" by (cases "pidfile_read os st") auto
  show ?case using 1[OF p[symmetric]] r by (subst read_retries.simps) (simp add: p)
qed

declare read_retries.simps [simp del]

lemma read_retries_keeps: "read_retries os count st = (r, st') \<Longrightarrow> pd_open st' = pd_open st"
  using read_retries_open[of os count st] by simp

lemma pidfile_open_result:
  assumes "pidfile_open os path st = Some (r, st')"
  shows "case r of
      Inr pfh \<Rightarrow> pd_open st' = pf_fd pfh # pd_open st \<and> locked_there os (pf_fd pfh) \<and> pd_contents st' = [] \<and>
        length path \<le> MAXPATHLEN \<and> pf_path pfh = path
    | Inl e \<Rightarrow> pd_open st' = pd_open st"
proof (cases "length path \<ge> MAXPATHLEN + 1")
  case False
  then obtain r1 st1 where f: "flopen os True st = Some (r1, st1)"
    using assms by (auto simp: pidfile_open_def split: option.splits)
  show ?thesis
  proof (cases r1)
    case (Inr fd)
    then show ?thesis using assms False flopen_result[OF f]
      by (auto simp: pidfile_open_def f split: sum.splits)
  next
    case (Inl e)
    then show ?thesis using assms False flopen_result[OF f]
      by (cases e) (auto simp: pidfile_open_def f dest: read_retries_keeps split: prod.splits option.splits if_splits)
  qed
qed (use assms in \<open>auto simp: pidfile_open_def\<close>)

lemma show_nat_length: "n < 10 ^ k \<Longrightarrow> 0 < k \<Longrightarrow> length (show_nat n) \<le> k"
proof (induction k arbitrary: n)
  case (Suc k)
  show ?case
  proof (cases "n < 10")
    case False
    then have "0 < k" using Suc.prems(1) by (cases k) auto
    with Suc have "length (show_nat (n div 10)) \<le> k" by simp
    with False show ?thesis by (subst show_nat.simps) simp
  qed (simp add: show_nat.simps)
qed simp

text \<open>A handle after a call that worked: freed, marked as closed, or as before.\<close>

lemma verify_result:
  assumes "pidfile_verify os h st = Ret (r, st')"
  shows "pd_open st' = pd_open st" "pd_contents st' = pd_contents st" "pd_unlinked st' = pd_unlinked st"
    "r = None \<Longrightarrow> \<exists>pfh. h = Handle pfh \<and> pf_fd pfh \<noteq> - 1"
  using assms by (auto simp: pidfile_verify_def split: handle.splits if_splits sum.splits)

lemma remove_with_result:
  assumes "pidfile_remove_with freeit os h st = Ret (r, h', st')"
  shows "pd_contents st' = pd_contents st"
    "h' = h \<and> r \<noteq> None \<and> pd_open st' = pd_open st \<or>
     (\<exists>pfh. h = Handle pfh \<and> pf_fd pfh \<noteq> - 1 \<and> h' = (if freeit then FreedHandle else Handle (pfh\<lparr>pf_fd := - 1\<rparr>)) \<and>
        pd_open st' = remove1 (pf_fd pfh) (pd_open st) \<and> (r = None \<longrightarrow> pd_unlinked st'))"
proof -
  obtain v st1 where v: "pidfile_verify os h st = Ret (v, st1)"
    using assms by (auto simp: pidfile_remove_with_def obind_eq_Ret)
  show "pd_contents st' = pd_contents st"
    "h' = h \<and> r \<noteq> None \<and> pd_open st' = pd_open st \<or>
     (\<exists>pfh. h = Handle pfh \<and> pf_fd pfh \<noteq> - 1 \<and> h' = (if freeit then FreedHandle else Handle (pfh\<lparr>pf_fd := - 1\<rparr>)) \<and>
        pd_open st' = remove1 (pf_fd pfh) (pd_open st) \<and> (r = None \<longrightarrow> pd_unlinked st'))"
    using assms verify_result[OF v] by (auto simp: pidfile_remove_with_def v split_beta split: option.splits handle.splits)
qed

lemma write_result:
  assumes "pidfile_write os h st = Ret (None, h', st')"
  shows "h' = h" "pd_open st' = pd_open st" "pd_contents st' = take 15 (show_nat (po_getpid os mod 2 ^ 32))"
    "pd_unlinked st' = pd_unlinked st"
  using assms
  by (auto simp: pidfile_write_def obind_eq_Ret Let_def split_beta sys_ftruncate_def sys_pwrite_def PID_BUFFER_SIZE_def
      dest: verify_result split: option.splits prod.splits if_splits)

section \<open>Properties\<close>


text \<open>
  The PID file that is opened is locked by this process, is the file at the given
  path, is empty, and its descriptor is the only one left open, whatever was opened and given
  up on the way; if it cannot be opened no descriptor is left open.
\<close>

theorem pidfile_open_correct:
  assumes "pidfile_open os path st = Some (r, st')"
  shows "case r of
      Inr pfh \<Rightarrow> pd_open st' = pf_fd pfh # pd_open st \<and> locked_there os (pf_fd pfh) \<and> pd_contents st' = [] \<and>
        length path \<le> MAXPATHLEN \<and> pf_path pfh = path
    | Inl e \<Rightarrow> pd_open st' = pd_open st"
  by (rule pidfile_open_result[OF assms])

definition pid_sample :: pid_os where
  "pid_sample = \<lparr>po_open = (\<lambda>k. Inr (7 + int k)), po_flock = (\<lambda>_. None), po_stat = (\<lambda>k. if k < 4 then None else Some (1, 2)),
     po_fstat = (\<lambda>_. Inr (1, 2)), po_ftruncate = (\<lambda>_. None), po_pwrite = (\<lambda>_. None), po_close = (\<lambda>_. None),
     po_unlink = (\<lambda>_. None), po_contents = (\<lambda>_. Inr ''4711''), po_getpid = 4711\<rparr>"

definition pid_start :: pid_state where
  "pid_start = \<lparr>pd_calls = 0, pd_open = [], pd_contents = ''99'', pd_unlinked = False\<rparr>"

text \<open>The file disappears once; the second descriptor is the one that is kept.\<close>

lemma pid_sample_opens:
  "\<exists>st. pidfile_open pid_sample ''/run/x.pid'' pid_start = Some (Inr \<lparr>pf_fd = 11, pf_path = ''/run/x.pid'', pf_id = (1, 2)\<rparr>, st)"
  by (simp add: pidfile_open_def MAXPATHLEN_def flopen.simps flopen_once_def pid_sample_def pid_start_def sys_close_def
      sys_ftruncate_def)

lemma pid_sample_writes:
  "\<exists>st'. pidfile_write pid_sample (Handle \<lparr>pf_fd = 11, pf_path = ''/run/x.pid'', pf_id = (1, 2)\<rparr>) st =
     Ret (None, Handle \<lparr>pf_fd = 11, pf_path = ''/run/x.pid'', pf_id = (1, 2)\<rparr>, st')"
  by (simp add: pidfile_write_def pidfile_verify_def pid_sample_def sys_ftruncate_def sys_pwrite_def Let_def)

lemma pid_sample_removes:
  "\<exists>st'. pidfile_remove pid_sample (Handle \<lparr>pf_fd = 11, pf_path = ''/run/x.pid'', pf_id = (1, 2)\<rparr>) st = Ret (None, FreedHandle, st')"
  by (simp add: pidfile_remove_def pidfile_remove_with_def pidfile_verify_def pid_sample_def sys_unlink_def sys_close_def)

lemma pidfile_open_correct_witness:
  "\<exists>st. pidfile_open pid_sample ''/run/x.pid'' pid_start = Some (Inr \<lparr>pf_fd = 11, pf_path = ''/run/x.pid'', pf_id = (1, 2)\<rparr>, st) \<and>
     pd_open st = [11] \<and> pd_contents st = []"
  using pid_sample_opens pidfile_open_correct[of pid_sample "''/run/x.pid''" pid_start] by (fastforce simp: pid_start_def)

text \<open>
  Property C27. The process ID that was written is read back by another process that finds
  these contents in the file.
\<close>

theorem pid_roundtrip:
  assumes "pidfile_write os h st = Ret (None, h', st')" "po_getpid os < 2 ^ 31"
    and "po_contents os' (pd_calls s) = Inr (pd_contents st')"
  shows "pidfile_read os' s = ((None, int (po_getpid os)), call s)"
proof -
  let ?t = "show_nat (po_getpid os)"
  have "length ?t \<le> 10" using assms(2) by (intro show_nat_length) auto
  moreover have m: "po_getpid os mod 2 ^ 32 = po_getpid os" using assms(2) by simp
  ultimately have c: "pd_contents st' = ?t" using write_result(3)[OF assms(1)] unfolding m by simp
  have t: "take 15 ?t = ?t" using \<open>length ?t \<le> 10\<close> by simp
  have "strtol ?t 10 = (int (po_getpid os), [])"
    using strtol_show[of "[]" "po_getpid os"] assms(2) by (simp add: clamp_long_def)
  moreover have "cstr ?t = ?t" by (simp add: cstr_id)
  ultimately show ?thesis using assms(2,3) by (simp add: pidfile_read_def c t Let_def PID_BUFFER_SIZE_def)
qed

lemma pid_roundtrip_witness:
  "\<exists>st. pidfile_write pid_sample (Handle \<lparr>pf_fd = 7, pf_path = ''p'', pf_id = (1, 2)\<rparr>) pid_start =
      Ret (None, Handle \<lparr>pf_fd = 7, pf_path = ''p'', pf_id = (1, 2)\<rparr>, st) \<and>
    pidfile_read (pid_sample\<lparr>po_contents := \<lambda>_. Inr (pd_contents st)\<rparr>) pid_start = ((None, 4711), call pid_start)"
proof -
  let ?h = "Handle \<lparr>pf_fd = 7, pf_path = ''p'', pf_id = (1, 2)\<rparr>"
  obtain st where w: "pidfile_write pid_sample ?h pid_start = Ret (None, ?h, st)"
    by (simp add: pidfile_write_def pidfile_verify_def pid_sample_def sys_ftruncate_def sys_pwrite_def Let_def)
  have "po_getpid pid_sample = 4711" by (simp add: pid_sample_def)
  with pid_roundtrip[OF w, of "pid_sample\<lparr>po_contents := \<lambda>_. Inr (pd_contents st)\<rparr>" pid_start] w show ?thesis by auto
qed

text \<open>
  A PID file that is opened, written and removed leaves nothing behind: no
  descriptor is open that was not open before, the handle is freed, and the file is unlinked.
  A removal that fails leaves the handle as it was, or has closed the descriptor and freed the
  handle as well.
\<close>

theorem pidfile_lifecycle:
  assumes "pidfile_open os path st = Some (Inr pfh, st1)" "pidfile_write os (Handle pfh) st1 = Ret (None, h, st2)"
    and "pidfile_remove os h st2 = Ret (r, h', st3)"
  shows "(r = None \<longrightarrow> h' = FreedHandle \<and> pd_unlinked st3) \<and>
    (h' = FreedHandle \<and> pd_open st3 = pd_open st \<or> h' = Handle pfh \<and> pd_open st3 = pf_fd pfh # pd_open st)"
  using pidfile_open_result[OF assms(1)] write_result[OF assms(2)]
    remove_with_result(2)[OF assms(3)[unfolded pidfile_remove_def]] by auto

lemma pidfile_lifecycle_witness:
  "\<exists>st1 h st2 st3. pidfile_open pid_sample ''/run/x.pid'' pid_start = Some (Inr \<lparr>pf_fd = 11, pf_path = ''/run/x.pid'', pf_id = (1, 2)\<rparr>, st1) \<and>
     pidfile_write pid_sample (Handle \<lparr>pf_fd = 11, pf_path = ''/run/x.pid'', pf_id = (1, 2)\<rparr>) st1 = Ret (None, h, st2) \<and>
     pidfile_remove pid_sample h st2 = Ret (None, FreedHandle, st3) \<and> pd_open st3 = [] \<and> pd_unlinked st3"
proof -
  let ?p = "\<lparr>pf_fd = 11, pf_path = ''/run/x.pid'', pf_id = (1, 2)\<rparr>"
  obtain st1 where o: "pidfile_open pid_sample ''/run/x.pid'' pid_start = Some (Inr ?p, st1)"
    using pid_sample_opens by blast
  obtain st2 where w: "pidfile_write pid_sample (Handle ?p) st1 = Ret (None, Handle ?p, st2)"
    using pid_sample_writes by blast
  obtain st3 where r: "pidfile_remove pid_sample (Handle ?p) st2 = Ret (None, FreedHandle, st3)"
    using pid_sample_removes by blast
  from pidfile_lifecycle[OF o w r] have "pd_unlinked st3" "pd_open st3 = []" by (simp_all add: pid_start_def)
  with o w r show ?thesis by blast
qed

end
