(* ===== verification/Hash.thy ===== *)
theory Hash
  imports Prelude
begin

text \<open>
  The hash table of \<open>src/server/hash.c\<close>, a wrapper of the C library's \<open>hsearch(3)\<close>.
  The table is the association list of the entered keys with their data pointers (NULL is
  \<open>None\<close>) and the number of entries it has room for; \<open>hcreate(3)\<close>, which may round the
  requested size up and may fail, is an argument. The theory ends with the interface the
  configuration and the authentication rely on, the locale \<open>keyed_store\<close>, and its
  interpretation on the table.
\<close>

section \<open>The table\<close>

record 'v hash_table =
  room :: nat
  entries :: "(string \<times> 'v option) list"

text \<open>\<open>hsearch\<close> with \<open>FIND\<close> and \<open>ENTER\<close>: the entry's data and the table, or NULL.\<close>

definition hsearch_find :: "'v hash_table \<Rightarrow> string \<Rightarrow> 'v option option" where
  "hsearch_find t k = map_of (entries t) k"

definition hsearch_enter :: "'v hash_table \<Rightarrow> string \<Rightarrow> 'v option \<Rightarrow> 'v hash_table option" where
  "hsearch_enter t k d =
     (if map_of (entries t) k \<noteq> None then Some t
      else if length (entries t) < room t then Some (t\<lparr>entries := (k, d) # entries t\<rparr>)
      else None)"

text \<open>\<open>p->data = value\<close> through the entry pointer the search returned.\<close>

fun set_data :: "string \<Rightarrow> 'v option \<Rightarrow> (string \<times> 'v option) list \<Rightarrow> (string \<times> 'v option) list" where
  "set_data k d [] = []"
| "set_data k d ((k', d') # es) =
     (if k = k' then (k', d) # es else (k', d') # set_data k d es)"

section \<open>Operations\<close>

definition hash_new :: "(nat \<Rightarrow> nat option) \<Rightarrow> nat \<Rightarrow> 'v hash_table outcome" where
  "hash_new hcreate n =
     (case hcreate n of
        None \<Rightarrow> Die ''Cannot create hash table''
      | Some r \<Rightarrow> Ret \<lparr>room = r, entries = []\<rparr>)"

definition hash_insert :: "string \<Rightarrow> 'v option \<Rightarrow> 'v hash_table \<Rightarrow> 'v hash_table outcome" where
  "hash_insert key v t =
     (case hsearch_enter t key None of
        None \<Rightarrow> Die ''Cannot insert into hash table''
      | Some t' \<Rightarrow> Ret (t'\<lparr>entries := set_data key v (entries t')\<rparr>))"

definition hash_lookup :: "'v hash_table \<Rightarrow> string \<Rightarrow> 'v option" where
  "hash_lookup t key = (case hsearch_find t key of None \<Rightarrow> None | Some d \<Rightarrow> d)"

section \<open>Lookup after insertion\<close>

definition free_room :: "'v hash_table \<Rightarrow> nat" where
  "free_room t = room t - length (entries t)"

lemma map_of_set_data:
  "map_of (set_data k d es) k' =
     (if k = k' \<and> map_of es k \<noteq> None then Some d else map_of es k')"
  by (induction es) auto

lemma length_set_data [simp]: "length (set_data k d es) = length es"
  by (induction k d es rule: set_data.induct) auto

lemma hash_insert_lookup:
  "hash_insert k v t = Ret t' \<Longrightarrow> hash_lookup t' k' = (if k' = k then v else hash_lookup t k')"
  by (auto simp: hash_insert_def hsearch_enter_def hash_lookup_def hsearch_find_def map_of_set_data
      split: option.splits if_splits)

lemma hash_insert_room:
  "hash_insert k v t = Ret t' \<Longrightarrow> free_room t \<le> Suc (free_room t')"
  by (auto simp: hash_insert_def hsearch_enter_def free_room_def split: option.splits if_splits)

lemma hash_insert_returns: "0 < free_room t \<Longrightarrow> \<exists>t'. hash_insert k v t = Ret t'"
  by (auto simp: hash_insert_def hsearch_enter_def free_room_def)

lemma hash_insert_full:
  "free_room t = 0 \<Longrightarrow> hsearch_find t k = None \<Longrightarrow> \<exists>e. hash_insert k v t = Die e"
  by (auto simp: hash_insert_def hsearch_enter_def hsearch_find_def free_room_def)

lemma hash_new_empty [simp]:
  "hash_new hcreate n = Ret t \<Longrightarrow> hash_lookup t k = None"
  by (auto simp: hash_new_def hash_lookup_def hsearch_find_def split: option.splits)

section \<open>The interface: a bounded store of keyed values\<close>

locale keyed_store =
  fixes put :: "string \<Rightarrow> 'v option \<Rightarrow> 's \<Rightarrow> 's outcome"
    and get :: "'s \<Rightarrow> string \<Rightarrow> 'v option"
    and space :: "'s \<Rightarrow> nat"
  assumes put_returns: "0 < space s \<Longrightarrow> \<exists>s'. put k v s = Ret s'"
    and put_get: "put k v s = Ret s' \<Longrightarrow> get s' k' = (if k' = k then v else get s k')"
    and put_space: "put k v s = Ret s' \<Longrightarrow> space s \<le> Suc (space s')"
begin

text \<open>Storing a list of items, later ones over earlier ones, never fails while there is room.\<close>

fun put_all :: "(string \<times> 'v) list \<Rightarrow> 's \<Rightarrow> 's outcome" where
  "put_all [] s = Ret s"
| "put_all ((k, v) # kvs) s = obind (put k (Some v) s) (put_all kvs)"

lemma put_all_returns: "length kvs \<le> space s \<Longrightarrow> \<exists>s'. put_all kvs s = Ret s'"
proof (induction kvs s rule: put_all.induct)
  case (2 k v kvs s)
  from 2(2) have "0 < space s" by simp
  then obtain s1 where s1: "put k (Some v) s = Ret s1" using put_returns by blast
  with put_space[OF s1] 2(2) have "length kvs \<le> space s1" by simp
  with 2(1)[of s1] show ?case by (simp add: s1)
qed simp

lemma put_all_get:
  "put_all kvs s = Ret s' \<Longrightarrow>
   get s' k = (case map_of (rev kvs) k of Some v \<Rightarrow> Some v | None \<Rightarrow> get s k)"
proof (induction kvs s arbitrary: s' rule: put_all.induct)
  case (2 k' v kvs s)
  then obtain s1 where s1: "put k' (Some v) s = Ret s1" "put_all kvs s1 = Ret s'" by auto
  from 2(1)[OF s1] put_get[OF s1(1), of k] show ?case
    by (auto simp: map_add_def split: option.splits)
qed simp

lemma put_all_distinct:
  assumes "put_all kvs s = Ret s'" "distinct (map fst kvs)" "get s = (\<lambda>_. None)"
  shows "get s' k = map_of kvs k"
  using put_all_get[OF assms(1), of k] assms(2,3)
  by (simp add: map_of_rev_distinct split: option.splits)

end

interpretation table: keyed_store hash_insert hash_lookup free_room
  by unfold_locales (simp_all add: hash_insert_returns hash_insert_lookup hash_insert_room)

end
