(* ===== verification/ServerConf.thy ===== *)
theory ServerConf
  imports CString Hash
begin

text \<open>
  The server's configuration, \<open>src/server/conf.c\<close>: the translation of host, service and
  command patterns into regular expressions, the inclusion of files and directories, the
  fallback of the \<open>authorize\<close> sections to the global settings, and the table of sections.

  The configuration parser libConfuse, \<open>regcomp(3)\<close>, \<open>nftw(3)\<close> and \<open>stat(2)\<close> are
  arguments. A parsed configuration is a record of option values: \<open>cfg_size\<close> and
  \<open>cfg_opt_getnstr\<close> are the length and the members of an option's value list. What
  \<open>cfg_setopt\<close> does (it runs the option's parse callback and appends the value, or gives
  NULL) is the hypothesis \<open>setopt_ok\<close>.
\<close>

section \<open>Patterns\<close>

definition host_to_command :: "string \<Rightarrow> string" where
  "host_to_command host_pattern = ''PROCESS_HOST_CHECK_RESULT;'' @ host_pattern @ '';.+''"

text \<open>\<open>*at = '\0'\<close> cuts the pattern before its last \<open>@\<close>.\<close>

definition service_to_command :: "string \<Rightarrow> string" where
  "service_to_command service_pattern =
     (let pattern = service_pattern;
          (host_part, pattern) =
            (case strrchr pattern (CHR ''@'') of
               None \<Rightarrow> (''[^;]+'', pattern)
             | Some at_sign \<Rightarrow> (tl at_sign, take (length pattern - length at_sign) pattern));
          service_part = pattern
      in ''PROCESS_SERVICE_CHECK_RESULT;'' @ host_part @ '';'' @ service_part @ '';.+;.+'')"

text \<open>
  The parse callbacks give the compiled expression, or nothing where they report an error
  (a non-zero result) to the parser.
\<close>

definition parse_command_pattern_cb :: "(string \<Rightarrow> 're option) \<Rightarrow> string \<Rightarrow> 're option" where
  "parse_command_pattern_cb regcomp value =
     (let pattern = ''^'' @ value @ [LF] @ ''?$'' in regcomp pattern)"

definition parse_host_pattern_cb :: "(string \<Rightarrow> 're option) \<Rightarrow> string \<Rightarrow> 're option" where
  "parse_host_pattern_cb regcomp value = parse_command_pattern_cb regcomp (host_to_command value)"

definition parse_service_pattern_cb :: "(string \<Rightarrow> 're option) \<Rightarrow> string \<Rightarrow> 're option" where
  "parse_service_pattern_cb regcomp value =
     parse_command_pattern_cb regcomp (service_to_command value)"

text \<open>The validation callbacks look at the value set last.\<close>

definition validate_unsigned_int_cb :: "int list \<Rightarrow> int" where
  "validate_unsigned_int_cb values = (if values ! (length values - 1) < 0 then - 1 else 0)"

definition validate_unsigned_float_cb :: "real list \<Rightarrow> int" where
  "validate_unsigned_float_cb values = (if values ! (length values - 1) < 0 then - 1 else 0)"

section \<open>The parsed configuration\<close>

datatype setting = Hosts | Services | Commands | Password

record 're auth_section =
  a_title :: string
  a_password :: "string list"
  a_hosts :: "'re list"
  a_services :: "'re list"
  a_commands :: "'re list"

text \<open>Options without a default are lists of at most one value; the others always have a value.\<close>

record 're config =
  c_chroot :: "string list"
  c_command_file :: string
  c_commands :: "string list"
  c_hosts :: "string list"
  c_listen :: string
  c_log_level :: int
  c_max_command_size :: int
  c_max_queue_size :: int
  c_password :: "string list"
  c_pid_file :: "string list"
  c_services :: "string list"
  c_temp_directory :: string
  c_tls_ciphers :: string
  c_timeout :: real
  c_user :: "string list"
  c_authorize :: "'re auth_section list"

text \<open>What \<open>cfg_init(opts)\<close> starts from: the defaults of the option table.\<close>

definition default_config :: "string \<Rightarrow> int \<Rightarrow> 're config" where
  "default_config localstatedir notice =
     \<lparr>c_chroot = [], c_command_file = localstatedir @ ''/nagios/rw/nagios.cmd'',
      c_commands = [], c_hosts = [], c_listen = ''*'', c_log_level = notice,
      c_max_command_size = 16384, c_max_queue_size = 1024, c_password = [], c_pid_file = [],
      c_services = [], c_temp_directory = ''/tmp'',
      c_tls_ciphers = ''PSK-AES256-CBC-SHA:PSK-AES128-CBC-SHA:PSK-3DES-EDE-CBC-SHA:PSK-RC4-SHA'',
      c_timeout = 60, c_user = [], c_authorize = []\<rparr>"

fun auth_size :: "'re auth_section \<Rightarrow> setting \<Rightarrow> nat" where
  "auth_size auth Hosts = length (a_hosts auth)"
| "auth_size auth Services = length (a_services auth)"
| "auth_size auth Commands = length (a_commands auth)"
| "auth_size auth Password = length (a_password auth)"

fun global_values :: "'re config \<Rightarrow> setting \<Rightarrow> string list" where
  "global_values cfg Hosts = c_hosts cfg"
| "global_values cfg Services = c_services cfg"
| "global_values cfg Commands = c_commands cfg"
| "global_values cfg Password = c_password cfg"

section \<open>Defaults for the authorisations\<close>

type_synonym 're setopt = "'re auth_section \<Rightarrow> setting \<Rightarrow> string \<Rightarrow> 're auth_section option"

primrec set_values :: "'re setopt \<Rightarrow> setting \<Rightarrow> string list \<Rightarrow> 're auth_section \<Rightarrow> 're auth_section outcome" where
  "set_values setopt s [] auth = Ret auth"
| "set_values setopt s (v # vs) auth =
     (case setopt auth s v of
        None \<Rightarrow> Die ''exit(EXIT_FAILURE)''
      | Some auth' \<Rightarrow> set_values setopt s vs auth')"

primrec fallback_loop :: "'re setopt \<Rightarrow> 're config \<Rightarrow> setting list \<Rightarrow> 're auth_section \<Rightarrow> 're auth_section outcome" where
  "fallback_loop setopt cfg [] auth = Ret auth"
| "fallback_loop setopt cfg (s # settings) auth =
     obind (if auth_size auth s = 0 \<and> length (global_values cfg s) > 0
            then set_values setopt s (global_values cfg s) auth else Ret auth)
       (fallback_loop setopt cfg settings)"

definition fallback_to_defaults :: "'re setopt \<Rightarrow> 're config \<Rightarrow> 're auth_section \<Rightarrow> 're auth_section outcome" where
  "fallback_to_defaults setopt cfg auth =
     fallback_loop setopt cfg [Hosts, Services, Commands, Password] auth"

definition validate_auth_section :: "'re auth_section \<Rightarrow> unit outcome" where
  "validate_auth_section auth =
     (if auth_size auth Password = 0 then Die ''No password specified'' else Ret ())"

primrec auth_loop ::
  "'re setopt \<Rightarrow> 're config \<Rightarrow> 're auth_section list \<Rightarrow> 're auth_section hash_table
    \<Rightarrow> 're auth_section hash_table outcome" where
  "auth_loop setopt cfg [] t = Ret t"
| "auth_loop setopt cfg (auth # auths) t =
     obind (fallback_to_defaults setopt cfg auth) (\<lambda>auth'.
     obind (validate_auth_section auth') (\<lambda>_.
     obind (hash_insert (a_title auth) (Some auth') t) (auth_loop setopt cfg auths)))"

text \<open>\<open>(size_t)(n_auth_blocks * 1.5)\<close> is exact for an \<open>unsigned int\<close>: \<open>3 n div 2\<close>.\<close>

definition process_auth_sections ::
  "(nat \<Rightarrow> nat option) \<Rightarrow> 're setopt \<Rightarrow> 're config \<Rightarrow> 're auth_section hash_table outcome" where
  "process_auth_sections hcreate setopt cfg =
     (let n_auth_blocks = length (c_authorize cfg) in
      if n_auth_blocks = 0 then Die ''No authorizations configured''
      else obind (hash_new hcreate (3 * n_auth_blocks div 2))
             (auth_loop setopt cfg (c_authorize cfg)))"

section \<open>Files and directories\<close>

datatype file_type = Regular | Directory | Special

text \<open>
  The state is the counter \<open>n_included\<close> and whatever the parser keeps. The parser's
  functions run on it (they call \<open>include_cb\<close> back) and give its status, unless the
  program ends inside them. \<open>walk\<close> is the traversal \<open>nftw\<close> makes of a tree: each path with
  whether its type is \<open>FTW_F\<close>, and whether the traversal itself succeeds.
\<close>

record 'p parser_state =
  n_included :: nat
  parser :: 'p

type_synonym 'p parse_fun = "string \<Rightarrow> 'p parser_state \<Rightarrow> (int \<times> 'p parser_state) outcome"

record 'p parser_env =
  tilde_expand :: "string \<Rightarrow> string option"
  stat_type :: "string \<Rightarrow> file_type option"
  walk :: "string \<Rightarrow> (string \<times> bool) list \<times> bool"
  cfg_include :: "'p parse_fun"
  cfg_parse :: "'p parse_fun"
  cfg_parse_buf :: "'p parse_fun"

definition MAX_INCLUDE :: nat where "MAX_INCLUDE = 1000000"
definition CFG_SUCCESS :: int where "CFG_SUCCESS = 0"
definition CFG_FILE_ERROR :: int where "CFG_FILE_ERROR = - 1"
definition CFG_PARSE_ERROR :: int where "CFG_PARSE_ERROR = 1"

definition parse_include :: "'p parser_env \<Rightarrow> 'p parse_fun" where
  "parse_include env path = cfg_parse_buf env (''include('' @ [CHR 0x27] @ path @ [CHR 0x27] @ '')'')"

definition check_parse_success :: "int \<Rightarrow> unit outcome" where
  "check_parse_success status =
     (if status = CFG_SUCCESS then Ret ()
      else if status = CFG_PARSE_ERROR then Die ''exit(EXIT_FAILURE)''
      else if status = CFG_FILE_ERROR then Die ''Cannot open configuration file for reading''
      else Die ''Cannot parse the configuration'')"

definition include_file_cb :: "'p parser_env \<Rightarrow> string \<Rightarrow> bool \<Rightarrow> 'p parser_state \<Rightarrow> (int \<times> 'p parser_state) outcome" where
  "include_file_cb env path is_file st =
     (if \<not> is_file then Ret (0, st)
      else case strrchr path (CHR ''.'') of
        None \<Rightarrow> Ret (0, st)
      | Some dot \<Rightarrow>
          if dot \<noteq> ''.cfg'' \<and> dot \<noteq> ''.conf'' then Ret (0, st)
          else obind (parse_include env path st) (\<lambda>(status, st).
               obind (check_parse_success status) (\<lambda>_. Ret (0, st))))"

text \<open>\<open>nftw\<close> stops at a non-zero result of the callback, which it returns.\<close>

primrec nftw_loop ::
  "(string \<Rightarrow> bool \<Rightarrow> 's \<Rightarrow> (int \<times> 's) outcome) \<Rightarrow> (string \<times> bool) list \<Rightarrow> 's \<Rightarrow> (int \<times> 's) outcome" where
  "nftw_loop cb [] st = Ret (0, st)"
| "nftw_loop cb (p # ps) st =
     obind (cb (fst p) (snd p) st) (\<lambda>(r, st). if r \<noteq> 0 then Ret (r, st) else nftw_loop cb ps st)"

definition include_cb :: "'p parser_env \<Rightarrow> string list \<Rightarrow> 'p parser_state \<Rightarrow> (int \<times> 'p parser_state) outcome" where
  "include_cb env argv st =
     (let st = st\<lparr>n_included := n_included st + 1\<rparr> in
      if n_included st > MAX_INCLUDE then Ret (1, st)
      else if length argv \<noteq> 1 then Ret (1, st)
      else case tilde_expand env (argv ! 0) of
        None \<Rightarrow> Ret (1, st)
      | Some path \<Rightarrow>
          (case stat_type env path of
             None \<Rightarrow> Ret (1, st)
           | Some Regular \<Rightarrow> cfg_include env (argv ! 0) st
           | Some Directory \<Rightarrow>
               obind (nftw_loop (include_file_cb env) (fst (walk env path)) st) (\<lambda>(r, st).
                 if r = - 1 \<or> (r = 0 \<and> \<not> snd (walk env path)) then Ret (1, st) else Ret (0, st))
           | Some Special \<Rightarrow> Ret (1, st)))"

text \<open>\<open>result\<close> reads the configuration off the parser when it is done.\<close>

definition conf_parse ::
  "'p parser_env \<Rightarrow> ('p parser_state \<Rightarrow> 're config) \<Rightarrow> (nat \<Rightarrow> nat option) \<Rightarrow> 're setopt
    \<Rightarrow> string \<Rightarrow> 'p parser_state \<Rightarrow> ('re config \<times> 're auth_section hash_table) outcome" where
  "conf_parse env result hcreate setopt path st =
     (case stat_type env path of
        None \<Rightarrow> Die ''Cannot access the configuration''
      | Some type \<Rightarrow>
          obind (if type = Directory then parse_include env path st else cfg_parse env path st)
            (\<lambda>(status, st).
          obind (check_parse_success status) (\<lambda>_.
          obind (process_auth_sections hcreate setopt (result st)) (\<lambda>t. Ret (result st, t)))))"

section \<open>What the patterns match\<close>

lemma service_to_command_at:
  assumes "CHR ''@'' \<notin> set h"
  shows "service_to_command (s @ CHR ''@'' # h) =
    ''PROCESS_SERVICE_CHECK_RESULT;'' @ h @ '';'' @ s @ '';.+;.+''"
  using assms by (simp add: service_to_command_def)

lemma service_to_command_plain:
  assumes "CHR ''@'' \<notin> set s"
  shows "service_to_command s = ''PROCESS_SERVICE_CHECK_RESULT;[^;]+;'' @ s @ '';.+;.+''"
  using assms by (simp add: service_to_command_def strrchr_def)

section \<open>The effective authorisations\<close>

text \<open>Documented behaviour of \<open>cfg_setopt\<close> on the options of an \<open>authorize\<close> section.\<close>

definition setopt_ok :: "(string \<Rightarrow> 're option) \<Rightarrow> 're setopt \<Rightarrow> bool" where
  "setopt_ok regcomp setopt \<longleftrightarrow> (\<forall>auth v.
     setopt auth Password v = Some (auth\<lparr>a_password := [v]\<rparr>) \<and>
     setopt auth Hosts v =
       map_option (\<lambda>re. auth\<lparr>a_hosts := a_hosts auth @ [re]\<rparr>) (parse_host_pattern_cb regcomp v) \<and>
     setopt auth Services v =
       map_option (\<lambda>re. auth\<lparr>a_services := a_services auth @ [re]\<rparr>) (parse_service_pattern_cb regcomp v) \<and>
     setopt auth Commands v =
       map_option (\<lambda>re. auth\<lparr>a_commands := a_commands auth @ [re]\<rparr>) (parse_command_pattern_cb regcomp v))"

definition compile_all :: "(string \<Rightarrow> 're option) \<Rightarrow> string list \<Rightarrow> 're list" where
  "compile_all cb vs = map (\<lambda>v. the (cb v)) vs"

definition compile_ok :: "(string \<Rightarrow> 're option) \<Rightarrow> string list \<Rightarrow> bool" where
  "compile_ok cb vs \<longleftrightarrow> (\<forall>v \<in> set vs. cb v \<noteq> None)"

text \<open>An \<open>authorize\<close> section with the global settings in place of those it lacks.\<close>

definition own_or :: "'a list \<Rightarrow> 'a list \<Rightarrow> 'a list" where
  "own_or own global = (if own = [] then global else own)"

definition effective :: "(string \<Rightarrow> 're option) \<Rightarrow> 're config \<Rightarrow> 're auth_section \<Rightarrow> 're auth_section" where
  "effective regcomp cfg auth =
     \<lparr>a_title = a_title auth,
      a_password = own_or (a_password auth) (if c_password cfg = [] then [] else [last (c_password cfg)]),
      a_hosts = own_or (a_hosts auth) (compile_all (parse_host_pattern_cb regcomp) (c_hosts cfg)),
      a_services = own_or (a_services auth) (compile_all (parse_service_pattern_cb regcomp) (c_services cfg)),
      a_commands = own_or (a_commands auth) (compile_all (parse_command_pattern_cb regcomp) (c_commands cfg))\<rparr>"

definition defaults_compile :: "(string \<Rightarrow> 're option) \<Rightarrow> 're config \<Rightarrow> 're auth_section \<Rightarrow> bool" where
  "defaults_compile regcomp cfg auth \<longleftrightarrow>
     (a_hosts auth = [] \<longrightarrow> compile_ok (parse_host_pattern_cb regcomp) (c_hosts cfg)) \<and>
     (a_services auth = [] \<longrightarrow> compile_ok (parse_service_pattern_cb regcomp) (c_services cfg)) \<and>
     (a_commands auth = [] \<longrightarrow> compile_ok (parse_command_pattern_cb regcomp) (c_commands cfg))"

lemma set_values_password:
  "setopt_ok regcomp setopt \<Longrightarrow>
   set_values setopt Password vs auth =
     Ret (if vs = [] then auth else auth\<lparr>a_password := [last vs]\<rparr>)"
  by (induction vs arbitrary: auth) (simp_all add: setopt_ok_def)

text \<open>The three pattern options are alike: an accessor, an update and a callback.\<close>

lemma set_values_patterns:
  assumes "\<And>auth v. setopt auth s v = map_option (\<lambda>re. upd (\<lambda>rs. rs @ [re]) auth) (cb v)"
    and "\<And>auth f g. upd g (upd f auth) = upd (\<lambda>rs. g (f rs)) auth"
    and "\<And>auth. upd (\<lambda>rs. rs) auth = auth"
  shows "set_values setopt s vs auth =
    (if compile_ok cb vs then Ret (upd (\<lambda>rs. rs @ compile_all cb vs) auth) else Die ''exit(EXIT_FAILURE)'')"
  by (induction vs arbitrary: auth)
    (auto simp: assms compile_ok_def compile_all_def split: option.splits)

lemma auth_updates:
  "a_hosts_update (\<lambda>rs. rs @ xs) auth = auth\<lparr>a_hosts := a_hosts auth @ xs\<rparr>"
  "a_services_update (\<lambda>rs. rs @ xs) auth = auth\<lparr>a_services := a_services auth @ xs\<rparr>"
  "a_commands_update (\<lambda>rs. rs @ xs) auth = auth\<lparr>a_commands := a_commands auth @ xs\<rparr>"
  by (simp_all)

lemma set_values_hosts:
  "setopt_ok regcomp setopt \<Longrightarrow> set_values setopt Hosts vs auth =
     (if compile_ok (parse_host_pattern_cb regcomp) vs
      then Ret (a_hosts_update (\<lambda>rs. rs @ compile_all (parse_host_pattern_cb regcomp) vs) auth)
      else Die ''exit(EXIT_FAILURE)'')"
  by (rule set_values_patterns) (simp_all add: setopt_ok_def auth_updates)

lemma set_values_services:
  "setopt_ok regcomp setopt \<Longrightarrow> set_values setopt Services vs auth =
     (if compile_ok (parse_service_pattern_cb regcomp) vs
      then Ret (a_services_update (\<lambda>rs. rs @ compile_all (parse_service_pattern_cb regcomp) vs) auth)
      else Die ''exit(EXIT_FAILURE)'')"
  by (rule set_values_patterns) (simp_all add: setopt_ok_def auth_updates)

lemma set_values_commands:
  "setopt_ok regcomp setopt \<Longrightarrow> set_values setopt Commands vs auth =
     (if compile_ok (parse_command_pattern_cb regcomp) vs
      then Ret (a_commands_update (\<lambda>rs. rs @ compile_all (parse_command_pattern_cb regcomp) vs) auth)
      else Die ''exit(EXIT_FAILURE)'')"
  by (rule set_values_patterns) (simp_all add: setopt_ok_def auth_updates)

lemmas set_values_simps = set_values_password set_values_hosts set_values_services set_values_commands

definition setting_stage :: "'re setopt \<Rightarrow> 're config \<Rightarrow> setting \<Rightarrow> 're auth_section \<Rightarrow> 're auth_section outcome" where
  "setting_stage setopt cfg s auth =
     (if auth_size auth s = 0 \<and> length (global_values cfg s) > 0
      then set_values setopt s (global_values cfg s) auth else Ret auth)"

lemma setting_stage_eq:
  assumes "setopt_ok regcomp setopt"
  shows "setting_stage setopt cfg Hosts auth =
      (if a_hosts auth = [] \<longrightarrow> compile_ok (parse_host_pattern_cb regcomp) (c_hosts cfg)
       then Ret (auth\<lparr>a_hosts := own_or (a_hosts auth) (compile_all (parse_host_pattern_cb regcomp) (c_hosts cfg))\<rparr>)
       else Die ''exit(EXIT_FAILURE)'')"
    and "setting_stage setopt cfg Services auth =
      (if a_services auth = [] \<longrightarrow> compile_ok (parse_service_pattern_cb regcomp) (c_services cfg)
       then Ret (auth\<lparr>a_services := own_or (a_services auth) (compile_all (parse_service_pattern_cb regcomp) (c_services cfg))\<rparr>)
       else Die ''exit(EXIT_FAILURE)'')"
    and "setting_stage setopt cfg Commands auth =
      (if a_commands auth = [] \<longrightarrow> compile_ok (parse_command_pattern_cb regcomp) (c_commands cfg)
       then Ret (auth\<lparr>a_commands := own_or (a_commands auth) (compile_all (parse_command_pattern_cb regcomp) (c_commands cfg))\<rparr>)
       else Die ''exit(EXIT_FAILURE)'')"
    and "setting_stage setopt cfg Password auth =
      Ret (auth\<lparr>a_password := own_or (a_password auth) (if c_password cfg = [] then [] else [last (c_password cfg)])\<rparr>)"
proof -
  note sv = set_values_simps[OF assms] setting_stage_def own_or_def compile_ok_def compile_all_def
  show "setting_stage setopt cfg Hosts auth =
      (if a_hosts auth = [] \<longrightarrow> compile_ok (parse_host_pattern_cb regcomp) (c_hosts cfg)
       then Ret (auth\<lparr>a_hosts := own_or (a_hosts auth) (compile_all (parse_host_pattern_cb regcomp) (c_hosts cfg))\<rparr>)
       else Die ''exit(EXIT_FAILURE)'')" by (cases auth) (simp add: sv)
  show "setting_stage setopt cfg Services auth =
      (if a_services auth = [] \<longrightarrow> compile_ok (parse_service_pattern_cb regcomp) (c_services cfg)
       then Ret (auth\<lparr>a_services := own_or (a_services auth) (compile_all (parse_service_pattern_cb regcomp) (c_services cfg))\<rparr>)
       else Die ''exit(EXIT_FAILURE)'')" by (cases auth) (simp add: sv)
  show "setting_stage setopt cfg Commands auth =
      (if a_commands auth = [] \<longrightarrow> compile_ok (parse_command_pattern_cb regcomp) (c_commands cfg)
       then Ret (auth\<lparr>a_commands := own_or (a_commands auth) (compile_all (parse_command_pattern_cb regcomp) (c_commands cfg))\<rparr>)
       else Die ''exit(EXIT_FAILURE)'')" by (cases auth) (simp add: sv)
  show "setting_stage setopt cfg Password auth =
      Ret (auth\<lparr>a_password := own_or (a_password auth) (if c_password cfg = [] then [] else [last (c_password cfg)])\<rparr>)"
    by (cases auth) (simp add: sv)
qed

lemma fallback_effective:
  assumes "setopt_ok regcomp setopt"
  shows "fallback_to_defaults setopt cfg auth =
     (if defaults_compile regcomp cfg auth then Ret (effective regcomp cfg auth)
      else Die ''exit(EXIT_FAILURE)'')"
proof -
  have "fallback_to_defaults setopt cfg auth =
    obind (setting_stage setopt cfg Hosts auth) (\<lambda>a. obind (setting_stage setopt cfg Services a)
      (\<lambda>a. obind (setting_stage setopt cfg Commands a) (\<lambda>a. obind (setting_stage setopt cfg Password a) Ret)))"
    by (simp add: fallback_to_defaults_def setting_stage_def cong: obind_cong)
  also have "\<dots> = (if defaults_compile regcomp cfg auth then Ret (effective regcomp cfg auth)
      else Die ''exit(EXIT_FAILURE)'')"
    by (simp add: setting_stage_eq[OF assms] defaults_compile_def effective_def)
  finally show ?thesis .
qed

definition section_ok :: "(string \<Rightarrow> 're option) \<Rightarrow> 're config \<Rightarrow> 're auth_section \<Rightarrow> bool" where
  "section_ok regcomp cfg auth \<longleftrightarrow>
     defaults_compile regcomp cfg auth \<and> (a_password auth \<noteq> [] \<or> c_password cfg \<noteq> [])"

definition effective_entry :: "(string \<Rightarrow> 're option) \<Rightarrow> 're config \<Rightarrow> 're auth_section \<Rightarrow> string \<times> 're auth_section" where
  "effective_entry regcomp cfg auth = (a_title auth, effective regcomp cfg auth)"

lemma auth_loop_put_all:
  "setopt_ok regcomp setopt \<Longrightarrow> \<forall>auth \<in> set auths. section_ok regcomp cfg auth \<Longrightarrow>
   auth_loop setopt cfg auths t = table.put_all (map (effective_entry regcomp cfg) auths) t"
proof (induction auths arbitrary: t)
  case (Cons auth auths)
  then have "validate_auth_section (effective regcomp cfg auth) = Ret ()"
    by (auto simp: validate_auth_section_def section_ok_def effective_def own_or_def)
  with Cons show ?case
    by (auto simp: fallback_effective section_ok_def effective_entry_def intro!: arg_cong2[where f = obind])
qed simp

lemma auth_loop_Ret_ok:
  "setopt_ok regcomp setopt \<Longrightarrow> auth_loop setopt cfg auths t = Ret t' \<Longrightarrow>
   \<forall>auth \<in> set auths. section_ok regcomp cfg auth"
proof (induction auths arbitrary: t)
  case (Cons auth auths)
  then show ?case
    by (auto simp: fallback_effective obind_eq_Ret validate_auth_section_def section_ok_def
        effective_def own_or_def split: if_splits)
qed simp

lemma auth_loop_correct:
  assumes so: "setopt_ok regcomp setopt"
    and ok: "\<forall>auth \<in> set (c_authorize cfg). section_ok regcomp cfg auth"
    and d: "distinct (map a_title (c_authorize cfg))"
    and t: "hash_new hcreate n = Ret t" "length (c_authorize cfg) \<le> room t"
  shows "\<exists>t'. auth_loop setopt cfg (c_authorize cfg) t = Ret t' \<and>
    (\<forall>id. hash_lookup t' id = map_of (map (effective_entry regcomp cfg) (c_authorize cfg)) id)"
proof -
  let ?kvs = "map (effective_entry regcomp cfg) (c_authorize cfg)"
  from t have "length ?kvs \<le> free_room t"
    by (auto simp: free_room_def hash_new_def split: option.splits)
  then obtain t' where t': "table.put_all ?kvs t = Ret t'" using table.put_all_returns by blast
  from t(1) have "hash_lookup t = (\<lambda>_. None)" by (auto simp: fun_eq_iff)
  moreover from d have "distinct (map fst ?kvs)" by (simp add: effective_entry_def comp_def)
  ultimately have "hash_lookup t' id = map_of ?kvs id" for id
    using table.put_all_distinct[OF t'] by simp
  with t' auth_loop_put_all[OF so ok, of t] show ?thesis by simp
qed

text \<open>A section that reaches the table has a password.\<close>

definition table_ok :: "'re auth_section hash_table \<Rightarrow> bool" where
  "table_ok t \<longleftrightarrow> (\<forall>id auth. hash_lookup t id = Some auth \<longrightarrow> a_password auth \<noteq> [])"

lemma effective_password:
  "section_ok regcomp cfg auth \<Longrightarrow> a_password (effective regcomp cfg auth) \<noteq> []"
  by (auto simp: section_ok_def effective_def own_or_def)

lemma process_auth_sections_result:
  assumes "setopt_ok regcomp setopt"
    and "\<And>n. \<exists>r \<ge> n. hcreate n = Some r"
    and "distinct (map a_title (c_authorize cfg))"
  shows "if c_authorize cfg \<noteq> [] \<and> (\<forall>auth \<in> set (c_authorize cfg). section_ok regcomp cfg auth)
    then \<exists>t. process_auth_sections hcreate setopt cfg = Ret t \<and>
      (\<forall>id. hash_lookup t id = map_of (map (effective_entry regcomp cfg) (c_authorize cfg)) id)
    else \<exists>e. process_auth_sections hcreate setopt cfg = Die e"
proof (cases "c_authorize cfg \<noteq> [] \<and> (\<forall>auth \<in> set (c_authorize cfg). section_ok regcomp cfg auth)")
  case True
  define n where "n = 3 * length (c_authorize cfg) div 2"
  from assms(2) obtain r where r: "r \<ge> n" "hcreate n = Some r" by blast
  then have "hash_new hcreate n = Ret \<lparr>room = r, entries = []\<rparr>" by (simp add: hash_new_def)
  moreover have "length (c_authorize cfg) \<le> r" using r unfolding n_def by linarith
  ultimately show ?thesis
    using True auth_loop_correct[OF assms(1) _ assms(3)]
    by (fastforce simp: process_auth_sections_def n_def [symmetric])
next
  case False
  then show ?thesis
    using auth_loop_Ret_ok[OF assms(1)]
    by (cases "process_auth_sections hcreate setopt cfg")
      (auto simp: process_auth_sections_def obind_eq_Ret split: if_splits)
qed

lemma process_auth_sections_lookup:
  assumes "setopt_ok regcomp setopt"
    and "\<And>n. \<exists>r \<ge> n. hcreate n = Some r"
    and "distinct (map a_title (c_authorize cfg))"
    and "process_auth_sections hcreate setopt cfg = Ret t"
  shows "hash_lookup t k = map_of (map (effective_entry regcomp cfg) (c_authorize cfg)) k"
  using process_auth_sections_result[OF assms(1-3)] assms(4) by (auto split: if_splits)

text \<open>
  The \<open>authorize\<close> sections are accepted exactly if there is one, each has a
  password (its own or the global one), and the global patterns a section falls back to
  compile; then looking an identity up gives the section of that title with the global
  settings in place of those it lacks, and the table was never full.
\<close>

theorem process_auth_sections_correct:
  assumes "setopt_ok regcomp setopt"
    and "\<And>n. \<exists>r \<ge> n. hcreate n = Some r"
    and "distinct (map a_title (c_authorize cfg))"
  shows "if c_authorize cfg \<noteq> [] \<and> (\<forall>auth \<in> set (c_authorize cfg). section_ok regcomp cfg auth)
    then \<exists>t. process_auth_sections hcreate setopt cfg = Ret t \<and>
      (\<forall>id. hash_lookup t id = map_of (map (effective_entry regcomp cfg) (c_authorize cfg)) id)
    else \<exists>e. process_auth_sections hcreate setopt cfg = Die e"
  using assms by (rule process_auth_sections_result)

definition plain_setopt :: "(string \<Rightarrow> 're option) \<Rightarrow> 're setopt" where
  "plain_setopt regcomp auth s v =
     (case s of
        Password \<Rightarrow> Some (auth\<lparr>a_password := [v]\<rparr>)
      | Hosts \<Rightarrow> map_option (\<lambda>re. auth\<lparr>a_hosts := a_hosts auth @ [re]\<rparr>) (parse_host_pattern_cb regcomp v)
      | Services \<Rightarrow> map_option (\<lambda>re. auth\<lparr>a_services := a_services auth @ [re]\<rparr>) (parse_service_pattern_cb regcomp v)
      | Commands \<Rightarrow> map_option (\<lambda>re. auth\<lparr>a_commands := a_commands auth @ [re]\<rparr>) (parse_command_pattern_cb regcomp v))"

lemma plain_setopt_ok: "setopt_ok regcomp (plain_setopt regcomp)"
  by (simp add: setopt_ok_def plain_setopt_def)

definition sample_config :: "string config" where
  "sample_config = (default_config ''/var'' 5)\<lparr>c_password := [''secret''], c_hosts := [''web1''],
     c_authorize := [\<lparr>a_title = ''alice'', a_password = [], a_hosts = [], a_services = [], a_commands = []\<rparr>,
       \<lparr>a_title = ''*'', a_password = [''other''], a_hosts = [''x''], a_services = [], a_commands = []\<rparr>]\<rparr>"

lemma process_auth_sections_witness:
  "\<exists>t. process_auth_sections (\<lambda>n. Some (n + 3)) (plain_setopt Some) sample_config = Ret t \<and>
     map_option a_password (hash_lookup t ''alice'') = Some [''secret'']"
proof -
  have d: "distinct (map a_title (c_authorize sample_config))" by (simp add: sample_config_def)
  have "c_authorize sample_config \<noteq> [] \<and> (\<forall>auth \<in> set (c_authorize sample_config). section_ok Some sample_config auth)"
    by (auto simp: sample_config_def section_ok_def defaults_compile_def compile_ok_def
        parse_host_pattern_cb_def parse_service_pattern_cb_def parse_command_pattern_cb_def default_config_def)
  with process_auth_sections_correct[OF plain_setopt_ok[of Some] _ d, of "\<lambda>n. Some (n + 3)"] show ?thesis
    by (auto simp: sample_config_def effective_entry_def effective_def own_or_def)
qed

section \<open>Including a directory\<close>

definition wanted_file :: "string \<times> bool \<Rightarrow> bool" where
  "wanted_file p \<longleftrightarrow> snd p \<and>
     (\<exists>base. fst p = base @ ''.cfg'' \<or> fst p = base @ ''.conf'')"

primrec parse_all :: "'p parser_env \<Rightarrow> string list \<Rightarrow> 'p parser_state \<Rightarrow> 'p parser_state outcome" where
  "parse_all env [] st = Ret st"
| "parse_all env (path # paths) st =
     obind (parse_include env path st) (\<lambda>(status, st).
       if status = CFG_SUCCESS then parse_all env paths st
       else obind (check_parse_success status) (\<lambda>_. Ret st))"

lemma strrchr_suffix:
  assumes "c \<notin> set v"
  shows "strrchr s c = Some (c # v) \<longleftrightarrow> (\<exists>u. s = u @ c # v)"
  using assms by (metis strrchr_last strrchr_split)

lemma include_file_cb_wanted:
  "include_file_cb env path is_file st =
     (if wanted_file (path, is_file)
      then obind (parse_include env path st) (\<lambda>(status, st).
             obind (check_parse_success status) (\<lambda>_. Ret (0, st)))
      else Ret (0, st))"
proof -
  have "strrchr path (CHR ''.'') = Some ''.cfg'' \<longleftrightarrow> (\<exists>u. path = u @ ''.cfg'')"
    "strrchr path (CHR ''.'') = Some ''.conf'' \<longleftrightarrow> (\<exists>u. path = u @ ''.conf'')"
    by (rule strrchr_suffix; simp)+
  then have "wanted_file (path, is_file) \<longleftrightarrow> is_file \<and>
    (strrchr path (CHR ''.'') = Some ''.cfg'' \<or> strrchr path (CHR ''.'') = Some ''.conf'')"
    by (auto simp: wanted_file_def)
  then show ?thesis by (auto simp: include_file_cb_def split: option.splits)
qed

lemma check_parse_success_Ret:
  "check_parse_success status = Ret x \<longleftrightarrow> status = CFG_SUCCESS"
  "status \<noteq> CFG_SUCCESS \<Longrightarrow> \<exists>e. check_parse_success status = Die e"
  by (auto simp: check_parse_success_def)

lemma nftw_loop_parse_all:
  "nftw_loop (include_file_cb env) ps st =
     obind (parse_all env (map fst (filter wanted_file ps)) st) (\<lambda>st. Ret (0, st))"
proof (induction ps arbitrary: st)
  case (Cons p ps)
  show ?case
  proof (cases "wanted_file p")
    case True
    then have w: "wanted_file (fst p, snd p)" by simp
    show ?thesis
    proof (cases "parse_include env (fst p) st")
      case (Ret r)
      obtain status st1 where r: "r = (status, st1)" by force
      show ?thesis
      proof (cases "status = CFG_SUCCESS")
        case True
        then have "check_parse_success status = Ret ()" by (simp add: check_parse_success_Ret)
        with True \<open>wanted_file p\<close> w Ret r Cons.IH show ?thesis
          by (simp add: include_file_cb_wanted)
      next
        case False
        then obtain e where "check_parse_success status = Die e" using check_parse_success_Ret(2) by blast
        with False \<open>wanted_file p\<close> w Ret r show ?thesis by (simp add: include_file_cb_wanted)
      qed
    qed (simp add: \<open>wanted_file p\<close> w include_file_cb_wanted)
  next
    case False
    then show ?thesis by (simp add: include_file_cb_wanted[of env "fst p"] Cons.IH)
  qed
qed simp

text \<open>
  Including a directory parses exactly the regular files below it whose names end
  in \<open>.cfg\<close> or \<open>.conf\<close>, in the order of the traversal, and stops at the first that does not
  parse; beyond the millionth include directive nothing is opened any more and the parser is
  told to stop, so an include cycle ends.
\<close>

theorem include_directory_correct:
  assumes "tilde_expand env arg = Some path" "stat_type env path = Some Directory"
    and "walk env path = (ps, True)"
  shows "include_cb env [arg] st =
    (if n_included st < MAX_INCLUDE
     then obind (parse_all env (map fst (filter wanted_file ps)) (st\<lparr>n_included := n_included st + 1\<rparr>))
            (\<lambda>st'. Ret (0, st'))
     else Ret (1, st\<lparr>n_included := n_included st + 1\<rparr>))"
  using assms
  by (cases "parse_all env (map fst (filter wanted_file ps)) (st\<lparr>n_included := n_included st + 1\<rparr>)")
    (auto simp: include_cb_def nftw_loop_parse_all Let_def)

definition sample_parser_env :: "string list parser_env" where
  "sample_parser_env = \<lparr>tilde_expand = Some, stat_type = (\<lambda>p. if p = ''/etc/d'' then Some Directory else Some Regular),
     walk = (\<lambda>p. ([(''/etc/d'', False), (''/etc/d/a.cfg'', True), (''/etc/d/a.bak'', True), (''/etc/d/b.conf'', True)], True)),
     cfg_include = (\<lambda>p st. Ret (0, st)), cfg_parse = (\<lambda>p st. Ret (0, st)),
     cfg_parse_buf = (\<lambda>b st. Ret (0, st\<lparr>parser := parser st @ [b]\<rparr>))\<rparr>"

lemma include_directory_witness:
  "include_cb sample_parser_env [''/etc/d''] \<lparr>n_included = 7, parser = []\<rparr> =
     Ret (0, \<lparr>n_included = 8, parser = [
       ''include('' @ [CHR 0x27] @ ''/etc/d/a.cfg'' @ [CHR 0x27] @ '')'',
       ''include('' @ [CHR 0x27] @ ''/etc/d/b.conf'' @ [CHR 0x27] @ '')'']\<rparr>)"
proof -
  have w: "wanted_file (''/etc/d/a.cfg'', True)" "wanted_file (''/etc/d/b.conf'', True)"
    "\<not> wanted_file (''/etc/d/a.bak'', True)" "\<not> wanted_file (''/etc/d'', False)"
    by (auto simp: wanted_file_def append_eq_Cons_conv)
  from include_directory_correct[of sample_parser_env "''/etc/d''" "''/etc/d''" _ "\<lparr>n_included = 7, parser = []\<rparr>"]
  show ?thesis
    by (simp add: sample_parser_env_def w parse_include_def CFG_SUCCESS_def MAX_INCLUDE_def)
qed

end
