(* ===== verification/Fifo.thy ===== *)
theory Fifo
  imports Buffer Numbers "HOL-Library.Multiset"
begin

text \<open>
  The command file writer, \<open>src/server/fifo.c\<close>: commands are written to the named pipe of
  the monitoring core in pieces of at most \<open>PIPE_BUF\<close> bytes, or, when more is queued, to a
  dump file the core is told to process, asynchronously (POSIX AIO) or in an idle callback.

  The state is the source's struct, each libev watcher a flag that says whether it is active,
  plus the history: \<open>f_trace\<close> records what was submitted and what became of it, \<open>f_calls\<close>
  counts the system calls. The answers of the system are functions of that counter, so every
  sequence of answers is some \<open>fifo_os\<close>. A loop that repeats an interrupted call
  (\<open>while (... && errno == EINTR)\<close>) takes its final answer. Releasing memory is not state.
\<close>

section \<open>State and environment\<close>

datatype open_answer = OpenFailed | NotPipe | OpenedFd nat
datatype write_answer = Wrote nat | WouldBlock | Interrupted | WriteFailed
datatype aio_answer = AioError | AioWrote nat

record fifo_os =
  use_aio :: bool
  pipe_buf :: nat
  os_sigaction :: "nat \<Rightarrow> bool"
  os_open :: "nat \<Rightarrow> open_answer"
  os_write :: "nat \<Rightarrow> nat \<Rightarrow> write_answer"
  os_mkstemp :: "nat \<Rightarrow> string \<Rightarrow> (string \<times> nat) option"
  os_file_write :: "nat \<Rightarrow> nat \<Rightarrow> nat option"
  os_aio_write :: "nat \<Rightarrow> bool"
  os_aio_result :: "nat \<Rightarrow> aio_answer"
  os_close :: "nat \<Rightarrow> bool"
  os_time :: "nat \<Rightarrow> nat"

datatype fifo_event =
    Submitted bytes
  | Piped bytes
  | Dumped string bytes
  | Lost bytes

record fifo_state =
  f_async_active :: bool
  f_aio_buf :: "bytes option"
  f_idle_active :: bool
  f_timeout_active :: bool
  f_open_active :: bool
  f_write_active :: bool
  f_output_buffer :: buffer
  f_dump_file :: "string option"
  f_dump_dir :: string
  f_path :: string
  f_output :: "bytes option"
  f_output_size :: nat
  f_max_queue_size :: nat
  f_dump_fd :: int
  f_fd :: int
  f_calls :: nat
  f_trace :: "fifo_event list"

definition tick :: "fifo_state \<Rightarrow> fifo_state" where
  "tick st = st\<lparr>f_calls := Suc (f_calls st)\<rparr>"

definition note_event :: "fifo_event \<Rightarrow> fifo_state \<Rightarrow> fifo_state" where
  "note_event ev st = st\<lparr>f_trace := f_trace st @ [ev]\<rparr>"

text \<open>The bytes of \<open>output\<close>: what the object holds up to \<open>output_size\<close>.\<close>

definition out_bytes :: "fifo_state \<Rightarrow> bytes" where
  "out_bytes st = (case f_output st of None \<Rightarrow> [] | Some d \<Rightarrow> take (f_output_size st) d)"

definition lose_output :: "fifo_state \<Rightarrow> fifo_state" where
  "lose_output st = note_event (Lost (out_bytes st)) st"

section \<open>Buffers\<close>

definition buffers_are_empty :: "fifo_state \<Rightarrow> bool" where
  "buffers_are_empty st \<longleftrightarrow> f_output st = None \<and> buffer_size (f_output_buffer st) = 0"

definition buffers_exceed_pipe_size :: "fifo_os \<Rightarrow> fifo_state \<Rightarrow> bool" where
  "buffers_exceed_pipe_size os st \<longleftrightarrow>
     f_output_size st > pipe_buf os \<or> buffer_size (f_output_buffer st) > pipe_buf os"

definition free_output :: "fifo_state \<Rightarrow> fifo_state" where
  "free_output st = st\<lparr>f_output := None, f_output_size := 0\<rparr>"

definition join_buffers :: "fifo_state \<Rightarrow> fifo_state outcome" where
  "join_buffers st =
     (if buffer_size (f_output_buffer st) = 0 then Ret st
      else let new_size = f_output_size st + buffer_size (f_output_buffer st) in
        obind (buffer_read (f_output_buffer st) (new_size - f_output_size st)) (\<lambda>(d, buf).
          Ret (st\<lparr>f_output_buffer := buf,
            f_output := Some (out_bytes st @ d @ replicate (new_size - f_output_size st - length d) undefined),
            f_output_size := new_size\<rparr>)))"

section \<open>The dump file\<close>

definition open_dump_file :: "fifo_os \<Rightarrow> fifo_state \<Rightarrow> bool \<times> fifo_state" where
  "open_dump_file os st =
     (case os_mkstemp os (f_calls st) (f_dump_dir st @ ''/nsca.XXXXXX'') of
        None \<Rightarrow> (False, (tick st)\<lparr>f_dump_fd := - 1, f_dump_file := None\<rparr>)
      | Some (file, fd) \<Rightarrow> (True, (tick st)\<lparr>f_dump_fd := int fd, f_dump_file := Some file\<rparr>))"

definition close_dump_file :: "fifo_os \<Rightarrow> fifo_state \<Rightarrow> bool \<times> fifo_state" where
  "close_dump_file os st =
     (os_close os (f_calls st), (tick st)\<lparr>f_dump_file := None\<rparr>)"

definition process_file_command :: "nat \<Rightarrow> string \<Rightarrow> string" where
  "process_file_command now file = ''['' @ show_nat now @ ''] PROCESS_FILE;'' @ file @ '';1'' @ [LF]"

definition make_process_file_command :: "fifo_os \<Rightarrow> fifo_state \<Rightarrow> string" where
  "make_process_file_command os st =
     process_file_command (os_time os (f_calls st)) (the (f_dump_file st))"

section \<open>Writing to the pipe\<close>

text \<open>The \<open>do ... while\<close> loop; \<open>continue\<close> after \<open>EINTR\<close> tests \<open>n > 0\<close> and leaves it.\<close>

definition slurp_output :: "fifo_state \<Rightarrow> fifo_state outcome" where
  "slurp_output st =
     (if f_output st = None
      then obind (buffer_slurp (f_output_buffer st)) (\<lambda>(d, n, buf).
             Ret (st\<lparr>f_output := Some d, f_output_size := n, f_output_buffer := buf\<rparr>))
      else Ret st)"

definition write_done :: "nat \<Rightarrow> fifo_state \<Rightarrow> fifo_state" where
  "write_done n st =
     (let st = free_output (note_event (Piped (take n (out_bytes st))) st)
      in if buffer_size (f_output_buffer st) = 0 then st\<lparr>f_write_active := False\<rparr> else st)"

definition write_failed :: "fifo_state \<Rightarrow> fifo_state" where
  "write_failed st = st\<lparr>f_fd := - 1, f_write_active := False, f_open_active := True\<rparr>"

lemma slurp_output_measure:
  assumes "slurp_output st = Ret st1" "0 < buffer_size (f_output_buffer st1)"
  shows "f_output st \<noteq> None"
  using assms
  by (auto simp: slurp_output_def buffer_size_def obind_eq_Ret dest!: buffer_slurp_empties split: if_splits)

function write_cb :: "fifo_os \<Rightarrow> fifo_state \<Rightarrow> fifo_state outcome" where
  "write_cb os st =
     obind (slurp_output st) (\<lambda>st.
       case os_write os (f_calls st) (f_output_size st) of
         WouldBlock \<Rightarrow> Ret (tick st)
       | Interrupted \<Rightarrow> Ret (tick st)
       | WriteFailed \<Rightarrow> Ret (write_failed (tick st))
       | Wrote n \<Rightarrow>
           let st = write_done n (tick st) in
           if n > 0 \<and> buffer_size (f_output_buffer st) > 0 then write_cb os st else Ret st)"
  by pat_completeness auto
termination
proof (relation "measure (\<lambda>(os, st). if f_output st = None then 0 else 1)", goal_cases)
  case (2 os st st1 n st2)
  have "buffer_size (f_output_buffer st2) = buffer_size (f_output_buffer st1)" "f_output st2 = None"
    by (auto simp: 2(3) write_done_def free_output_def note_event_def tick_def Let_def)
  with 2 slurp_output_measure[of st st1] show ?case by auto
qed simp

declare write_cb.simps [simp del]

section \<open>Dispatching\<close>

definition async_dump_data :: "fifo_os \<Rightarrow> fifo_state \<Rightarrow> fifo_state outcome" where
  "async_dump_data os st =
     obind (join_buffers st) (\<lambda>st.
       case open_dump_file os st of
         (False, st) \<Rightarrow> Ret (free_output (lose_output st))
       | (True, st) \<Rightarrow>
           let st = st\<lparr>f_async_active := True\<rparr> in
           if os_aio_write os (f_calls st)
           then Ret ((tick st)\<lparr>f_aio_buf := Some (out_bytes st), f_output := None, f_output_size := 0\<rparr>)
           else let st = (tick st)\<lparr>f_async_active := False\<rparr>;
                    (_, st) = close_dump_file os st
                in Ret (free_output (lose_output st)))"

definition dispatch_data :: "fifo_os \<Rightarrow> fifo_state \<Rightarrow> fifo_state outcome" where
  "dispatch_data os st =
     (if f_fd st = - 1 then Ret st
      else if \<not> buffers_exceed_pipe_size os st then
        (if \<not> f_write_active st then write_cb os (st\<lparr>f_write_active := True\<rparr>) else Ret st)
      else
        let st = (if f_write_active st then st\<lparr>f_write_active := False\<rparr> else st) in
        if use_aio os then (if \<not> f_async_active st then async_dump_data os st else Ret st)
        else (if \<not> f_idle_active st then Ret (st\<lparr>f_timeout_active := True, f_idle_active := True\<rparr>)
              else Ret st))"

text \<open>\<open>owned\<close>: the caller passed a function to free the data with, so it may be kept.\<close>

definition fifo_write :: "fifo_os \<Rightarrow> fifo_state \<Rightarrow> bytes \<Rightarrow> bool \<Rightarrow> fifo_state outcome" where
  "fifo_write os st data owned =
     (if buffers_are_empty st \<and> owned
      then dispatch_data os
        ((note_event (Submitted data) st)\<lparr>f_output := Some data, f_output_size := length data\<rparr>)
      else
        let st = (if f_max_queue_size st > 0 \<and>
                     buffer_size (f_output_buffer st) + length data > f_max_queue_size st
                  then (note_event (Lost (buffer_bytes (f_output_buffer st))) st)
                         \<lparr>f_output_buffer := buffer_new\<rparr>
                  else st);
            st = (note_event (Submitted data) st)
                   \<lparr>f_output_buffer := buffer_append (f_output_buffer st) data\<rparr>
        in dispatch_data os st)"

section \<open>Watcher callbacks\<close>

definition async_cb :: "fifo_os \<Rightarrow> fifo_state \<Rightarrow> fifo_state outcome" where
  "async_cb os st =
     (let st = st\<lparr>f_async_active := False\<rparr>;
          aio = the (f_aio_buf st);
          st = st\<lparr>f_aio_buf := None\<rparr>
      in obind
        (case os_aio_result os (f_calls st) of
           AioError \<Rightarrow> Ret (note_event (Lost aio) (tick st))
         | AioWrote n \<Rightarrow>
             if n \<noteq> length aio then Ret (note_event (Lost aio) (tick st))
             else let st = tick st;
                      command = make_process_file_command os st;
                      file = the (f_dump_file st);
                      (ok, st) = close_dump_file os st
                  in if ok then fifo_write os (note_event (Dumped file aio) st) command True
                     else Ret (note_event (Lost aio) st))
        (\<lambda>st. if buffers_exceed_pipe_size os st then dispatch_data os st else Ret st))"

text \<open>A write to the dump file that makes no progress would be repeated forever: \<open>Die\<close>.\<close>

function sync_loop :: "fifo_os \<Rightarrow> fifo_state \<Rightarrow> nat \<Rightarrow> (bool \<times> fifo_state) outcome" where
  "sync_loop os st offset =
     (if f_output_size st > offset then
        (case os_file_write os (f_calls st) (f_output_size st - offset) of
           None \<Rightarrow> Ret (False, tick st)
         | Some n \<Rightarrow> if n = 0 then Die ''writing the dump file does not end''
                     else sync_loop os (tick st) (offset + n))
      else Ret (True, st))"
  by pat_completeness auto
termination
  by (relation "measure (\<lambda>(os, st, offset). f_output_size st - offset)") (auto simp: tick_def)

declare sync_loop.simps [simp del]

definition sync_dump_data :: "fifo_os \<Rightarrow> fifo_state \<Rightarrow> fifo_state outcome" where
  "sync_dump_data os st =
     obind (join_buffers st) (\<lambda>st.
       case open_dump_file os st of
         (False, st) \<Rightarrow> Ret (free_output (lose_output st))
       | (True, st) \<Rightarrow>
           obind (sync_loop os st 0) (\<lambda>(written, st).
             if \<not> written then
               (let (_, st) = close_dump_file os st in Ret (free_output (lose_output st)))
             else
               let data = out_bytes st;
                   st = free_output st;
                   command = make_process_file_command os st;
                   file = the (f_dump_file st);
                   (ok, st) = close_dump_file os st
               in if ok then fifo_write os (note_event (Dumped file data) st) command True
                  else Ret (note_event (Lost data) st)))"

definition idle_cb :: "fifo_os \<Rightarrow> fifo_state \<Rightarrow> fifo_state outcome" where
  "idle_cb os st =
     (let st = st\<lparr>f_idle_active := False\<rparr>;
          st = (if f_timeout_active st then st\<lparr>f_timeout_active := False\<rparr> else st)
      in sync_dump_data os st)"

definition timeout_cb :: "fifo_os \<Rightarrow> fifo_state \<Rightarrow> fifo_state outcome" where
  "timeout_cb os st = idle_cb os st"

definition open_cb :: "fifo_os \<Rightarrow> fifo_state \<Rightarrow> fifo_state outcome" where
  "open_cb os st =
     obind (case os_open os (f_calls st) of
              OpenFailed \<Rightarrow> Ret ((tick st)\<lparr>f_fd := - 1\<rparr>)
            | NotPipe \<Rightarrow> Ret ((tick st)\<lparr>f_fd := - 1\<rparr>)
            | OpenedFd fd \<Rightarrow>
                let st = (tick st)\<lparr>f_fd := int fd\<rparr> in
                if \<not> buffers_are_empty st then dispatch_data os st else Ret st)
       (\<lambda>st. if f_fd st = - 1 then Ret (st\<lparr>f_open_active := True\<rparr>) else Ret st)"

section \<open>Start and stop\<close>

definition fifo_init :: "string \<Rightarrow> string \<Rightarrow> nat \<Rightarrow> fifo_state" where
  "fifo_init path dump_dir max_queue_size =
     \<lparr>f_async_active = False, f_aio_buf = None, f_idle_active = False, f_timeout_active = False,
      f_open_active = False, f_write_active = False, f_output_buffer = buffer_new,
      f_dump_file = None, f_dump_dir = dump_dir, f_path = path, f_output = None,
      f_output_size = 0, f_max_queue_size = (max_queue_size * 1024 * 1024) mod 2 ^ 64,
      f_dump_fd = - 1, f_fd = - 1, f_calls = 0, f_trace = []\<rparr>"

definition fifo_start :: "fifo_os \<Rightarrow> string \<Rightarrow> string \<Rightarrow> nat \<Rightarrow> fifo_state outcome" where
  "fifo_start os path dump_dir max_queue_size =
     (if use_aio os \<and> \<not> os_sigaction os 0
      then Die ''Cannot associate action with POSIX AIO signal''
      else open_cb os (fifo_init path dump_dir max_queue_size))"

text \<open>What is left when the writer has stopped: no watcher, no data, and the closed descriptor.\<close>

definition fifo_stop :: "fifo_state \<Rightarrow> fifo_state" where
  "fifo_stop st =
     (let st = (if f_async_active st then st\<lparr>f_async_active := False\<rparr> else st);
          st = (if f_idle_active st then st\<lparr>f_idle_active := False\<rparr> else st);
          st = (if f_timeout_active st then st\<lparr>f_timeout_active := False\<rparr> else st);
          st = (if f_open_active st then st\<lparr>f_open_active := False\<rparr> else st);
          st = (if f_write_active st then st\<lparr>f_write_active := False\<rparr> else st);
          st = (note_event (Lost (buffer_bytes (f_output_buffer st))) st)\<lparr>f_output_buffer := buffer_new\<rparr>;
          st = (if f_output st \<noteq> None then free_output (lose_output st) else st)
      in if f_fd st \<noteq> - 1 then st\<lparr>f_fd := - 1\<rparr> else st)"

section \<open>Running the writer\<close>

text \<open>
  What the event loop and the server may do with a writer: submit data, or call back an
  active watcher. A timer that fires is inactive when its callback runs. The server submits
  no empty data: a PUSH of no bytes is refused.
\<close>

datatype fifo_input = Submit bytes bool | OpenTimer | PipeReady | AioDone | Idle | IdleTimeout

fun enabled :: "fifo_os \<Rightarrow> fifo_input \<Rightarrow> fifo_state \<Rightarrow> bool" where
  "enabled os (Submit data owned) st = (data \<noteq> [])"
| "enabled os OpenTimer st = f_open_active st"
| "enabled os PipeReady st = f_write_active st"
| "enabled os AioDone st = (use_aio os \<and> f_async_active st)"
| "enabled os Idle st = (\<not> use_aio os \<and> f_idle_active st)"
| "enabled os IdleTimeout st = (\<not> use_aio os \<and> f_timeout_active st)"

fun fifo_handle :: "fifo_os \<Rightarrow> fifo_input \<Rightarrow> fifo_state \<Rightarrow> fifo_state outcome" where
  "fifo_handle os (Submit data owned) st = fifo_write os st data owned"
| "fifo_handle os OpenTimer st = open_cb os (st\<lparr>f_open_active := False\<rparr>)"
| "fifo_handle os PipeReady st = write_cb os st"
| "fifo_handle os AioDone st = async_cb os st"
| "fifo_handle os Idle st = idle_cb os st"
| "fifo_handle os IdleTimeout st = timeout_cb os (st\<lparr>f_timeout_active := False\<rparr>)"

inductive fifo_reaches :: "fifo_os \<Rightarrow> nat \<Rightarrow> fifo_state \<Rightarrow> bool" for os max_mb where
  start: "fifo_start os path dump_dir max_mb = Ret st \<Longrightarrow> fifo_reaches os max_mb st"
| step: "fifo_reaches os max_mb st \<Longrightarrow> enabled os inp st \<Longrightarrow> fifo_handle os inp st = Ret st' \<Longrightarrow>
    fifo_reaches os max_mb st'"

inductive_cases fifo_reachesE: "fifo_reaches os max_mb st"

section \<open>The flow of commands\<close>

text \<open>
  What was submitted, and the payloads that have left the queue. \<open>flows\<close> accounts for every
  submission: each payload, the output, the queue and the pending asynchronous write are
  whole submissions put together, none missing and none twice; and as long as nothing was
  dumped or lost they are in the order of submission.
\<close>

fun submitted :: "fifo_event list \<Rightarrow> bytes list" where
  "submitted [] = []"
| "submitted (Submitted d # tr) = d # submitted tr"
| "submitted (_ # tr) = submitted tr"

fun settled :: "fifo_event list \<Rightarrow> bytes list" where
  "settled [] = []"
| "settled (Submitted d # tr) = settled tr"
| "settled (Piped d # tr) = d # settled tr"
| "settled (Dumped f d # tr) = d # settled tr"
| "settled (Lost d # tr) = d # settled tr"

fun is_plain :: "fifo_event \<Rightarrow> bool" where
  "is_plain (Dumped f d) = False"
| "is_plain (Lost d) = False"
| "is_plain _ = True"

lemma submitted_append [simp]: "submitted (tr @ tr') = submitted tr @ submitted tr'"
  by (induction tr rule: submitted.induct) auto

lemma settled_append [simp]: "settled (tr @ tr') = settled tr @ settled tr'"
  by (induction tr rule: settled.induct) auto

definition aio_bytes :: "bytes option \<Rightarrow> bytes" where
  "aio_bytes a = (case a of None \<Rightarrow> [] | Some b \<Rightarrow> b)"

definition flows :: "fifo_event list \<Rightarrow> bytes \<Rightarrow> bytes \<Rightarrow> bytes option \<Rightarrow> bool" where
  "flows tr out q a \<longleftrightarrow> (\<exists>evs outs qs as.
     settled tr = map concat evs \<and> out = concat outs \<and> q = concat qs \<and> aio_bytes a = concat as \<and>
     mset (submitted tr) = mset (concat evs) + mset outs + mset qs + mset as \<and>
     (list_all is_plain tr \<and> as = [] \<longrightarrow> submitted tr = concat evs @ outs @ qs))"

lemma flowsI:
  assumes "settled tr = map concat evs" "out = concat outs" "q = concat qs" "aio_bytes a = concat as"
    "mset (submitted tr) = mset (concat evs) + mset outs + mset qs + mset as"
    "list_all is_plain tr \<Longrightarrow> as = [] \<Longrightarrow> submitted tr = concat evs @ outs @ qs"
  shows "flows tr out q a"
  unfolding flows_def using assms by blast

lemma flowsE:
  assumes "flows tr out q a"
  obtains evs outs qs as where
    "settled tr = map concat evs" "out = concat outs" "q = concat qs" "aio_bytes a = concat as"
    "mset (submitted tr) = mset (concat evs) + mset outs + mset qs + mset as"
    "list_all is_plain tr \<Longrightarrow> as = [] \<Longrightarrow> submitted tr = concat evs @ outs @ qs"
  using assms unfolding flows_def by blast

named_theorems flow

lemma flows_init [flow]: "flows [] [] [] None"
  by (rule flowsI[of _ "[]" _ "[]" _ "[]" _ "[]"]) (simp_all add: aio_bytes_def)

lemma flows_submit [flow]:
  assumes "flows tr out q a"
  shows "flows (tr @ [Submitted d]) out (q @ d) a"
  using assms
proof (rule flowsE)
  fix evs outs qs as
  assume "settled tr = map concat evs" "out = concat outs" "q = concat qs" "aio_bytes a = concat as"
    "mset (submitted tr) = mset (concat evs) + mset outs + mset qs + mset as"
    "list_all is_plain tr \<Longrightarrow> as = [] \<Longrightarrow> submitted tr = concat evs @ outs @ qs"
  then show ?thesis by (intro flowsI[of _ evs _ outs _ "qs @ [d]" _ as]) auto
qed

lemma flows_join [flow]:
  assumes "flows tr out q a"
  shows "flows tr (out @ q) [] a"
  using assms
proof (rule flowsE)
  fix evs outs qs as
  assume "settled tr = map concat evs" "out = concat outs" "q = concat qs" "aio_bytes a = concat as"
    "mset (submitted tr) = mset (concat evs) + mset outs + mset qs + mset as"
    "list_all is_plain tr \<Longrightarrow> as = [] \<Longrightarrow> submitted tr = concat evs @ outs @ qs"
  then show ?thesis by (intro flowsI[of _ evs _ "outs @ qs" _ "[]" _ as]) auto
qed

lemma flows_settle_out [flow]:
  assumes "flows tr out q a"
  shows "flows (tr @ [Piped out]) [] q a" "flows (tr @ [Lost out]) [] q a" "flows (tr @ [Dumped f out]) [] q a"
proof -
  from assms obtain evs outs qs as where
    "settled tr = map concat evs" "out = concat outs" "q = concat qs" "aio_bytes a = concat as"
    "mset (submitted tr) = mset (concat evs) + mset outs + mset qs + mset as"
    "list_all is_plain tr \<Longrightarrow> as = [] \<Longrightarrow> submitted tr = concat evs @ outs @ qs"
    unfolding flows_def by blast
  then show "flows (tr @ [Piped out]) [] q a" "flows (tr @ [Lost out]) [] q a" "flows (tr @ [Dumped f out]) [] q a"
    by - (rule flowsI[of _ "evs @ [outs]" _ "[]" _ qs _ as]; auto)+
qed

lemma flows_settle_queue [flow]:
  assumes "flows tr out q a"
  shows "flows (tr @ [Lost q]) out [] a"
  using assms
proof (rule flowsE)
  fix evs outs qs as
  assume "settled tr = map concat evs" "out = concat outs" "q = concat qs" "aio_bytes a = concat as"
    "mset (submitted tr) = mset (concat evs) + mset outs + mset qs + mset as"
    "list_all is_plain tr \<Longrightarrow> as = [] \<Longrightarrow> submitted tr = concat evs @ outs @ qs"
  then show ?thesis by (intro flowsI[of _ "evs @ [qs]" _ outs _ "[]" _ as]) auto
qed

lemma flows_aio_start [flow]:
  assumes "flows tr out q None"
  shows "flows tr [] q (Some out)"
  using assms
proof (rule flowsE)
  fix evs outs qs as
  assume "settled tr = map concat evs" "out = concat outs" "q = concat qs" "aio_bytes None = concat as"
    "mset (submitted tr) = mset (concat evs) + mset outs + mset qs + mset as"
    "list_all is_plain tr \<Longrightarrow> as = [] \<Longrightarrow> submitted tr = concat evs @ outs @ qs"
  then show ?thesis
    by (intro flowsI[of _ evs _ "[]" _ qs _ "as @ outs"]) (auto simp: aio_bytes_def)
qed

lemma flows_aio_end [flow]:
  assumes "flows tr out q (Some b)"
  shows "flows (tr @ [Lost b]) out q None" "flows (tr @ [Dumped f b]) out q None"
proof -
  from assms obtain evs outs qs as where
    "settled tr = map concat evs" "out = concat outs" "q = concat qs" "aio_bytes (Some b) = concat as"
    "mset (submitted tr) = mset (concat evs) + mset outs + mset qs + mset as"
    "list_all is_plain tr \<Longrightarrow> as = [] \<Longrightarrow> submitted tr = concat evs @ outs @ qs"
    unfolding flows_def by blast
  then show "flows (tr @ [Lost b]) out q None" "flows (tr @ [Dumped f b]) out q None"
    by - (rule flowsI[of _ "evs @ [as]" _ outs _ qs _ "[]"]; auto simp: aio_bytes_def)+
qed

lemma flows_submit_out [flow]:
  assumes "flows tr [] [] a"
  shows "flows (tr @ [Submitted d]) d [] a"
  using flows_join[OF flows_submit[OF assms, of d]] by simp

section \<open>Invariant\<close>

text \<open>The data: the buffer's invariant, an output as long as its size, pieces within \<open>PIPE_BUF\<close>.\<close>

definition data_ok :: "fifo_os \<Rightarrow> fifo_state \<Rightarrow> bool" where
  "data_ok os st \<longleftrightarrow>
     buf_inv (f_output_buffer st) \<and>
     (case f_output st of None \<Rightarrow> f_output_size st = 0 | Some d \<Rightarrow> f_output_size st \<le> length d) \<and>
     flows (f_trace st) (out_bytes st) (buffer_bytes (f_output_buffer st)) (f_aio_buf st) \<and>
     (\<forall>b. Piped b \<in> set (f_trace st) \<longrightarrow> length b \<le> pipe_buf os)"

text \<open>
  The watchers: the pipe is only written to when it is open and little is queued, a timer
  waits exactly while it is closed, and the asynchronous watcher runs exactly while a request
  is pending. With POSIX AIO the pipe is only watched while something is queued for it (the
  idle callback may take the queue away from under an active watcher, which then stops at its
  next call).
\<close>

definition watchers_ok :: "fifo_os \<Rightarrow> fifo_state \<Rightarrow> bool" where
  "watchers_ok os st \<longleftrightarrow>
     (f_write_active st \<longrightarrow>
        f_fd st \<noteq> - 1 \<and> \<not> buffers_exceed_pipe_size os st \<and> (use_aio os \<longrightarrow> \<not> buffers_are_empty st)) \<and>
     (f_open_active st \<longleftrightarrow> f_fd st = - 1) \<and>
     (f_idle_active st \<longleftrightarrow> f_timeout_active st) \<and>
     (f_aio_buf st \<noteq> None \<longleftrightarrow> f_async_active st)"

text \<open>Queued data is never forgotten: some watcher that will deal with it is active.\<close>

definition attended :: "fifo_os \<Rightarrow> fifo_state \<Rightarrow> bool" where
  "attended os st \<longleftrightarrow>
     (if buffers_are_empty st then True
      else if f_fd st = - 1 then f_open_active st
      else if buffers_exceed_pipe_size os st
      then (if use_aio os then f_async_active st else f_idle_active st \<and> f_timeout_active st)
      else f_write_active st)"

definition fifo_inv :: "fifo_os \<Rightarrow> fifo_state \<Rightarrow> bool" where
  "fifo_inv os st \<longleftrightarrow> data_ok os st \<and> watchers_ok os st \<and> attended os st"

text \<open>
  Documented behaviour of the system: a write of at most \<open>PIPE_BUF\<close> bytes to a pipe is
  complete or fails, and a write of at least one byte to a file writes some or fails.
\<close>

definition posix_ok :: "fifo_os \<Rightarrow> bool" where
  "posix_ok os \<longleftrightarrow>
     (\<forall>k n m. os_write os k n = Wrote m \<longrightarrow> n \<le> pipe_buf os \<longrightarrow> m = n) \<and>
     (\<forall>k n. 0 < n \<longrightarrow> os_file_write os k n \<noteq> Some 0)"

section \<open>The invariant is kept\<close>

lemma data_okD:
  assumes "data_ok os st"
  shows "buf_inv (f_output_buffer st)"
    "flows (f_trace st) (out_bytes st) (buffer_bytes (f_output_buffer st)) (f_aio_buf st)"
    "f_output st = None \<Longrightarrow> f_output_size st = 0"
    "f_output st = Some d \<Longrightarrow> f_output_size st \<le> length d"
    "length (out_bytes st) = f_output_size st"
    "buffer_size (f_output_buffer st) = length (buffer_bytes (f_output_buffer st))"
  using assms by (auto simp: data_ok_def out_bytes_def buffer_size_bytes split: option.splits)

lemma data_ok_same:
  assumes "data_ok os st" "f_output_buffer st' = f_output_buffer st" "f_output st' = f_output st"
    "f_output_size st' = f_output_size st" "f_trace st' = f_trace st" "f_aio_buf st' = f_aio_buf st"
  shows "data_ok os st'"
proof -
  have "out_bytes st' = out_bytes st" by (simp add: out_bytes_def assms(3,4) cong: option.case_cong)
  then show ?thesis using assms by (simp add: data_ok_def cong: option.case_cong)
qed

lemmas ghost_defs = tick_def note_event_def lose_output_def free_output_def

lemma slurp_output_ok:
  assumes "data_ok os st"
  shows "\<exists>st1 d n b. slurp_output st = Ret st1 \<and>
    st1 = st\<lparr>f_output := Some d, f_output_size := n, f_output_buffer := b\<rparr> \<and> data_ok os st1 \<and>
    n + buffer_size b = f_output_size st + buffer_size (f_output_buffer st) \<and>
    (f_output st \<noteq> None \<longrightarrow> n = f_output_size st \<and> b = f_output_buffer st) \<and> (f_output st = None \<longrightarrow> buffer_size b = 0)"
proof (cases "f_output st")
  case (Some d)
  then have "st = st\<lparr>f_output := Some d, f_output_size := f_output_size st, f_output_buffer := f_output_buffer st\<rparr>"
    by (cases st) simp
  then show ?thesis using Some assms unfolding slurp_output_def by (metis option.distinct(1))
next
  case None
  note d = data_okD[OF assms]
  from buffer_slurp_correct[OF d(1)] obtain m b where
    b: "buffer_slurp (f_output_buffer st) = Ret (m, length (buffer_bytes (f_output_buffer st)), b)"
      "length (buffer_bytes (f_output_buffer st)) \<le> length m"
      "take (length (buffer_bytes (f_output_buffer st))) m = buffer_bytes (f_output_buffer st)"
      "buf_inv b" "buffer_bytes b = []" by blast
  let ?st = "st\<lparr>f_output := Some m, f_output_size := length (buffer_bytes (f_output_buffer st)), f_output_buffer := b\<rparr>"
  have "out_bytes st = []" using None by (simp add: out_bytes_def)
  then have "data_ok os ?st"
    using assms b flows_join[OF d(2)] by (simp add: data_ok_def out_bytes_def)
  then show ?thesis
    using None b d
    by (intro exI[of _ ?st] exI[of _ m] exI[of _ "length (buffer_bytes (f_output_buffer st))"] exI[of _ b])
      (simp add: slurp_output_def buffer_size_bytes)
qed

text \<open>Writing what is queued: the pipe gets it in pieces, or the writer waits or reopens.\<close>

lemma write_done_ok:
  assumes "data_ok os st" "f_output_size st \<le> pipe_buf os"
  shows "data_ok os (write_done (f_output_size st) st)"
    "f_output (write_done (f_output_size st) st) = None"
    "f_output_size (write_done (f_output_size st) st) = 0"
    "f_output_buffer (write_done (f_output_size st) st) = f_output_buffer st"
proof -
  note d = data_okD[OF assms(1)]
  have "take (f_output_size st) (out_bytes st) = out_bytes st" using d(5) by simp
  then show "data_ok os (write_done (f_output_size st) st)"
    using assms flows_settle_out(1)[OF d(2)] d
    by (auto simp: data_ok_def write_done_def ghost_defs Let_def out_bytes_def)
qed (simp_all add: write_done_def ghost_defs Let_def)

definition same_watchers :: "fifo_state \<Rightarrow> fifo_state \<Rightarrow> bool" where
  "same_watchers st st' \<longleftrightarrow>
     f_async_active st' = f_async_active st \<and> f_aio_buf st' = f_aio_buf st \<and>
     f_idle_active st' = f_idle_active st \<and> f_timeout_active st' = f_timeout_active st \<and>
     f_max_queue_size st' = f_max_queue_size st"

lemma same_watchers_refl [simp]: "same_watchers st st"
  by (simp add: same_watchers_def)

lemma same_watchers_trans: "same_watchers a b \<Longrightarrow> same_watchers b c \<Longrightarrow> same_watchers a c"
  by (simp add: same_watchers_def)

definition pipe_ready :: "fifo_os \<Rightarrow> fifo_state \<Rightarrow> bool" where
  "pipe_ready os st \<longleftrightarrow> data_ok os st \<and> f_write_active st \<and> f_fd st \<noteq> - 1 \<and> \<not> f_open_active st \<and>
     \<not> buffers_exceed_pipe_size os st"

definition pipe_result :: "fifo_os \<Rightarrow> fifo_state \<Rightarrow> bool" where
  "pipe_result os st \<longleftrightarrow> data_ok os st \<and> attended os st \<and> \<not> buffers_exceed_pipe_size os st \<and>
     (f_write_active st \<longrightarrow> f_fd st \<noteq> - 1 \<and> (use_aio os \<longrightarrow> \<not> buffers_are_empty st)) \<and>
     (f_open_active st \<longleftrightarrow> f_fd st = - 1)"

lemma write_cb_ok:
  assumes "posix_ok os" "pipe_ready os st"
  shows "\<exists>st'. write_cb os st = Ret st' \<and> pipe_result os st' \<and> same_watchers st st'"
  using assms
proof (induction os st rule: write_cb.induct)
  case (1 os st)
  have dok: "data_ok os st" and st: "f_write_active st" "f_fd st \<noteq> - 1" "\<not> f_open_active st"
    "\<not> buffers_exceed_pipe_size os st" using 1(3) by (auto simp: pipe_ready_def)
  from slurp_output_ok[OF dok] obtain st1 d n b where
    s1: "slurp_output st = Ret st1" and
    s1_eq: "st1 = st\<lparr>f_output := Some d, f_output_size := n, f_output_buffer := b\<rparr>" and
    dok1: "data_ok os st1" and
    sz: "n + buffer_size b = f_output_size st + buffer_size (f_output_buffer st)"
      "f_output st \<noteq> None \<longrightarrow> n = f_output_size st \<and> b = f_output_buffer st" "f_output st = None \<longrightarrow> buffer_size b = 0"
    by (elim exE conjE) (rule that; assumption)
  have small: "n \<le> pipe_buf os" "buffer_size b \<le> pipe_buf os"
    using st(4) sz data_okD(3)[OF dok]
    by (cases "f_output st"; simp add: buffers_exceed_pipe_size_def)+
  have tick_ok: "data_ok os (tick st1)"
    by (rule data_ok_same[OF dok1]) (simp_all add: tick_def)
  have st1: "f_output (tick st1) = Some d" "f_output_size (tick st1) = n" "f_output_buffer (tick st1) = b"
    "f_write_active (tick st1)" "f_fd (tick st1) \<noteq> - 1" "\<not> f_open_active (tick st1)"
    "same_watchers st (tick st1)" "f_calls st1 = f_calls st" "f_output_size st1 = n"
    using st by (simp_all add: s1_eq tick_def same_watchers_def)
  show ?case
  proof (cases "os_write os (f_calls st1) n")
    case (Wrote m)
    let ?st2 = "write_done n (tick st1)"
    have m: "m = n" using Wrote 1(2) small(1) unfolding posix_ok_def by blast
    note wd = write_done_ok[OF tick_ok, unfolded st1(2,3), OF small(1)]
    have f2: "f_fd ?st2 \<noteq> - 1" "\<not> f_open_active ?st2" "same_watchers st ?st2"
      "f_write_active ?st2 = (buffer_size b \<noteq> 0)"
      using st1 by (simp_all add: write_done_def ghost_defs Let_def same_watchers_def)
    have ready: "pipe_ready os ?st2" if "buffer_size b > 0"
      using that wd f2 small by (simp add: pipe_ready_def buffers_exceed_pipe_size_def)
    show ?thesis
    proof (cases "n > 0 \<and> buffer_size b > 0")
      case True
      then have "\<exists>st'. write_cb os ?st2 = Ret st' \<and> pipe_result os st' \<and> same_watchers ?st2 st'"
        using 1(1)[OF s1, of n ?st2] Wrote m st1(9) wd(4) ready 1(2) by simp
      moreover have "write_cb os st = write_cb os ?st2"
        using True by (subst write_cb.simps) (simp add: s1 Wrote st1(9) m Let_def wd(4))
      ultimately show ?thesis using same_watchers_trans[OF f2(3)] by auto
    next
      case False
      then have "write_cb os st = Ret ?st2"
        by (subst write_cb.simps) (auto simp: s1 Wrote st1(9) m Let_def wd(4))
      moreover have "pipe_result os ?st2"
        using wd f2 small
        by (auto simp: pipe_result_def attended_def buffers_exceed_pipe_size_def buffers_are_empty_def)
      ultimately show ?thesis using f2(3) by simp
    qed
  next
    case WriteFailed
    then have "write_cb os st = Ret (write_failed (tick st1))"
      by (subst write_cb.simps) (simp add: s1 st1(9))
    moreover have "data_ok os (write_failed (tick st1))"
      by (rule data_ok_same[OF tick_ok]) (simp_all add: write_failed_def)
    then have "pipe_result os (write_failed (tick st1))"
      using st1 small
      by (simp add: pipe_result_def write_failed_def attended_def buffers_exceed_pipe_size_def)
    ultimately show ?thesis using st1(7) by (simp add: write_failed_def same_watchers_def)
  qed (use st1 small tick_ok in \<open>subst write_cb.simps,
      simp add: s1 pipe_result_def attended_def buffers_exceed_pipe_size_def buffers_are_empty_def\<close>)+
qed

text \<open>Joining, dumping and dispatching.\<close>

lemma join_buffers_ok:
  assumes "data_ok os st"
  shows "\<exists>st1 d n b. join_buffers st = Ret st1 \<and> data_ok os st1 \<and>
    st1 = st\<lparr>f_output := d, f_output_size := n, f_output_buffer := b\<rparr> \<and> buffer_bytes b = []"
proof (cases "buffer_size (f_output_buffer st) = 0")
  case True
  then show ?thesis using assms data_okD(6)[OF assms]
    by (intro exI[of _ st] exI[of _ "f_output st"] exI[of _ "f_output_size st"] exI[of _ "f_output_buffer st"])
      (simp add: join_buffers_def)
next
  case False
  note d = data_okD[OF assms]
  from buffer_read_correct[OF d(1), of "buffer_size (f_output_buffer st)"] d(6) obtain b where
    b: "buffer_read (f_output_buffer st) (buffer_size (f_output_buffer st)) = Ret (buffer_bytes (f_output_buffer st), b)"
      "buf_inv b" "buffer_bytes b = []" by auto
  let ?o = "out_bytes st @ buffer_bytes (f_output_buffer st)"
  let ?st = "st\<lparr>f_output_buffer := b, f_output := Some ?o, f_output_size := length ?o\<rparr>"
  have "join_buffers st = Ret ?st"
    using False b d(5,6) by (simp add: join_buffers_def Let_def)
  moreover have "data_ok os ?st"
    using assms b flows_join[OF d(2)] by (simp add: data_ok_def out_bytes_def)
  ultimately show ?thesis using b(3)
    by (intro exI[of _ ?st] exI[of _ "Some ?o"] exI[of _ "length ?o"] exI[of _ b]) simp
qed

definition dispatchable :: "fifo_os \<Rightarrow> fifo_state \<Rightarrow> bool" where
  "dispatchable os st \<longleftrightarrow> data_ok os st \<and>
     (f_write_active st \<longrightarrow> f_fd st \<noteq> - 1 \<and> (use_aio os \<longrightarrow> \<not> buffers_are_empty st)) \<and>
     (f_open_active st \<longleftrightarrow> f_fd st = - 1) \<and>
     (f_idle_active st \<longleftrightarrow> f_timeout_active st) \<and>
     (f_aio_buf st \<noteq> None \<longleftrightarrow> f_async_active st)"

lemma lose_output_ok:
  assumes "data_ok os st"
  shows "data_ok os (free_output (lose_output st))"
  using assms flows_settle_out(2)[OF data_okD(2)[OF assms]]
  by (auto simp: data_ok_def ghost_defs out_bytes_def)

lemma emptied_inv:
  assumes "data_ok os st" "f_write_active st \<longrightarrow> \<not> use_aio os \<and> f_fd st \<noteq> - 1"
    "f_output st = None" "buffer_bytes (f_output_buffer st) = []"
    "f_open_active st \<longleftrightarrow> f_fd st = - 1" "f_idle_active st \<longleftrightarrow> f_timeout_active st"
    "f_aio_buf st \<noteq> None \<longleftrightarrow> f_async_active st"
  shows "fifo_inv os st"
  using assms data_okD(3,6)[OF assms(1)]
  by (auto simp: fifo_inv_def watchers_ok_def attended_def buffers_are_empty_def buffers_exceed_pipe_size_def)

lemma dump_aborted_inv:
  assumes "data_ok os st" "f_write_active st \<longrightarrow> \<not> use_aio os \<and> f_fd st \<noteq> - 1"
    "buffer_bytes (f_output_buffer st) = []"
    "f_open_active st \<longleftrightarrow> f_fd st = - 1" "f_idle_active st \<longleftrightarrow> f_timeout_active st"
    "f_aio_buf st \<noteq> None \<longleftrightarrow> f_async_active st"
  shows "fifo_inv os (free_output (lose_output st))"
  using assms by (intro emptied_inv lose_output_ok) (simp_all add: ghost_defs)

lemma open_dump_file_fields:
  "open_dump_file os st = (ok, st') \<Longrightarrow> \<exists>c d f. st' = st\<lparr>f_calls := c, f_dump_fd := d, f_dump_file := f\<rparr>"
  by (auto simp: open_dump_file_def tick_def split: option.splits)

lemma dump_fields_data_ok [simp]:
  "data_ok os (st\<lparr>f_calls := c\<rparr>) = data_ok os st"
  "data_ok os (st\<lparr>f_dump_fd := d\<rparr>) = data_ok os st"
  "data_ok os (st\<lparr>f_dump_file := f\<rparr>) = data_ok os st"
  "data_ok os (st\<lparr>f_async_active := a\<rparr>) = data_ok os st"
  "data_ok os (st\<lparr>f_idle_active := a\<rparr>) = data_ok os st"
  "data_ok os (st\<lparr>f_timeout_active := a\<rparr>) = data_ok os st"
  "data_ok os (st\<lparr>f_open_active := a\<rparr>) = data_ok os st"
  "data_ok os (st\<lparr>f_write_active := a\<rparr>) = data_ok os st"
  "data_ok os (st\<lparr>f_fd := fd\<rparr>) = data_ok os st"
  by (auto intro: data_ok_same)

lemma async_dump_ok:
  assumes "dispatchable os st" "\<not> f_write_active st" "\<not> f_async_active st" "use_aio os"
  shows "\<exists>st'. async_dump_data os st = Ret st' \<and> fifo_inv os st'"
proof -
  note d = assms(1)[unfolded dispatchable_def]
  from join_buffers_ok[OF d[THEN conjunct1]] obtain st1 o1 n b where
    j: "join_buffers st = Ret st1" "data_ok os st1"
      "st1 = st\<lparr>f_output := o1, f_output_size := n, f_output_buffer := b\<rparr>" "buffer_bytes b = []"
    by (elim exE conjE) (rule that; assumption)
  obtain ok st2 where o: "open_dump_file os st1 = (ok, st2)" by force
  from open_dump_file_fields[OF o] obtain c2 d2 f2 where
    st2: "st2 = st1\<lparr>f_calls := c2, f_dump_fd := d2, f_dump_file := f2\<rparr>" by blast
  have dok2: "data_ok os st2" by (simp add: st2 j(2))
  have w: "\<not> f_write_active st2" "buffer_bytes (f_output_buffer st2) = []"
    "f_open_active st2 \<longleftrightarrow> f_fd st2 = - 1" "f_idle_active st2 \<longleftrightarrow> f_timeout_active st2"
    "f_aio_buf st2 = None" "\<not> f_async_active st2"
    using d assms(2,3) by (auto simp: st2 j(3,4))
  show ?thesis
  proof (cases "ok \<and> os_aio_write os (f_calls st2)")
    case True
    let ?st = "(tick (st2\<lparr>f_async_active := True\<rparr>))\<lparr>f_aio_buf := Some (out_bytes st2), f_output := None, f_output_size := 0\<rparr>"
    have "out_bytes (st2\<lparr>f_async_active := True\<rparr>) = out_bytes st2" by (simp add: out_bytes_def cong: option.case_cong)
    then have "async_dump_data os st = Ret ?st"
      using True by (simp add: async_dump_data_def j(1) o Let_def)
    moreover have "flows (f_trace st2) [] (buffer_bytes (f_output_buffer st2)) (Some (out_bytes st2))"
      using flows_aio_start data_okD(2)[OF dok2] w(5) by simp
    then have "data_ok os ?st" using dok2 by (simp add: data_ok_def tick_def out_bytes_def)
    then have "fifo_inv os ?st" by (rule emptied_inv) (use w in \<open>simp_all add: tick_def\<close>)
    ultimately show ?thesis by blast
  next
    case False
    then show ?thesis using w dok2
      by (cases ok) (simp_all add: async_dump_data_def j(1) o Let_def close_dump_file_def tick_def dump_aborted_inv)
  qed
qed

lemma pipe_result_inv:
  assumes "pipe_result os st" "f_idle_active st \<longleftrightarrow> f_timeout_active st" "f_aio_buf st \<noteq> None \<longleftrightarrow> f_async_active st"
  shows "fifo_inv os st"
  using assms by (auto simp: pipe_result_def fifo_inv_def watchers_ok_def)

lemma dispatch_data_ok:
  assumes "posix_ok os" "dispatchable os st"
  shows "\<exists>st'. dispatch_data os st = Ret st' \<and> fifo_inv os st'"
proof -
  note d = assms(2)[unfolded dispatchable_def]
  consider "f_fd st = - 1" | "f_fd st \<noteq> - 1" "\<not> buffers_exceed_pipe_size os st" "\<not> f_write_active st"
    | "f_fd st \<noteq> - 1" "\<not> buffers_exceed_pipe_size os st" "f_write_active st"
    | "f_fd st \<noteq> - 1" "buffers_exceed_pipe_size os st" by blast
  then show ?thesis
  proof cases
    case 1
    then show ?thesis using d
      by (auto simp: dispatch_data_def fifo_inv_def watchers_ok_def attended_def)
  next
    case 2
    then have "pipe_ready os (st\<lparr>f_write_active := True\<rparr>)"
      using d by (simp add: pipe_ready_def buffers_exceed_pipe_size_def)
    from write_cb_ok[OF assms(1) this] 2 d show ?thesis
      by (auto simp: dispatch_data_def same_watchers_def intro!: pipe_result_inv)
  next
    case 3
    then show ?thesis using d
      by (auto simp: dispatch_data_def fifo_inv_def watchers_ok_def attended_def)
  next
    case 4
    let ?st = "if f_write_active st then st\<lparr>f_write_active := False\<rparr> else st"
    have ex: "buffers_exceed_pipe_size os ?st" and dp: "dispatchable os ?st" "\<not> f_write_active ?st" "f_fd ?st \<noteq> - 1"
      using 4 d by (auto simp: dispatchable_def buffers_exceed_pipe_size_def)
    show ?thesis
    proof (cases "use_aio os \<and> \<not> f_async_active ?st")
      case True
      then show ?thesis using async_dump_ok[OF dp(1,2)] 4 by (simp add: dispatch_data_def Let_def)
    next
      case False
      let ?st' = "if \<not> use_aio os \<and> \<not> f_idle_active ?st then ?st\<lparr>f_timeout_active := True, f_idle_active := True\<rparr> else ?st"
      have "dispatch_data os st = Ret ?st'" using 4 False by (auto simp: dispatch_data_def Let_def)
      moreover have "fifo_inv os ?st'"
        using dp ex False by (auto simp: fifo_inv_def watchers_ok_def attended_def dispatchable_def
            buffers_are_empty_def buffers_exceed_pipe_size_def)
      ultimately show ?thesis by blast
    qed
  qed
qed

lemma submit_out_ok:
  assumes "data_ok os st" "buffers_are_empty st"
  shows "data_ok os ((note_event (Submitted data) st)\<lparr>f_output := Some data, f_output_size := length data\<rparr>)"
proof -
  have "out_bytes st = []" "buffer_bytes (f_output_buffer st) = []"
    using assms(2) data_okD(6)[OF assms(1)] by (simp_all add: buffers_are_empty_def out_bytes_def)
  with data_okD(2)[OF assms(1)] flows_submit_out[of "f_trace st" "f_aio_buf st" data] assms(1) show ?thesis
    by (auto simp: data_ok_def note_event_def out_bytes_def)
qed

lemma submit_queue_ok:
  assumes "data_ok os st"
  shows "data_ok os ((note_event (Submitted data) st)\<lparr>f_output_buffer := buffer_append (f_output_buffer st) data\<rparr>)"
  using assms flows_submit[OF data_okD(2)[OF assms]]
  by (auto simp: data_ok_def note_event_def out_bytes_def cong: option.case_cong)

lemma throw_away_ok:
  assumes "data_ok os st"
  shows "data_ok os ((note_event (Lost (buffer_bytes (f_output_buffer st))) st)\<lparr>f_output_buffer := buffer_new\<rparr>)"
  using assms flows_settle_queue[OF data_okD(2)[OF assms]]
  by (auto simp: data_ok_def note_event_def out_bytes_def cong: option.case_cong)

lemma fifo_write_ok:
  assumes "posix_ok os" "dispatchable os st" "data \<noteq> []"
  shows "\<exists>st'. fifo_write os st data owned = Ret st' \<and> fifo_inv os st'"
proof (cases "buffers_are_empty st \<and> owned")
  case True
  let ?st = "(note_event (Submitted data) st)\<lparr>f_output := Some data, f_output_size := length data\<rparr>"
  have "dispatchable os ?st"
    using assms(2) True submit_out_ok[of os st data]
    by (simp add: dispatchable_def buffers_are_empty_def note_event_def)
  from dispatch_data_ok[OF assms(1) this] True show ?thesis by (simp add: fifo_write_def)
next
  case False
  define st1 where "st1 = (if f_max_queue_size st > 0 \<and>
      buffer_size (f_output_buffer st) + length data > f_max_queue_size st
    then (note_event (Lost (buffer_bytes (f_output_buffer st))) st)\<lparr>f_output_buffer := buffer_new\<rparr> else st)"
  let ?st = "(note_event (Submitted data) st1)\<lparr>f_output_buffer := buffer_append (f_output_buffer st1) data\<rparr>"
  have d1: "data_ok os st1" using assms(2) throw_away_ok by (simp add: st1_def dispatchable_def)
  then have "buffer_size (buffer_append (f_output_buffer st1) data) \<noteq> 0"
    using assms(3) data_okD(1)[OF d1] by (simp add: buffer_size_bytes)
  moreover have "data_ok os ?st" using d1 by (rule submit_queue_ok)
  ultimately have "dispatchable os ?st"
    using assms(2) by (simp add: dispatchable_def buffers_are_empty_def note_event_def st1_def)
  moreover have "fifo_write os st data owned = dispatch_data os ?st"
    using False by (auto simp: fifo_write_def st1_def Let_def)
  ultimately show ?thesis using dispatch_data_ok[OF assms(1)] by simp
qed

lemma inv_dispatchable: "fifo_inv os st \<Longrightarrow> dispatchable os st"
  by (auto simp: fifo_inv_def watchers_ok_def dispatchable_def)

lemma process_file_command_nonempty [simp]: "process_file_command now file \<noteq> []"
  by (simp add: process_file_command_def)

lemma close_dump_file_eq: "close_dump_file os st = (ok, st') \<Longrightarrow> st' = st\<lparr>f_calls := Suc (f_calls st), f_dump_file := None\<rparr>"
  by (auto simp: close_dump_file_def tick_def)

definition only_aio_done :: "fifo_state \<Rightarrow> fifo_event \<Rightarrow> fifo_state \<Rightarrow> bool" where
  "only_aio_done st p st1 \<longleftrightarrow>
     f_output_buffer st1 = f_output_buffer st \<and> f_output st1 = f_output st \<and>
     f_output_size st1 = f_output_size st \<and> f_write_active st1 = f_write_active st \<and>
     f_fd st1 = f_fd st \<and> f_open_active st1 = f_open_active st \<and>
     f_idle_active st1 = f_idle_active st \<and> f_timeout_active st1 = f_timeout_active st \<and>
     f_aio_buf st1 = None \<and> \<not> f_async_active st1 \<and> f_trace st1 = f_trace st @ [p]"

lemma aio_done_ok:
  assumes "data_ok os st" "f_aio_buf st = Some b" "p = Lost b \<or> (\<exists>f. p = Dumped f b)" "only_aio_done st p st1"
  shows "data_ok os st1"
proof -
  have "flows (f_trace st @ [p]) (out_bytes st) (buffer_bytes (f_output_buffer st)) None"
    using data_okD(2)[OF assms(1)] assms(2,3) flows_aio_end by auto
  moreover have "out_bytes st1 = out_bytes st"
    using assms(4) by (simp add: out_bytes_def only_aio_done_def cong: option.case_cong)
  ultimately show ?thesis
    using assms by (auto simp: data_ok_def only_aio_done_def cong: option.case_cong)
qed

lemma aio_released:
  assumes "fifo_inv os st" "f_aio_buf st = Some b" "p = Lost b \<or> (\<exists>f. p = Dumped f b)" "only_aio_done st p st1"
  shows "dispatchable os st1" "\<not> buffers_exceed_pipe_size os st1 \<Longrightarrow> fifo_inv os st1"
proof -
  note d = assms(1)[unfolded fifo_inv_def]
  have dok: "data_ok os st1" using d assms(2-4) aio_done_ok by blast
  have eqs: "buffers_exceed_pipe_size os st1 = buffers_exceed_pipe_size os st"
    "buffers_are_empty st1 = buffers_are_empty st"
    using assms(4) by (simp_all add: buffers_exceed_pipe_size_def buffers_are_empty_def only_aio_done_def)
  show "dispatchable os st1"
    using d dok eqs assms(4) by (simp add: dispatchable_def watchers_ok_def only_aio_done_def)
  show "fifo_inv os st1" if "\<not> buffers_exceed_pipe_size os st1"
    using that d dok eqs assms(4)
    by (simp add: fifo_inv_def watchers_ok_def only_aio_done_def attended_def split: if_splits)
qed

lemma async_end_ok:
  assumes "posix_ok os" "dispatchable os st" "\<not> buffers_exceed_pipe_size os st \<Longrightarrow> fifo_inv os st"
  shows "\<exists>st'. (if buffers_exceed_pipe_size os st then dispatch_data os st else Ret st) = Ret st' \<and> fifo_inv os st'"
  using dispatch_data_ok[OF assms(1,2)] assms(3) by simp

lemma async_cb_ok:
  assumes "posix_ok os" "fifo_inv os st" "f_async_active st"
  shows "\<exists>st'. async_cb os st = Ret st' \<and> fifo_inv os st'"
proof -
  obtain b where b: "f_aio_buf st = Some b"
    using assms(2,3) by (auto simp: fifo_inv_def watchers_ok_def)
  note rel = aio_released[OF assms(2) b]
  let ?off = "st\<lparr>f_async_active := False, f_aio_buf := None\<rparr>"
  let ?lost = "note_event (Lost b) (tick ?off)"
  let ?shut = "(tick (tick ?off))\<lparr>f_dump_file := None\<rparr>"
  let ?file = "the (f_dump_file st)"
  have only: "only_aio_done st (Lost b) ?lost" "only_aio_done st p (note_event p ?shut)" for p
    by (simp_all add: only_aio_done_def note_event_def tick_def)
  note fin = async_end_ok[OF assms(1)]
  show ?thesis
  proof (cases "os_aio_result os (f_calls st) = AioWrote (length b)")
    case False
    then have "async_cb os st = (if buffers_exceed_pipe_size os ?lost then dispatch_data os ?lost else Ret ?lost)"
      by (cases "os_aio_result os (f_calls st)") (simp_all add: async_cb_def b Let_def)
    then show ?thesis using fin[OF rel(1)[OF _ only(1)] rel(2)[OF _ only(1)]] by simp
  next
    case res: True
    show ?thesis
    proof (cases "os_close os (Suc (f_calls st))")
      case True
      define cmd where "cmd = make_process_file_command os (tick ?off)"
      have ne: "cmd \<noteq> []" by (simp add: cmd_def make_process_file_command_def)
      obtain st1 where st1: "fifo_write os (note_event (Dumped ?file b) ?shut) cmd True = Ret st1" "fifo_inv os st1"
        using fifo_write_ok[OF assms(1) rel(1)[OF _ only(2)[of "Dumped ?file b"]] ne] by blast
      moreover have "async_cb os st = (if buffers_exceed_pipe_size os st1 then dispatch_data os st1 else Ret st1)"
        using st1(1) True by (simp add: async_cb_def b Let_def res close_dump_file_def cmd_def tick_def)
      ultimately show ?thesis using fin[of st1] inv_dispatchable by simp
    next
      case False
      then have "async_cb os st = (let st1 = note_event (Lost b) ?shut
          in if buffers_exceed_pipe_size os st1 then dispatch_data os st1 else Ret st1)"
        by (simp add: async_cb_def b Let_def res close_dump_file_def tick_def)
      then show ?thesis using fin[OF rel(1)[OF _ only(2)] rel(2)[OF _ only(2)]] by (simp add: Let_def)
    qed
  qed
qed

lemma sync_loop_ok:
  assumes "posix_ok os"
  shows "\<exists>ok c. sync_loop os st offset = Ret (ok, st\<lparr>f_calls := c\<rparr>)"
  using assms
proof (induction os st offset rule: sync_loop.induct)
  case (1 os st offset)
  show ?case
  proof (cases "offset < f_output_size st")
    case True
    show ?thesis
    proof (cases "os_file_write os (f_calls st) (f_output_size st - offset)")
      case None
      then show ?thesis using True by (subst sync_loop.simps) (auto simp: tick_def)
    next
      case (Some n)
      have "n \<noteq> 0" using 1(2) True Some unfolding posix_ok_def by (metis zero_less_diff)
      with 1(1)[OF True Some this 1(2)] True Some show ?thesis
        by (subst sync_loop.simps) (auto simp: tick_def)
    qed
  next
    case False
    then show ?thesis by (subst sync_loop.simps) (auto intro: exI[of _ "f_calls st"])
  qed
qed

lemma dumped_ok:
  assumes "data_ok os st" "p = Lost (out_bytes st) \<or> (\<exists>f. p = Dumped f (out_bytes st))"
    "f_output_buffer st1 = f_output_buffer st" "f_output st1 = None" "f_output_size st1 = 0"
    "f_trace st1 = f_trace st @ [p]" "f_aio_buf st1 = f_aio_buf st"
  shows "data_ok os st1"
  using assms(3-7) assms(1)[unfolded data_ok_def] assms(2) flows_settle_out(2,3)[OF data_okD(2)[OF assms(1)]]
  by (auto simp: data_ok_def out_bytes_def)

lemma sync_dump_ok:
  assumes "posix_ok os" "dispatchable os st" "\<not> use_aio os"
  shows "\<exists>st'. sync_dump_data os st = Ret st' \<and> fifo_inv os st'"
proof -
  note d = assms(2)[unfolded dispatchable_def]
  from join_buffers_ok[OF d[THEN conjunct1]] obtain st1 o1 n b where
    j: "join_buffers st = Ret st1" "data_ok os st1"
      "st1 = st\<lparr>f_output := o1, f_output_size := n, f_output_buffer := b\<rparr>" "buffer_bytes b = []"
    by (elim exE conjE) (rule that; assumption)
  obtain ok st2 where o: "open_dump_file os st1 = (ok, st2)" by force
  from open_dump_file_fields[OF o] obtain c2 d2 f2 where
    st2: "st2 = st1\<lparr>f_calls := c2, f_dump_fd := d2, f_dump_file := f2\<rparr>" by blast
  have dok2: "data_ok os st2" by (simp add: st2 j(2))
  have w: "f_write_active st2 \<longrightarrow> \<not> use_aio os \<and> f_fd st2 \<noteq> - 1" "buffer_bytes (f_output_buffer st2) = []"
    "f_open_active st2 \<longleftrightarrow> f_fd st2 = - 1" "f_idle_active st2 \<longleftrightarrow> f_timeout_active st2"
    "f_aio_buf st2 \<noteq> None \<longleftrightarrow> f_async_active st2"
    using d assms(3) by (auto simp: st2 j(3,4))
  show ?thesis
  proof (cases ok)
    case False
    have "sync_dump_data os st = Ret (free_output (lose_output st2))"
      using False by (simp add: sync_dump_data_def j(1) o)
    then show ?thesis using dump_aborted_inv[OF dok2 w] by simp
  next
    case True
    obtain written c where l: "sync_loop os st2 0 = Ret (written, st2\<lparr>f_calls := c\<rparr>)"
      using sync_loop_ok[OF assms(1)] by blast
    let ?st3 = "st2\<lparr>f_calls := Suc c, f_dump_file := None\<rparr>"
    let ?data = "out_bytes (st2\<lparr>f_calls := c\<rparr>)"
    have data: "?data = out_bytes st2" by (simp add: out_bytes_def cong: option.case_cong)
    show ?thesis
    proof (cases written)
      case F: False
      have "sync_dump_data os st = Ret (free_output (lose_output ?st3))"
        using True F by (simp add: sync_dump_data_def j(1) o l close_dump_file_def tick_def Let_def)
      moreover have "fifo_inv os (free_output (lose_output ?st3))"
        by (rule dump_aborted_inv) (use dok2 w in simp_all)
      ultimately show ?thesis by blast
    next
      case T: True
      let ?cmd = "make_process_file_command os (free_output (st2\<lparr>f_calls := c\<rparr>))"
      let ?st4 = "\<lambda>p. note_event p ((tick (free_output (st2\<lparr>f_calls := c\<rparr>)))\<lparr>f_dump_file := None\<rparr>)"
      have dp: "data_ok os (?st4 p)" if "p = Lost ?data \<or> (\<exists>f. p = Dumped f ?data)" for p
        by (rule dumped_ok[OF dok2]) (use that data in \<open>auto simp: ghost_defs\<close>)
      have inv4: "fifo_inv os (?st4 p)" if "p = Lost ?data \<or> (\<exists>f. p = Dumped f ?data)" for p
        by (rule emptied_inv[OF dp[OF that]]) (use w in \<open>simp_all add: ghost_defs\<close>)
      show ?thesis
      proof (cases "os_close os c")
        case True
        have ne: "?cmd \<noteq> []" by (simp add: make_process_file_command_def)
        have "sync_dump_data os st = fifo_write os (?st4 (Dumped (the (f_dump_file st2)) ?data)) ?cmd True"
          using \<open>ok\<close> T True by (simp add: sync_dump_data_def j(1) o l close_dump_file_def Let_def free_output_def)
        then show ?thesis using fifo_write_ok[OF assms(1) inv_dispatchable[OF inv4] ne] by simp
      next
        case False
        have "sync_dump_data os st = Ret (?st4 (Lost ?data))"
          using \<open>ok\<close> T False by (simp add: sync_dump_data_def j(1) o l close_dump_file_def Let_def free_output_def)
        then show ?thesis using inv4 by simp
      qed
    qed
  qed
qed

lemma idle_cb_ok:
  assumes "posix_ok os" "fifo_inv os st" "\<not> use_aio os"
  shows "\<exists>st'. idle_cb os (st\<lparr>f_timeout_active := t\<rparr>) = Ret st' \<and> fifo_inv os st'"
proof -
  have "dispatchable os (st\<lparr>f_idle_active := False, f_timeout_active := False\<rparr>)"
    using assms by (auto simp: fifo_inv_def watchers_ok_def dispatchable_def)
  moreover have "idle_cb os (st\<lparr>f_timeout_active := t\<rparr>) =
    sync_dump_data os (st\<lparr>f_idle_active := False, f_timeout_active := False\<rparr>)"
    by (cases st) (simp add: idle_cb_def Let_def)
  ultimately show ?thesis using sync_dump_ok[OF assms(1) _ assms(3)] by simp
qed

lemma open_cb_ok:
  assumes "posix_ok os" "data_ok os st" "\<not> f_write_active st" "\<not> f_open_active st"
    "f_idle_active st \<longleftrightarrow> f_timeout_active st" "f_aio_buf st \<noteq> None \<longleftrightarrow> f_async_active st"
  shows "\<exists>st'. open_cb os st = Ret st' \<and> fifo_inv os st'"
proof -
  have closed: "fifo_inv os ((tick st)\<lparr>f_fd := - 1, f_open_active := True\<rparr>)"
    using assms by (simp add: fifo_inv_def watchers_ok_def attended_def tick_def)
  show ?thesis
  proof (cases "os_open os (f_calls st)")
    case (OpenedFd fd)
    let ?st = "(tick st)\<lparr>f_fd := int fd\<rparr>"
    have dp: "dispatchable os ?st"
      using assms by (simp add: dispatchable_def tick_def)
    have inv_open: "fifo_inv os st' \<Longrightarrow>
      (if f_fd st' = - 1 then Ret (st'\<lparr>f_open_active := True\<rparr>) else Ret st') = Ret st'" for st'
      by (cases st') (simp add: fifo_inv_def watchers_ok_def)
    show ?thesis
    proof (cases "buffers_are_empty ?st")
      case True
      have "fifo_inv os ?st"
        using assms True by (simp add: fifo_inv_def watchers_ok_def attended_def tick_def)
      moreover have "open_cb os st = Ret ?st"
        using True by (simp add: open_cb_def OpenedFd Let_def)
      ultimately show ?thesis by blast
    next
      case False
      then show ?thesis
        using dispatch_data_ok[OF assms(1) dp] inv_open by (auto simp: open_cb_def OpenedFd Let_def)
    qed
  qed (use closed in \<open>simp_all add: open_cb_def\<close>)
qed

lemma fifo_init_ok: "data_ok os (fifo_init path dump_dir m)"
  by (simp add: data_ok_def fifo_init_def out_bytes_def flow)

lemma fifo_start_ok:
  assumes "posix_ok os" "fifo_start os path dump_dir m = Ret st"
  shows "fifo_inv os st"
  using open_cb_ok[OF assms(1) fifo_init_ok[of os path dump_dir m]] assms(2)
  by (auto simp: fifo_start_def fifo_init_def split: if_splits)

lemma fifo_handle_ok:
  assumes "posix_ok os" "fifo_inv os st" "enabled os inp st"
  shows "\<exists>st'. fifo_handle os inp st = Ret st' \<and> fifo_inv os st'"
proof (cases inp)
  case (Submit data owned)
  then show ?thesis using assms fifo_write_ok[OF assms(1) inv_dispatchable[OF assms(2)]] by simp
next
  case OpenTimer
  then have "\<not> f_write_active st" using assms by (auto simp: fifo_inv_def watchers_ok_def)
  then have "\<exists>st'. open_cb os (st\<lparr>f_open_active := False\<rparr>) = Ret st' \<and> fifo_inv os st'"
    using assms by (intro open_cb_ok) (simp_all add: fifo_inv_def watchers_ok_def)
  then show ?thesis using OpenTimer by simp
next
  case PipeReady
  then have "pipe_ready os st" using assms by (auto simp: fifo_inv_def watchers_ok_def pipe_ready_def)
  then obtain st' where s: "write_cb os st = Ret st'" "pipe_result os st'" "same_watchers st st'"
    using write_cb_ok[OF assms(1)] by blast
  have "fifo_inv os st'"
    using assms(2) s(2,3) by (intro pipe_result_inv) (simp_all add: fifo_inv_def watchers_ok_def same_watchers_def)
  then show ?thesis using s(1) PipeReady by simp
next
  case AioDone
  then show ?thesis using async_cb_ok[OF assms(1,2)] assms(3) by simp
next
  case Idle
  then show ?thesis using idle_cb_ok[OF assms(1,2), of "f_timeout_active st"] assms(3) by simp
next
  case IdleTimeout
  then show ?thesis using idle_cb_ok[OF assms(1,2), of False] assms(3) by (simp add: timeout_cb_def)
qed

lemma fifo_reaches_inv:
  assumes "fifo_reaches os m st" "posix_ok os"
  shows "fifo_inv os st"
  using assms
proof (induction rule: fifo_reaches.induct)
  case (start path dump_dir st)
  then show ?case using fifo_start_ok by blast
next
  case (step st inp st')
  then show ?case using fifo_handle_ok[of os st inp] by auto
qed

section \<open>The bound of the queue\<close>

definition shrinks :: "fifo_state \<Rightarrow> fifo_state \<Rightarrow> bool" where
  "shrinks st st' \<longleftrightarrow>
     (f_output_buffer st' = f_output_buffer st \<or> buffer_size (f_output_buffer st') = 0) \<and>
     f_max_queue_size st' = f_max_queue_size st \<and> set (f_trace st) \<subseteq> set (f_trace st') \<and>
     submitted (f_trace st') = submitted (f_trace st)"

lemma shrinks_refl: "shrinks st st"
  by (simp add: shrinks_def)

lemma shrinks_trans: "shrinks a b \<Longrightarrow> shrinks b c \<Longrightarrow> shrinks a c"
  by (auto simp: shrinks_def)

lemma slurp_output_shrinks: "slurp_output st = Ret st' \<Longrightarrow> shrinks st st'"
  by (auto simp: slurp_output_def shrinks_def obind_eq_Ret buffer_size_def
      dest!: buffer_slurp_empties split: if_splits)

lemma write_done_shrinks: "shrinks st (write_done n (tick st))"
  by (auto simp: write_done_def shrinks_def ghost_defs Let_def)

lemma write_cb_shrinks: "write_cb os st = Ret st' \<Longrightarrow> shrinks st st'"
proof (induction os st arbitrary: st' rule: write_cb.induct)
  case (1 os st)
  from 1(2) obtain st1 where s1: "slurp_output st = Ret st1"
    by (subst (asm) write_cb.simps) (auto simp: obind_eq_Ret)
  have "shrinks st1 st'"
  proof (cases "os_write os (f_calls st1) (f_output_size st1)")
    case (Wrote n)
    let ?st2 = "write_done n (tick st1)"
    show ?thesis
    proof (cases "n > 0 \<and> buffer_size (f_output_buffer ?st2) > 0")
      case True
      with 1(2) have "write_cb os ?st2 = Ret st'"
        by (subst (asm) write_cb.simps) (simp add: s1 Wrote Let_def)
      with 1(1)[OF s1 Wrote refl True] write_done_shrinks shrinks_trans show ?thesis by blast
    next
      case False
      with 1(2) have "st' = ?st2" by (subst (asm) write_cb.simps) (auto simp: s1 Wrote Let_def)
      then show ?thesis using write_done_shrinks by simp
    qed
  qed (use 1(2) in \<open>subst (asm) write_cb.simps, auto simp: s1 shrinks_def tick_def write_failed_def\<close>)+
  then show ?case using slurp_output_shrinks[OF s1] shrinks_trans by blast
qed

lemma join_buffers_shrinks: "join_buffers st = Ret st' \<Longrightarrow> shrinks st st'"
  by (auto simp: join_buffers_def shrinks_def obind_eq_Ret Let_def buffer_size_def
      dest!: buffer_read_all_bsize split: if_splits)

lemma dump_shrinks:
  "shrinks st (snd (open_dump_file os st))" "shrinks st (snd (close_dump_file os st))"
  "shrinks st (free_output (lose_output st))"
  by (auto simp: open_dump_file_def close_dump_file_def shrinks_def ghost_defs split: option.splits)

lemma async_dump_shrinks:
  assumes "async_dump_data os st = Ret st'"
  shows "shrinks st st'"
proof -
  from assms obtain st1 where j: "join_buffers st = Ret st1" by (auto simp: async_dump_data_def obind_eq_Ret)
  obtain ok st2 where o: "open_dump_file os st1 = (ok, st2)" by force
  have "shrinks st1 st2" using dump_shrinks(1)[of st1 os] o by simp
  moreover have "shrinks st2 st'"
    using assms j o by (auto simp: async_dump_data_def Let_def close_dump_file_def shrinks_def ghost_defs
        split: bool.splits if_splits)
  ultimately show ?thesis using join_buffers_shrinks[OF j] shrinks_trans by blast
qed

lemma dispatch_data_shrinks:
  assumes "dispatch_data os st = Ret st'"
  shows "shrinks st st'"
proof -
  have "shrinks (st\<lparr>f_write_active := b\<rparr>) st' \<Longrightarrow> shrinks st st'" for b by (simp add: shrinks_def)
  then show ?thesis using assms write_cb_shrinks async_dump_shrinks
    by (fastforce simp: dispatch_data_def Let_def shrinks_def split: if_splits)
qed

definition queue_bounded :: "fifo_state \<Rightarrow> bool" where
  "queue_bounded st \<longleftrightarrow> f_max_queue_size st > 0 \<longrightarrow>
     buffer_size (f_output_buffer st) \<le> f_max_queue_size st \<or>
     (\<exists>d. Submitted d \<in> set (f_trace st) \<and> buffer_size (f_output_buffer st) = length d)"

lemma queue_bounded_shrinks: "queue_bounded st \<Longrightarrow> shrinks st st' \<Longrightarrow> queue_bounded st'"
  by (auto simp: queue_bounded_def shrinks_def)

lemma fifo_write_bounded:
  assumes "buf_inv (f_output_buffer st)" "queue_bounded st" "fifo_write os st data owned = Ret st'"
  shows "queue_bounded st' \<and> f_max_queue_size st' = f_max_queue_size st"
proof -
  have size: "buffer_size (buffer_append (f_output_buffer st) data) = buffer_size (f_output_buffer st) + length data"
    "buffer_size (buffer_append buffer_new data) = length data"
    using assms(1) by (simp_all add: buffer_size_bytes)
  obtain st1 where st1: "dispatch_data os st1 = Ret st'" "queue_bounded st1" "f_max_queue_size st1 = f_max_queue_size st"
    using assms(2,3) size
    by (fastforce simp: fifo_write_def Let_def queue_bounded_def note_event_def split: if_splits)
  with queue_bounded_shrinks[OF st1(2) dispatch_data_shrinks[OF st1(1)]] dispatch_data_shrinks[OF st1(1)]
  show ?thesis by (simp add: shrinks_def)
qed

lemma queue_bounded_same:
  "queue_bounded st \<Longrightarrow> f_output_buffer st' = f_output_buffer st \<Longrightarrow>
   f_max_queue_size st' = f_max_queue_size st \<Longrightarrow> set (f_trace st) \<subseteq> set (f_trace st') \<Longrightarrow> queue_bounded st'"
  by (auto simp: queue_bounded_def)

lemma async_cb_bounded:
  assumes "buf_inv (f_output_buffer st)" "queue_bounded st" "async_cb os st = Ret st'"
  shows "queue_bounded st' \<and> f_max_queue_size st' = f_max_queue_size st"
proof -
  let ?off = "st\<lparr>f_async_active := False, f_aio_buf := None\<rparr>"
  let ?shut = "(tick (tick ?off))\<lparr>f_dump_file := None\<rparr>"
  have b: "queue_bounded (note_event p (tick ?off))" "queue_bounded (note_event p ?shut)" for p
    by (rule queue_bounded_same[OF assms(2)]; auto simp: ghost_defs)+
  obtain st1 where st1: "queue_bounded st1" "f_max_queue_size st1 = f_max_queue_size st"
    "(if buffers_exceed_pipe_size os st1 then dispatch_data os st1 else Ret st1) = Ret st'"
  proof (cases "os_aio_result os (f_calls st) = AioWrote (length (the (f_aio_buf st)))")
    case False
    show ?thesis
      by (rule that[of "note_event (Lost (the (f_aio_buf st))) (tick ?off)"])
        (use False b(1) assms(3) in \<open>cases "os_aio_result os (f_calls st)";
          simp add: async_cb_def Let_def; simp add: ghost_defs\<close>)+
  next
    case res: True
    show ?thesis
    proof (cases "os_close os (Suc (f_calls st))")
      case True
      from assms(3) obtain st1 where w: "fifo_write os (note_event (Dumped (the (f_dump_file st)) (the (f_aio_buf st))) ?shut)
          (make_process_file_command os (tick ?off)) True = Ret st1"
        and e: "(if buffers_exceed_pipe_size os st1 then dispatch_data os st1 else Ret st1) = Ret st'"
        by (auto simp: async_cb_def Let_def res close_dump_file_def True tick_def obind_eq_Ret)
      have "buf_inv (f_output_buffer (note_event p ?shut))" for p using assms(1) by (simp add: ghost_defs)
      from fifo_write_bounded[OF this b(2) w]
      have "queue_bounded st1" "f_max_queue_size st1 = f_max_queue_size st" by (simp_all add: ghost_defs)
      then show ?thesis using that e by blast
    next
      case False
      then have "async_cb os st = (let st1 = note_event (Lost (the (f_aio_buf st))) ?shut
          in if buffers_exceed_pipe_size os st1 then dispatch_data os st1 else Ret st1)"
        by (simp add: async_cb_def Let_def res close_dump_file_def tick_def)
      with assms(3) have e: "(let st1 = note_event (Lost (the (f_aio_buf st))) ?shut
          in if buffers_exceed_pipe_size os st1 then dispatch_data os st1 else Ret st1) = Ret st'" by simp
      show ?thesis by (rule that[OF b(2) _ e[unfolded Let_def]]) (simp add: ghost_defs)
    qed
  qed
  then show ?thesis
    using queue_bounded_shrinks[OF st1(1) dispatch_data_shrinks] dispatch_data_shrinks
    by (auto simp: shrinks_def split: if_splits)
qed

lemma sync_dump_bounded:
  assumes "posix_ok os" "data_ok os st" "queue_bounded st" "sync_dump_data os st = Ret st'"
  shows "queue_bounded st' \<and> f_max_queue_size st' = f_max_queue_size st"
proof -
  from join_buffers_ok[OF assms(2)] obtain st1 where j: "join_buffers st = Ret st1" "data_ok os st1"
    by (elim exE conjE) (rule that; assumption)
  obtain ok st2 where o: "open_dump_file os st1 = (ok, st2)" by force
  from open_dump_file_fields[OF o] obtain c2 d2 f2 where
    st2: "st2 = st1\<lparr>f_calls := c2, f_dump_fd := d2, f_dump_file := f2\<rparr>" by blast
  have b1: "queue_bounded st1" "f_max_queue_size st1 = f_max_queue_size st"
    using queue_bounded_shrinks[OF assms(3) join_buffers_shrinks[OF j(1)]] join_buffers_shrinks[OF j(1)]
    by (simp_all add: shrinks_def)
  obtain written c where l: "sync_loop os st2 0 = Ret (written, st2\<lparr>f_calls := c\<rparr>)"
    using sync_loop_ok[OF assms(1)] by blast
  let ?st4 = "\<lambda>p. note_event p ((tick (free_output (st2\<lparr>f_calls := c\<rparr>)))\<lparr>f_dump_file := None\<rparr>)"
  have b4: "queue_bounded (?st4 p)" "buf_inv (f_output_buffer (?st4 p))" "f_max_queue_size (?st4 p) = f_max_queue_size st" for p
    using b1(2) data_okD(1)[OF j(2)]
    by (auto intro!: queue_bounded_same[OF b1(1)] simp: ghost_defs st2)
  show ?thesis
  proof (cases "ok \<and> written \<and> os_close os c")
    case True
    then have "fifo_write os (?st4 (Dumped (the (f_dump_file st2)) (out_bytes (st2\<lparr>f_calls := c\<rparr>))))
      (make_process_file_command os (free_output (st2\<lparr>f_calls := c\<rparr>))) True = Ret st'"
      using assms(4) by (simp add: sync_dump_data_def j(1) o l close_dump_file_def Let_def free_output_def)
    from fifo_write_bounded[OF b4(2,1) this] b4(3) show ?thesis by simp
  next
    case False
    then have "f_output_buffer st' = f_output_buffer st1 \<and> f_max_queue_size st' = f_max_queue_size st1 \<and>
      set (f_trace st1) \<subseteq> set (f_trace st')"
      using assms(4) by (cases ok; cases written)
        (auto simp: sync_dump_data_def j(1) o[unfolded st2] l[unfolded st2] close_dump_file_def Let_def ghost_defs)
    then show ?thesis using queue_bounded_same[OF b1(1)] b1(2) by simp
  qed
qed

lemma fifo_handle_bounded:
  assumes "posix_ok os" "fifo_inv os st" "queue_bounded st" "fifo_handle os inp st = Ret st'"
  shows "queue_bounded st' \<and> f_max_queue_size st' = f_max_queue_size st"
proof -
  have dok: "data_ok os st" and bi: "buf_inv (f_output_buffer st)"
    using assms(2) data_okD(1) by (auto simp: fifo_inv_def)
  have by_shrinks: ?thesis if "shrinks st1 st'" "queue_bounded st1" "f_max_queue_size st1 = f_max_queue_size st" for st1
    using that queue_bounded_shrinks by (auto simp: shrinks_def)
  have idle: ?thesis if "idle_cb os (st\<lparr>f_timeout_active := t\<rparr>) = Ret st'" for t
  proof -
    let ?st1 = "st\<lparr>f_idle_active := False, f_timeout_active := False\<rparr>"
    have "idle_cb os (st\<lparr>f_timeout_active := t\<rparr>) = sync_dump_data os ?st1"
      by (cases st) (simp add: idle_cb_def Let_def)
    moreover have "queue_bounded ?st1" using assms(3) by (simp add: queue_bounded_def)
    ultimately show ?thesis using sync_dump_bounded[OF assms(1), of ?st1 st'] that dok by simp
  qed
  show ?thesis
  proof (cases inp)
    case (Submit data owned)
    then show ?thesis using fifo_write_bounded[OF bi assms(3)] assms(4) by simp
  next
    case OpenTimer
    have "shrinks (st\<lparr>f_open_active := False\<rparr>) st'"
    proof (cases "os_open os (f_calls st)")
      case (OpenedFd fd)
      then show ?thesis using assms(4) OpenTimer
        by (auto simp: open_cb_def Let_def obind_eq_Ret tick_def shrinks_def
            dest!: dispatch_data_shrinks split: if_splits)
    qed (use assms(4) OpenTimer in \<open>auto simp: open_cb_def shrinks_def tick_def\<close>)
    then show ?thesis
      by (rule by_shrinks) (use assms(3) in \<open>simp_all add: queue_bounded_def\<close>)
  next
    case PipeReady
    then show ?thesis using by_shrinks[OF write_cb_shrinks] assms(3,4) by simp
  next
    case AioDone
    then show ?thesis using async_cb_bounded[OF bi assms(3)] assms(4) by simp
  next
    case Idle
    then show ?thesis using idle[of "f_timeout_active st"] assms(4) by simp
  next
    case IdleTimeout
    then show ?thesis using idle[of False] assms(4) by (simp add: timeout_cb_def)
  qed
qed

lemma fifo_reaches_bounded:
  assumes "fifo_reaches os m st" "posix_ok os"
  shows "queue_bounded st \<and> f_max_queue_size st = (m * 1024 * 1024) mod 2 ^ 64"
  using assms
proof (induction rule: fifo_reaches.induct)
  case (start path dump_dir st)
  have "shrinks (fifo_init path dump_dir m) st"
  proof (cases "os_open os 0")
    case (OpenedFd fd)
    then show ?thesis using start
      by (auto simp: fifo_start_def open_cb_def fifo_init_def Let_def tick_def buffers_are_empty_def
          buffer_size_def buffer_new_def shrinks_def split: if_splits)
  qed (use start in \<open>auto simp: fifo_start_def open_cb_def fifo_init_def tick_def shrinks_def split: if_splits\<close>)
  moreover have "queue_bounded (fifo_init path dump_dir m)"
    by (simp add: queue_bounded_def fifo_init_def buffer_size_def buffer_new_def)
  ultimately show ?case using queue_bounded_shrinks by (auto simp: shrinks_def fifo_init_def)
next
  case (step st inp st')
  then show ?case using fifo_handle_bounded[of os st inp st'] fifo_reaches_inv by auto
qed

section \<open>Who submits\<close>

text \<open>
  Besides the data of its caller the writer only submits its own instructions to process a
  dump file, at most one per callback.
\<close>

lemma submitted_iff: "Submitted d \<in> set tr \<longleftrightarrow> d \<in> set (submitted tr)"
  by (induction tr rule: submitted.induct) auto

lemma fifo_write_submits:
  assumes "fifo_write os st data owned = Ret st'"
  shows "submitted (f_trace st') = submitted (f_trace st) @ [data]"
proof -
  obtain st1 where "dispatch_data os st1 = Ret st'" "submitted (f_trace st1) = submitted (f_trace st) @ [data]"
    using assms by (fastforce simp: fifo_write_def Let_def note_event_def split: if_splits)
  then show ?thesis using dispatch_data_shrinks[of os st1 st'] by (simp add: shrinks_def)
qed

definition own_submission :: "fifo_state \<Rightarrow> fifo_state \<Rightarrow> bool" where
  "own_submission st st' \<longleftrightarrow> submitted (f_trace st') = submitted (f_trace st) \<or>
     (\<exists>now file. submitted (f_trace st') = submitted (f_trace st) @ [process_file_command now file])"

lemma async_cb_submits:
  assumes "async_cb os st = Ret st'"
  shows "own_submission st st'"
proof -
  let ?off = "st\<lparr>f_async_active := False, f_aio_buf := None\<rparr>"
  let ?b = "the (f_aio_buf (st\<lparr>f_async_active := False\<rparr>))"
  from assms obtain st1 where
    a: "(case os_aio_result os (f_calls ?off) of
           AioError \<Rightarrow> Ret (note_event (Lost ?b) (tick ?off))
         | AioWrote n \<Rightarrow>
             if n \<noteq> length ?b then Ret (note_event (Lost ?b) (tick ?off))
             else (case close_dump_file os (tick ?off) of (ok, st2) \<Rightarrow>
               if ok then fifo_write os (note_event (Dumped (the (f_dump_file (tick ?off))) ?b) st2)
                            (make_process_file_command os (tick ?off)) True
               else Ret (note_event (Lost ?b) st2))) = Ret st1"
    and b: "(if buffers_exceed_pipe_size os st1 then dispatch_data os st1 else Ret st1) = Ret st'"
    by (auto simp only: async_cb_def Let_def obind_eq_Ret)
  have "own_submission st st1"
    using a by (auto simp: close_dump_file_def own_submission_def make_process_file_command_def ghost_defs
        dest!: fifo_write_submits split: aio_answer.splits if_splits) blast
  then show ?thesis using b dispatch_data_shrinks[of os st1 st']
    by (auto simp: own_submission_def shrinks_def split: if_splits)
qed

lemma sync_loop_trace: "sync_loop os st offset = Ret (ok, st') \<Longrightarrow> f_trace st' = f_trace st"
proof (induction os st offset rule: sync_loop.induct)
  case (1 os st offset)
  show ?case
  proof (cases "offset < f_output_size st")
    case True
    then show ?thesis
      using 1(2) 1(1)[OF True]
      by (subst (asm) sync_loop.simps) (auto simp: tick_def split: option.splits if_splits)
  qed (use 1(2) in \<open>simp add: sync_loop.simps\<close>)
qed

lemma sync_dump_submits:
  assumes "sync_dump_data os st = Ret st'"
  shows "own_submission st st'"
proof -
  from assms obtain st1 where j: "join_buffers st = Ret st1" by (auto simp: sync_dump_data_def obind_eq_Ret)
  obtain ok st2 where o: "open_dump_file os st1 = (ok, st2)" by force
  have "own_submission st2 st'"
  proof (cases ok)
    case False
    then show ?thesis using assms j o by (auto simp: sync_dump_data_def own_submission_def ghost_defs)
  next
    case True
    from assms j o True obtain written st3 where l: "sync_loop os st2 0 = Ret (written, st3)"
      by (auto simp: sync_dump_data_def obind_eq_Ret)
    show ?thesis
    proof (cases "written \<and> os_close os (f_calls (free_output st3))")
      case T: True
      let ?st = "note_event (Dumped (the (f_dump_file (free_output st3))) (out_bytes st3))
        ((tick (free_output st3))\<lparr>f_dump_file := None\<rparr>)"
      have "fifo_write os ?st (make_process_file_command os (free_output st3)) True = Ret st'"
        using assms j o True l T by (simp add: sync_dump_data_def Let_def close_dump_file_def)
      from fifo_write_submits[OF this] sync_loop_trace[OF l] show ?thesis
        by (simp add: own_submission_def make_process_file_command_def ghost_defs) blast
    next
      case F: False
      then show ?thesis using assms j o True l sync_loop_trace[OF l]
        by (cases written)
          (auto simp: sync_dump_data_def Let_def close_dump_file_def own_submission_def ghost_defs)
    qed
  qed
  then show ?thesis using join_buffers_shrinks[OF j] dump_shrinks(1)[of st1 os] o
    by (simp add: own_submission_def shrinks_def)
qed

lemma fifo_handle_submits:
  assumes "fifo_handle os inp st = Ret st'" "\<forall>data owned. inp \<noteq> Submit data owned"
  shows "own_submission st st'"
proof (cases inp)
  case OpenTimer
  have "shrinks (st\<lparr>f_open_active := False\<rparr>) st'"
    using assms(1) OpenTimer
    by (auto simp: open_cb_def Let_def obind_eq_Ret tick_def shrinks_def
        dest!: dispatch_data_shrinks split: if_splits open_answer.splits)
  then show ?thesis by (simp add: own_submission_def shrinks_def)
next
  case PipeReady
  then show ?thesis using assms(1) write_cb_shrinks by (auto simp: own_submission_def shrinks_def)
next
  case AioDone
  then show ?thesis using assms(1) async_cb_submits by simp
next
  case Idle
  then have "own_submission (st\<lparr>f_idle_active := False\<rparr>) st' \<or>
    own_submission (st\<lparr>f_idle_active := False, f_timeout_active := False\<rparr>) st'"
    using assms(1) sync_dump_submits by (fastforce simp: idle_cb_def Let_def split: if_splits)
  then show ?thesis by (simp add: own_submission_def)
next
  case IdleTimeout
  then have "own_submission (st\<lparr>f_timeout_active := False, f_idle_active := False\<rparr>) st'"
    using assms(1) sync_dump_submits by (fastforce simp: timeout_cb_def idle_cb_def Let_def)
  then show ?thesis by (simp add: own_submission_def)
qed (use assms in simp)

lemma fifo_start_submits:
  assumes "fifo_start os path dir m = Ret st"
  shows "submitted (f_trace st) = []"
  using assms
  by (auto simp: fifo_start_def open_cb_def fifo_init_def Let_def tick_def buffers_are_empty_def
      buffer_size_def buffer_new_def split: if_splits open_answer.splits)

lemma submissions_nonempty:
  assumes "fifo_reaches os max_mb st"
  shows "[] \<notin> set (submitted (f_trace st))"
  using assms
proof induction
  case (start path dump_dir st)
  then show ?case using fifo_start_submits by fastforce
next
  case (step st inp st')
  show ?case
  proof (cases "\<exists>data owned. inp = Submit data owned")
    case True
    then show ?thesis using step by (auto dest!: fifo_write_submits)
  next
    case False
    then have "own_submission st st'" using fifo_handle_submits[OF step.hyps(3)] by blast
    then show ?thesis using step.IH process_file_command_nonempty[THEN not_sym] by (auto simp: own_submission_def)
  qed
qed

text \<open>What a writer that is stopped leaves: the queue and the output are lost.\<close>

lemma fifo_stop_trace:
  "f_trace (fifo_stop st) =
     f_trace st @ Lost (buffer_bytes (f_output_buffer st)) # (if f_output st = None then [] else [Lost (out_bytes st)])"
  "f_aio_buf (fifo_stop st) = f_aio_buf st"
  by (cases "f_output st"; simp add: fifo_stop_def note_event_def lose_output_def free_output_def Let_def out_bytes_def)+

lemma fifo_stop_rests:
  "\<not> f_async_active (fifo_stop st) \<and> \<not> f_idle_active (fifo_stop st) \<and> \<not> f_timeout_active (fifo_stop st) \<and>
   \<not> f_open_active (fifo_stop st) \<and> \<not> f_write_active (fifo_stop st) \<and> f_fd (fifo_stop st) = - 1"
  by (simp add: fifo_stop_def note_event_def lose_output_def free_output_def Let_def)

lemma fifo_stop_flows:
  assumes "fifo_reaches os max_mb st" "posix_ok os"
  shows "flows (f_trace (fifo_stop st)) [] [] (f_aio_buf (fifo_stop st))"
proof -
  let ?tr = "f_trace st @ [Lost (buffer_bytes (f_output_buffer st))]"
  have "flows (f_trace st) (out_bytes st) (buffer_bytes (f_output_buffer st)) (f_aio_buf st)"
    using fifo_reaches_inv[OF assms] by (simp add: fifo_inv_def data_ok_def)
  then have f: "flows ?tr (out_bytes st) [] (f_aio_buf st)" by (rule flows_settle_queue)
  have "f_output st = None \<Longrightarrow> out_bytes st = []" by (simp add: out_bytes_def)
  then show ?thesis using f flows_settle_out(2)[OF f] unfolding fifo_stop_trace by (cases "f_output st") simp_all
qed

lemma fifo_stop_accounts:
  assumes "fifo_reaches os max_mb st" "posix_ok os"
  shows "\<exists>cmds aio. settled (f_trace (fifo_stop st)) = map concat cmds \<and>
    aio_bytes (f_aio_buf (fifo_stop st)) = concat aio \<and>
    mset (submitted (f_trace (fifo_stop st))) = mset (concat cmds) + mset aio"
proof -
  from fifo_stop_flows[OF assms] obtain evs outs qs as where f:
    "settled (f_trace (fifo_stop st)) = map concat evs" "[] = concat outs" "[] = concat qs"
    "aio_bytes (f_aio_buf (fifo_stop st)) = concat as"
    "mset (submitted (f_trace (fifo_stop st))) = mset (concat evs) + mset outs + mset qs + mset as"
    by (rule flowsE)
  have "submitted (f_trace (fifo_stop st)) = submitted (f_trace st)" by (simp add: fifo_stop_trace)
  then have n: "[] \<notin> set (submitted (f_trace (fifo_stop st)))" using submissions_nonempty[OF assms(1)] by simp
  have "set outs \<union> set qs \<subseteq> set (submitted (f_trace (fifo_stop st)))"
    using arg_cong[OF f(5), of set_mset] by auto
  then have "[] \<notin> set outs" "[] \<notin> set qs" using n by auto
  moreover have "set outs \<subseteq> {[]}" "set qs \<subseteq> {[]}" using f(2,3) by (auto simp: concat_eq_Nil_conv dest: sym)
  ultimately have "outs = []" "qs = []" by (metis list.set_intros(1) neq_Nil_conv singletonD subsetD)+
  then show ?thesis using f by auto
qed

section \<open>Properties of the writer\<close>

lemma piped_settled: "Piped b \<in> set tr \<Longrightarrow> b \<in> set (settled tr)"
  by (induction tr rule: settled.induct) auto

lemma flows_settled_whole:
  assumes "flows tr out q a" "b \<in> set (settled tr)"
  shows "\<exists>cs. b = concat cs \<and> set cs \<subseteq> set (submitted tr)"
proof -
  from assms(1) obtain evs outs qs as where
    e: "settled tr = map concat evs" and m: "mset (submitted tr) = mset (concat evs) + mset outs + mset qs + mset as"
    unfolding flows_def by blast
  from e assms(2) obtain cs where cs: "b = concat cs" "cs \<in> set evs" by auto
  from m have "set (submitted tr) = set (concat evs) \<union> set outs \<union> set qs \<union> set as"
    by (metis set_mset_mset set_mset_union)
  with cs show ?thesis by auto
qed

text \<open>A writer with an open pipe to which one command was submitted.\<close>

definition sample_os :: fifo_os where
  "sample_os = \<lparr>use_aio = True, pipe_buf = 4096, os_sigaction = (\<lambda>_. True), os_open = (\<lambda>_. OpenedFd 5),
     os_write = (\<lambda>_ n. Wrote n), os_mkstemp = (\<lambda>_ t. None), os_file_write = (\<lambda>_ n. Some n),
     os_aio_write = (\<lambda>_. True), os_aio_result = (\<lambda>_. AioError), os_close = (\<lambda>_. True), os_time = (\<lambda>_. 0)\<rparr>"

lemma sample_os_ok: "posix_ok sample_os"
  by (simp add: posix_ok_def sample_os_def)

definition sample_fifo :: fifo_state where
  "sample_fifo = (fifo_init ''/run/nagios.cmd'' ''/tmp'' 1)\<lparr>f_calls := 2, f_fd := 5,
     f_trace := [Submitted (''[1] X'' @ [LF]), Piped (''[1] X'' @ [LF])]\<rparr>"

definition sample_idle_fifo :: fifo_state where
  "sample_idle_fifo = (fifo_init ''/run/nagios.cmd'' ''/tmp'' 1)\<lparr>f_calls := 1, f_fd := 5\<rparr>"

lemma sample_idle_start: "fifo_start sample_os ''/run/nagios.cmd'' ''/tmp'' 1 = Ret sample_idle_fifo"
  by (simp add: fifo_start_def sample_os_def sample_idle_fifo_def open_cb_def fifo_init_def tick_def
      buffers_are_empty_def buffer_size_def buffer_new_def)

lemma sample_fifo_reached: "fifo_reaches sample_os 1 sample_fifo"
proof -
  have r: "fifo_reaches sample_os 1 sample_idle_fifo" by (rule fifo_reaches.start[OF sample_idle_start])
  have "fifo_handle sample_os (Submit (''[1] X'' @ [LF]) True) sample_idle_fifo = Ret sample_fifo"
    by (simp add: fifo_write_def sample_os_def sample_idle_fifo_def sample_fifo_def fifo_init_def buffers_are_empty_def buffer_size_def
        buffer_new_def dispatch_data_def buffers_exceed_pipe_size_def note_event_def write_cb.simps
        slurp_output_def write_done_def free_output_def tick_def out_bytes_def)
  then show ?thesis by (rule fifo_reaches.step [OF r, rotated]) simp
qed

text \<open>
  Property C12. Whatever the system answers, the writer never fails (no assertion of the
  buffer, no endless loop) on data from the server or on a callback of an active watcher, and
  never forgets data: whenever something is queued, the retry timer runs if the pipe is
  closed, a dump is pending if more than \<open>PIPE_BUF\<close> is queued, and else the pipe is watched.
\<close>

theorem fifo_never_stuck:
  assumes "fifo_reaches os max_mb st" "posix_ok os"
  shows "watchers_ok os st \<and> attended os st \<and>
    (enabled os inp st \<longrightarrow> (\<exists>st'. fifo_handle os inp st = Ret st'))"
  using fifo_reaches_inv[OF assms] fifo_handle_ok[OF assms(2)] by (auto simp: fifo_inv_def)

lemma fifo_never_stuck_witness:
  "watchers_ok sample_os sample_fifo \<and> attended sample_os sample_fifo \<and>
   (\<exists>st'. fifo_handle sample_os (Submit ''x'' True) sample_fifo = Ret st')"
  using fifo_never_stuck[OF sample_fifo_reached sample_os_ok, of "Submit ''x'' True"] by simp

lemma pipe_writes_whole:
  assumes "fifo_reaches os max_mb st" "posix_ok os" "Piped b \<in> set (f_trace st)"
  shows "length b \<le> pipe_buf os \<and> (\<exists>cs. b = concat cs \<and> set cs \<subseteq> set (submitted (f_trace st)))"
  using fifo_reaches_inv[OF assms(1,2)] assms(3) piped_settled[OF assms(3)] flows_settled_whole
  by (fastforce simp: fifo_inv_def data_ok_def)

text \<open>
  Property C22. Every write to the command pipe is at most \<open>PIPE_BUF\<close> bytes, so it is atomic,
  and consists of whole submissions: no command is torn apart between two writes.
\<close>

theorem fifo_pipe_writes:
  assumes "fifo_reaches os max_mb st" "posix_ok os" "Piped b \<in> set (f_trace st)"
  shows "length b \<le> pipe_buf os \<and> (\<exists>cs. b = concat cs \<and> set cs \<subseteq> set (submitted (f_trace st)))"
  using assms by (rule pipe_writes_whole)

lemma fifo_pipe_writes_witness:
  "length (''[1] X'' @ [LF]) \<le> pipe_buf sample_os \<and>
   (\<exists>cs. ''[1] X'' @ [LF] = concat cs \<and> set cs \<subseteq> {''[1] X'' @ [LF]})"
  using fifo_pipe_writes[OF sample_fifo_reached sample_os_ok, of "''[1] X'' @ [LF]"]
  by (simp add: sample_fifo_def)

text \<open>
  Property C9. Every submitted command is accounted for exactly once: written to the pipe,
  written to a dump file, reported as lost, or still in the output, the queue or the pending
  asynchronous write; and as long as nothing was dumped or lost, in the order of submission.
\<close>

theorem fifo_accounts:
  assumes "fifo_reaches os max_mb st" "posix_ok os"
  shows "\<exists>evs outs qs as.
    settled (f_trace st) = map concat evs \<and> out_bytes st = concat outs \<and>
    buffer_bytes (f_output_buffer st) = concat qs \<and> aio_bytes (f_aio_buf st) = concat as \<and>
    mset (submitted (f_trace st)) = mset (concat evs) + mset outs + mset qs + mset as \<and>
    (list_all is_plain (f_trace st) \<and> as = [] \<longrightarrow> submitted (f_trace st) = concat evs @ outs @ qs)"
  using fifo_reaches_inv[OF assms] by (simp add: fifo_inv_def data_ok_def flows_def)

lemma fifo_accounts_witness:
  "\<exists>evs outs qs as. settled (f_trace sample_fifo) = map concat evs \<and> out_bytes sample_fifo = concat outs \<and>
    buffer_bytes (f_output_buffer sample_fifo) = concat qs \<and>
    mset (submitted (f_trace sample_fifo)) = mset (concat evs) + mset outs + mset qs + mset as"
  using fifo_accounts[OF sample_fifo_reached sample_os_ok] by blast

text \<open>
  The queue is bounded by \<open>max_queue_size\<close> megabytes (taken modulo 2^64 bytes; 0
  means no bound), unless a single submission is larger.
\<close>

theorem fifo_queue_bound:
  assumes "fifo_reaches os max_mb st" "posix_ok os" "0 < (max_mb * 1024 * 1024) mod 2 ^ 64"
  shows "buffer_size (f_output_buffer st) \<le> (max_mb * 1024 * 1024) mod 2 ^ 64 \<or>
    (\<exists>d. Submitted d \<in> set (f_trace st) \<and> buffer_size (f_output_buffer st) = length d)"
  using fifo_reaches_bounded[OF assms(1,2)] assms(3) unfolding queue_bounded_def by metis

lemma fifo_queue_bound_witness:
  "buffer_size (f_output_buffer sample_fifo) \<le> 1048576 \<or> buffer_size (f_output_buffer sample_fifo) = 6"
  using fifo_queue_bound[OF sample_fifo_reached sample_os_ok] by (auto simp: sample_fifo_def)

end
