(* ===== verification/Process.thy ===== *)
theory Process
  imports Getopt Log Pidfile ServerConf Fifo
begin

text \<open>
  The process around the server, from \<open>src/server/nsca-ng.c\<close>: what it holds (the configuration,
  the PID file, its credentials, the functions registered with \<open>atexit\<close>), how it ends, how it
  gives up its privileges, and its options. A step of the process goes on with a value, ends
  the process (after the exit functions, the last registered first), replaces it by a new
  image, or is a fault: a use of memory that was freed. What it asks of the system is noted
  with the user ID it has at that time.
\<close>

section \<open>The process\<close>

unbundle bit_operations_syntax

text \<open>
  The configuration is a heap object; when it is freed, what its memory holds is kept. The
  writer is what the server leaves of it when it has been stopped.
\<close>

datatype 're cfg_object = NoCfg | Cfg "'re config" | FreedCfg "'re config"

datatype exit_function = LogClose | ForgetConfig | RemovePidfile | StopKeepAlive

datatype action =
    CloseDescriptors | ReadConfig string
  | InitGroups string | Chroot string | ChdirRoot | SetGid nat | SetUid nat
  | AccessTemp string | OpenPidfile string | StartServer string | Daemonize | WritePid | Notify string
  | StopServer | CloseLog | Exec

record 're process =
  pr_uid :: nat
  pr_gid :: nat
  pr_groups :: "string option"
  pr_root :: "string option"
  pr_log :: log_state
  pr_cfg :: "'re cfg_object"
  pr_pid_file :: "string option"
  pr_pfh :: handle
  pr_pid :: pid_state
  pr_writer :: "fifo_state option"
  pr_keep_alive :: bool
  pr_signals :: bool
  pr_restart :: bool
  pr_atexit :: "exit_function list"
  pr_trace :: "(nat \<times> action) list"

datatype ('a, 'p) result =
    Fault string
  | Exited int 'p
  | Execed 'p
  | Waiting 'p
  | Ran 'a 'p

type_synonym ('a, 're) step = "'re process \<Rightarrow> ('a, 're process) result"

definition pbind :: "('a, 're) step \<Rightarrow> ('a \<Rightarrow> ('b, 're) step) \<Rightarrow> ('b, 're) step" where
  "pbind m f p =
     (case m p of
        Fault e \<Rightarrow> Fault e
      | Exited s q \<Rightarrow> Exited s q
      | Execed q \<Rightarrow> Execed q
      | Waiting q \<Rightarrow> Waiting q
      | Ran a q \<Rightarrow> f a q)"

definition preturn :: "'a \<Rightarrow> ('a, 're) step" where
  "preturn a p = Ran a p"

definition modify :: "('re process \<Rightarrow> 're process) \<Rightarrow> (unit, 're) step" where
  "modify f p = Ran () (f p)"

definition perform :: "action \<Rightarrow> (unit, 're) step" where
  "perform a = modify (\<lambda>p. p\<lparr>pr_trace := pr_trace p @ [(pr_uid p, a)]\<rparr>)"

section \<open>The exit functions\<close>

text \<open>The first value of the password is overwritten; the section can have one only.\<close>

definition wipe_section :: "'re auth_section \<Rightarrow> 're auth_section" where
  "wipe_section auth =
     auth\<lparr>a_password :=
       (case a_password auth of [] \<Rightarrow> [] | password # rest \<Rightarrow> replicate (length password) NUL # rest)\<rparr>"

definition forget_config :: "'re process \<Rightarrow> 're process outcome" where
  "forget_config p =
     (case pr_cfg p of
        NoCfg \<Rightarrow> Ret p
      | Cfg cfg \<Rightarrow> Ret (p\<lparr>pr_cfg := FreedCfg (cfg\<lparr>c_authorize := map wipe_section (c_authorize cfg)\<rparr>)\<rparr>)
      | FreedCfg cfg \<Rightarrow> Die ''use of a freed configuration'')"

text \<open>\<open>pid_file\<close> points into the configuration; it is printed when the file cannot be removed.\<close>

definition remove_pidfile :: "pid_os \<Rightarrow> 're process \<Rightarrow> 're process outcome" where
  "remove_pidfile os p =
     (if pr_pid_file p = None then Ret p
      else
        obind (pidfile_remove os (pr_pfh p) (pr_pid p)) (\<lambda>(err, h, st).
          let p = p\<lparr>pr_pfh := h, pr_pid := st\<rparr> in
          if err = None then Ret p
          else case pr_cfg p of
            FreedCfg cfg \<Rightarrow> Die ''use of a freed string''
          | _ \<Rightarrow> Ret (p\<lparr>pr_pid_file := None\<rparr>)))"

definition stop_keep_alive :: "'re process \<Rightarrow> 're process" where
  "stop_keep_alive p = (if pr_keep_alive p then p\<lparr>pr_keep_alive := False\<rparr> else p)"

fun run_exit_function :: "pid_os \<Rightarrow> exit_function \<Rightarrow> 're process \<Rightarrow> 're process outcome" where
  "run_exit_function os LogClose p = Ret (p\<lparr>pr_trace := pr_trace p @ [(pr_uid p, CloseLog)]\<rparr>)"
| "run_exit_function os ForgetConfig p = forget_config p"
| "run_exit_function os RemovePidfile p = remove_pidfile os p"
| "run_exit_function os StopKeepAlive p = Ret (stop_keep_alive p)"

fun run_exit_functions :: "pid_os \<Rightarrow> exit_function list \<Rightarrow> 're process \<Rightarrow> 're process outcome" where
  "run_exit_functions os [] p = Ret p"
| "run_exit_functions os (f # fs) p = obind (run_exit_function os f p) (run_exit_functions os fs)"

definition exit_with :: "pid_os \<Rightarrow> int \<Rightarrow> ('a, 're) step" where
  "exit_with os status p =
     (case run_exit_functions os (pr_atexit p) p of Die e \<Rightarrow> Fault e | Ret q \<Rightarrow> Exited status q)"

text \<open>\<open>die\<close>: the message is logged, then the process exits.\<close>

definition die :: "pid_os \<Rightarrow> ('a, 're) step" where
  "die os = exit_with os EXIT_FAILURE"

definition check :: "pid_os \<Rightarrow> bool \<Rightarrow> (unit, 're) step" where
  "check os b = (if b then preturn () else die os)"

text \<open>
  The components that are run this way, the options, the configuration and the start of the
  server, fail by \<open>die\<close> or \<open>exit(EXIT_FAILURE)\<close> only.
\<close>

definition component :: "pid_os \<Rightarrow> 'a outcome \<Rightarrow> ('a, 're) step" where
  "component os r = (case r of Die e \<Rightarrow> die os | Ret a \<Rightarrow> preturn a)"

definition register :: "pid_os \<Rightarrow> (exit_function \<Rightarrow> bool) \<Rightarrow> exit_function \<Rightarrow> (unit, 're) step" where
  "register os atexit f p =
     (if atexit f then Ran () (p\<lparr>pr_atexit := f # pr_atexit p\<rparr>) else die os p)"

text \<open>The configuration that is in use.\<close>

definition get_cfg :: "('re config, 're) step" where
  "get_cfg p = (case pr_cfg p of Cfg cfg \<Rightarrow> Ran cfg p | _ \<Rightarrow> Fault ''no configuration'')"

definition change_cfg :: "('re config \<Rightarrow> 're config) \<Rightarrow> (unit, 're) step" where
  "change_cfg f p = (case pr_cfg p of Cfg cfg \<Rightarrow> Ran () (p\<lparr>pr_cfg := Cfg (f cfg)\<rparr>) | _ \<Rightarrow> Fault ''no configuration'')"

section \<open>Privileges\<close>

text \<open>The value of an option that may be unset.\<close>

definition first :: "string list \<Rightarrow> string option" where
  "first vs = (case vs of [] \<Rightarrow> None | v # _ \<Rightarrow> Some v)"

text \<open>
  The system's answers depend on the user ID of the process. \<open>getpwnam\<close> gives the user and
  the group ID of a name.
\<close>

record user_os =
  uo_getpwnam :: "string \<Rightarrow> (nat \<times> nat) option"
  uo_initgroups :: "nat \<Rightarrow> string \<Rightarrow> bool"
  uo_chroot :: "nat \<Rightarrow> string \<Rightarrow> bool"
  uo_chdir :: "nat \<Rightarrow> bool"
  uo_setgid :: "nat \<Rightarrow> nat \<Rightarrow> bool"
  uo_setuid :: "nat \<Rightarrow> nat \<Rightarrow> bool"

definition with_uid :: "(nat \<Rightarrow> ('a, 're) step) \<Rightarrow> ('a, 're) step" where
  "with_uid f p = f (pr_uid p) p"

definition sys_initgroups :: "pid_os \<Rightarrow> user_os \<Rightarrow> string \<Rightarrow> (unit, 're) step" where
  "sys_initgroups os us user = with_uid (\<lambda>uid.
     pbind (perform (InitGroups user)) (\<lambda>_.
     pbind (check os (uo_initgroups us uid user)) (\<lambda>_.
     modify (\<lambda>p. p\<lparr>pr_groups := Some user\<rparr>))))"

definition sys_chroot :: "pid_os \<Rightarrow> user_os \<Rightarrow> string \<Rightarrow> (unit, 're) step" where
  "sys_chroot os us new_root = with_uid (\<lambda>uid.
     pbind (perform (Chroot new_root)) (\<lambda>_.
     pbind (check os (uo_chroot us uid new_root)) (\<lambda>_.
     pbind (modify (\<lambda>p. p\<lparr>pr_root := Some new_root\<rparr>)) (\<lambda>_.
     pbind (perform ChdirRoot) (\<lambda>_.
     check os (uo_chdir us uid))))))"

definition sys_setgid :: "pid_os \<Rightarrow> user_os \<Rightarrow> nat \<Rightarrow> (unit, 're) step" where
  "sys_setgid os us gid = with_uid (\<lambda>uid.
     pbind (perform (SetGid gid)) (\<lambda>_.
     pbind (check os (uo_setgid us uid gid)) (\<lambda>_.
     modify (\<lambda>p. p\<lparr>pr_gid := gid\<rparr>))))"

definition sys_setuid :: "pid_os \<Rightarrow> user_os \<Rightarrow> nat \<Rightarrow> (unit, 're) step" where
  "sys_setuid os us new_uid = with_uid (\<lambda>uid.
     pbind (perform (SetUid new_uid)) (\<lambda>_.
     pbind (check os (uo_setuid us uid new_uid)) (\<lambda>_.
     modify (\<lambda>p. p\<lparr>pr_uid := new_uid\<rparr>))))"

definition drop_privileges :: "pid_os \<Rightarrow> user_os \<Rightarrow> string option \<Rightarrow> string option \<Rightarrow> (unit, 're) step" where
  "drop_privileges os us user new_root =
     pbind
       (case user of
          None \<Rightarrow> preturn None
        | Some name \<Rightarrow>
            (case uo_getpwnam us name of
               None \<Rightarrow> die os
             | Some pw \<Rightarrow> pbind (sys_initgroups os us name) (\<lambda>_. preturn (Some pw)))) (\<lambda>pw.
     pbind (case new_root of None \<Rightarrow> preturn () | Some r \<Rightarrow> sys_chroot os us r) (\<lambda>_.
     (case pw of
        None \<Rightarrow> preturn ()
      | Some (uid, gid) \<Rightarrow> pbind (sys_setgid os us gid) (\<lambda>_. sys_setuid os us uid))))"

section \<open>Options\<close>

record server_options =
  so_bind :: "string option"
  so_conf_file :: "string option"
  so_command_file :: "string option"
  so_pid_file :: "string option"
  so_log_level :: int
  so_log_target :: int
  so_foreground :: bool

definition server_no_options :: server_options where
  "server_no_options =
     \<lparr>so_bind = None, so_conf_file = None, so_command_file = None, so_pid_file = None,
      so_log_level = - 1, so_log_target = - 1, so_foreground = False\<rparr>"

definition server_option :: "server_options option_step" where
  "server_option c arg opt =
     (if c = CHR ''b'' then Ret (Inr (opt\<lparr>so_bind := arg\<rparr>))
      else if c = CHR ''C'' then Ret (Inr (opt\<lparr>so_command_file := arg\<rparr>))
      else if c = CHR ''c'' then Ret (Inr (opt\<lparr>so_conf_file := arg\<rparr>))
      else if c = CHR ''F'' then Ret (Inr (opt\<lparr>so_foreground := True\<rparr>))
      else if c = CHR ''h'' then Ret (Inl EXIT_SUCCESS)
      else if c = CHR ''l'' then Ret (Inr (opt\<lparr>so_log_level := atoi (the arg)\<rparr>))
      else if c = CHR ''P'' then Ret (Inr (opt\<lparr>so_pid_file := arg\<rparr>))
      else if c = CHR ''S'' then Ret (Inr (opt\<lparr>so_log_target := LOG_TARGET_SYSLOG OR LOG_TARGET_STDERR\<rparr>))
      else if c = CHR ''s'' then
        Ret (Inr (opt\<lparr>so_log_target :=
          (if so_log_target opt \<noteq> - 1 then LOG_TARGET_SYSLOG OR so_log_target opt else LOG_TARGET_SYSLOG)\<rparr>))
      else if c = CHR ''V'' then Ret (Inl EXIT_SUCCESS)
      else Ret (Inl EXIT_FAILURE))"

definition SERVER_OPTSTRING :: string where "SERVER_OPTSTRING = ''b:C:c:Fhl:P:SsV''"

definition server_get_options :: "string list \<Rightarrow> (int + server_options) outcome" where
  "server_get_options args =
     (if args = [''--help''] \<or> args = [''--version''] then Ret (Inl EXIT_SUCCESS)
      else
        obind (option_loop server_option SERVER_OPTSTRING [] args server_no_options) (\<lambda>r.
          case r of
            Inl status \<Rightarrow> Ret (Inl status)
          | Inr (opt, operands) \<Rightarrow>
              if operands \<noteq> [] then Die ''Unexpected non-option argument'' else Ret (Inr opt)))"

end
