(* ===== verification/ProcessSafety.thy ===== *)
theory ProcessSafety
  imports Process
begin

text \<open>
  Reasoning about the steps of a process: a step is safe if it is no fault, and leaves a clean
  process (no configuration in memory, its passwords overwritten) when it ends or replaces
  the process. A process that goes on holds its resources in such a way that the exit
  functions can release them: they are registered in an order, and what they release has not
  been released yet.
\<close>

section \<open>Exits\<close>

fun exit_rank :: "exit_function \<Rightarrow> nat" where
  "exit_rank LogClose = 0"
| "exit_rank ForgetConfig = 1"
| "exit_rank RemovePidfile = 2"
| "exit_rank StopKeepAlive = 3"

abbreviation exit_order :: "exit_function list \<Rightarrow> bool" where
  "exit_order fs \<equiv> sorted_wrt (\<lambda>f g. exit_rank g < exit_rank f) fs"

definition wiped :: "'re config \<Rightarrow> bool" where
  "wiped cfg \<longleftrightarrow> (\<forall>a \<in> set (c_authorize cfg). \<forall>s. first (a_password a) = Some s \<longrightarrow> set s \<subseteq> {NUL})"

definition clean :: "'re process \<Rightarrow> bool" where
  "clean p \<longleftrightarrow> (case pr_cfg p of NoCfg \<Rightarrow> True | Cfg cfg \<Rightarrow> False | FreedCfg cfg \<Rightarrow> wiped cfg)"

definition exits_ready :: "exit_function list \<Rightarrow> 're process \<Rightarrow> bool" where
  "exits_ready fs p \<longleftrightarrow> exit_order fs \<and>
     (case pr_cfg p of NoCfg \<Rightarrow> True | Cfg cfg \<Rightarrow> ForgetConfig \<in> set fs
      | FreedCfg cfg \<Rightarrow> ForgetConfig \<notin> set fs \<and> RemovePidfile \<notin> set fs \<and> wiped cfg) \<and>
     (pr_pfh p = FreedHandle \<longrightarrow> RemovePidfile \<notin> set fs)"

lemma wiped_section: "wiped (cfg\<lparr>c_authorize := map wipe_section (c_authorize cfg)\<rparr>)"
  by (auto simp: wiped_def wipe_section_def first_def split: list.splits)

lemma verify_no_fault: "h \<noteq> FreedHandle \<Longrightarrow> \<exists>v st1. pidfile_verify os h st = Ret (v, st1)"
  by (cases h) (auto simp: pidfile_verify_def split: sum.split)

lemma remove_with_no_fault:
  assumes "h \<noteq> FreedHandle"
  shows "\<exists>err h' st'. pidfile_remove_with freeit os h st = Ret (err, h', st') \<and> (\<not> freeit \<longrightarrow> h' \<noteq> FreedHandle)"
proof -
  obtain v st1 where v: "pidfile_verify os h st = Ret (v, st1)" using verify_no_fault[OF assms] by blast
  show ?thesis using verify_result(4)[OF v] assms
    by (cases v) (auto simp: pidfile_remove_with_def v split_beta)
qed

lemma write_no_fault:
  assumes "h \<noteq> FreedHandle"
  shows "\<exists>err h' st'. pidfile_write os h st = Ret (err, h', st') \<and> h' \<noteq> FreedHandle"
proof -
  obtain v st1 where v: "pidfile_verify os h st = Ret (v, st1)" using verify_no_fault[OF assms] by blast
  have r: "\<exists>err h' st'. obind (pidfile_remove_with False os h st2) (\<lambda>(_, h, st). Ret (Some e, h, st)) = Ret (err, h', st') \<and>
      h' \<noteq> FreedHandle" for st2 and e :: errno
    using remove_with_no_fault[OF assms, of False os st2] by auto
  have w: "\<exists>err h' st'. (case sys_pwrite os bs st2 of
       (Some e, st) \<Rightarrow> obind (pidfile_remove_with False os h st) (\<lambda>(_, h, st). Ret (Some e, h, st))
     | (None, st) \<Rightarrow> Ret (None, h, st)) = Ret (err, h', st') \<and> h' \<noteq> FreedHandle" for bs st2
    using r assms by (auto split: prod.split option.split)
  show ?thesis
  proof (cases v)
    case None
    then show ?thesis using r w by (auto simp: pidfile_write_def v Let_def split: prod.split option.split)
  qed (use assms in \<open>simp add: pidfile_write_def v\<close>)
qed

lemma run_exit_functions_ok:
  "exits_ready fs p \<Longrightarrow> \<exists>q. run_exit_functions os fs p = Ret q \<and> clean q"
proof (induction fs arbitrary: p)
  case Nil
  then show ?case by (auto simp: exits_ready_def clean_def split: cfg_object.splits)
next
  case (Cons f fs)
  have n: "f \<notin> set fs" "\<forall>g \<in> set fs. exit_rank g < exit_rank f" using Cons.prems by (auto simp: exits_ready_def)
  have "\<exists>q. run_exit_function os f p = Ret q \<and> exits_ready fs q"
  proof (cases f)
    case RemovePidfile
    then obtain err h st where r: "pidfile_remove os (pr_pfh p) (pr_pid p) = Ret (err, h, st)"
      using Cons.prems remove_with_no_fault[of "pr_pfh p" True os "pr_pid p"] by (auto simp: exits_ready_def pidfile_remove_def)
    show ?thesis using Cons.prems RemovePidfile n(1)
      by (auto simp: remove_pidfile_def r exits_ready_def Let_def split: cfg_object.splits)
  next
    case ForgetConfig
    have "RemovePidfile \<notin> set fs" using n(2) ForgetConfig by auto
    then show ?thesis using Cons.prems ForgetConfig n(1) wiped_section
      by (auto simp: forget_config_def exits_ready_def split: cfg_object.splits)
  qed (use Cons.prems in \<open>auto simp: exits_ready_def stop_keep_alive_def split: cfg_object.splits\<close>)
  then show ?case using Cons.IH by auto
qed

section \<open>Steps\<close>

text \<open>A step from a state of \<open>P\<close> is no fault, ends or replaces a clean process, or goes on in \<open>Q\<close>.\<close>

definition ends_well :: "('a \<Rightarrow> 're process \<Rightarrow> bool) \<Rightarrow> ('a, 're process) result \<Rightarrow> bool" where
  "ends_well Q r \<longleftrightarrow>
     (case r of Fault e \<Rightarrow> False | Exited s q \<Rightarrow> clean q | Execed q \<Rightarrow> clean q | Waiting q \<Rightarrow> True | Ran a q \<Rightarrow> Q a q)"

definition safe :: "('re process \<Rightarrow> bool) \<Rightarrow> ('a, 're) step \<Rightarrow> ('a \<Rightarrow> 're process \<Rightarrow> bool) \<Rightarrow> bool" where
  "safe P m Q \<longleftrightarrow> (\<forall>p. P p \<longrightarrow> ends_well Q (m p))"

lemma ends_well_simps [simp]:
  "ends_well Q (Ran a q) = Q a q" "\<not> ends_well Q (Fault e)" "ends_well Q (Exited s q) = clean q"
  "ends_well Q (Execed q) = clean q" "ends_well Q (Waiting q)"
  by (simp_all add: ends_well_def)

lemma safeD: "safe P m Q \<Longrightarrow> P p \<Longrightarrow> ends_well Q (m p)"
  by (simp add: safe_def)

definition holding :: "nat \<Rightarrow> 're process \<Rightarrow> bool" where
  "holding n p \<longleftrightarrow> exits_ready (pr_atexit p) p \<and> (\<forall>f \<in> set (pr_atexit p). exit_rank f < n) \<and>
     (\<forall>cfg. pr_cfg p \<noteq> FreedCfg cfg) \<and> pr_pfh p \<noteq> FreedHandle"

lemma safe_bind:
  assumes "safe P m R" "\<And>a. safe (R a) (f a) Q"
  shows "safe P (pbind m f) Q"
  unfolding safe_def
proof (intro allI impI)
  fix p assume "P p"
  from safeD[OF assms(1) this] show "ends_well Q (pbind m f p)"
    using safeD[OF assms(2)] by (cases "m p") (simp_all add: pbind_def)
qed

lemma safe_conseq:
  assumes "safe P m Q" "\<And>p. P' p \<Longrightarrow> P p" "\<And>a p. Q a p \<Longrightarrow> Q' a p"
  shows "safe P' m Q'"
  unfolding safe_def
proof (intro allI impI)
  fix p assume "P' p"
  from safeD[OF assms(1) assms(2)[OF this]] show "ends_well Q' (m p)"
    using assms(3) by (cases "m p") simp_all
qed

lemma safe_return: "(\<And>p. P p \<Longrightarrow> Q a p) \<Longrightarrow> safe P (preturn a) Q"
  by (simp add: safe_def preturn_def)

lemma safe_modify: "(\<And>p. P p \<Longrightarrow> Q () (f p)) \<Longrightarrow> safe P (modify f) Q"
  by (simp add: safe_def modify_def)

lemma safe_perform: "(\<And>p t. P p \<Longrightarrow> Q () (p\<lparr>pr_trace := t\<rparr>)) \<Longrightarrow> safe P (perform a) Q"
  by (simp add: safe_def perform_def modify_def)

lemma safe_exit:
  assumes "\<And>p. P p \<Longrightarrow> holding n p"
  shows "safe P (exit_with os s) Q"
  unfolding safe_def
proof (intro allI impI)
  fix p assume "P p"
  from assms[OF this] run_exit_functions_ok[of "pr_atexit p" p os]
  show "ends_well Q (exit_with os s p)" by (auto simp: exit_with_def holding_def)
qed

lemma safe_die: "(\<And>p. P p \<Longrightarrow> holding n p) \<Longrightarrow> safe P (die os) Q"
  unfolding die_def by (rule safe_exit)

lemma holding_simps [simp]:
  "holding n (p\<lparr>pr_log := a\<rparr>) = holding n p" "holding n (p\<lparr>pr_trace := b\<rparr>) = holding n p"
  "holding n (p\<lparr>pr_uid := c\<rparr>) = holding n p" "holding n (p\<lparr>pr_gid := c\<rparr>) = holding n p"
  "holding n (p\<lparr>pr_groups := d\<rparr>) = holding n p" "holding n (p\<lparr>pr_root := d\<rparr>) = holding n p"
  "holding n (p\<lparr>pr_pid := e\<rparr>) = holding n p" "holding n (p\<lparr>pr_pid_file := d\<rparr>) = holding n p"
  "holding n (p\<lparr>pr_keep_alive := f\<rparr>) = holding n p" "holding n (p\<lparr>pr_signals := f\<rparr>) = holding n p"
  "holding n (p\<lparr>pr_restart := f\<rparr>) = holding n p" "holding n (p\<lparr>pr_writer := w\<rparr>) = holding n p"
  by (simp_all add: holding_def exits_ready_def)

lemma holding_pfh [simp]: "holding n p \<Longrightarrow> h \<noteq> FreedHandle \<Longrightarrow> holding n (p\<lparr>pr_pfh := h\<rparr>)"
  by (simp add: holding_def exits_ready_def)

lemma holding_register: "holding (exit_rank f) p \<Longrightarrow> holding (Suc (exit_rank f)) (p\<lparr>pr_atexit := f # pr_atexit p\<rparr>)"
  by (auto simp: holding_def exits_ready_def less_Suc_eq split: cfg_object.splits)

text \<open>The function that forgets the configuration is registered, and then there is one.\<close>

definition prepared :: "nat \<Rightarrow> 're process \<Rightarrow> bool" where
  "prepared n p \<longleftrightarrow> holding n p \<and> ForgetConfig \<in> set (pr_atexit p)"

definition configured :: "nat \<Rightarrow> 're process \<Rightarrow> bool" where
  "configured n p \<longleftrightarrow> holding n p \<and> (\<exists>cfg. pr_cfg p = Cfg cfg)"

lemma configured_holding: "configured n p \<Longrightarrow> holding n p"
  by (simp add: configured_def)

lemma prepared_holding: "prepared n p \<Longrightarrow> holding n p"
  by (simp add: prepared_def)

lemma configured_simps [simp]:
  "configured n (p\<lparr>pr_log := a\<rparr>) = configured n p" "configured n (p\<lparr>pr_trace := b\<rparr>) = configured n p"
  "configured n (p\<lparr>pr_uid := c\<rparr>) = configured n p" "configured n (p\<lparr>pr_gid := c\<rparr>) = configured n p"
  "configured n (p\<lparr>pr_groups := d\<rparr>) = configured n p" "configured n (p\<lparr>pr_root := d\<rparr>) = configured n p"
  "configured n (p\<lparr>pr_pid := e\<rparr>) = configured n p" "configured n (p\<lparr>pr_pid_file := d\<rparr>) = configured n p"
  "configured n (p\<lparr>pr_keep_alive := f\<rparr>) = configured n p" "configured n (p\<lparr>pr_signals := f\<rparr>) = configured n p"
  "configured n (p\<lparr>pr_restart := f\<rparr>) = configured n p"
  by (simp_all add: configured_def)

lemma configured_set: "prepared n p \<Longrightarrow> configured n (p\<lparr>pr_cfg := Cfg cfg\<rparr>)"
  by (auto simp: prepared_def configured_def holding_def exits_ready_def)

lemma configured_change: "configured n p \<Longrightarrow> configured n (p\<lparr>pr_cfg := Cfg cfg\<rparr>)"
  by (auto simp: configured_def holding_def exits_ready_def split: cfg_object.splits)

lemma configured_mono: "configured m p \<Longrightarrow> m \<le> n \<Longrightarrow> configured n p"
  by (fastforce simp: configured_def holding_def)

definition using_cfg :: "'re config \<Rightarrow> nat \<Rightarrow> 're process \<Rightarrow> bool" where
  "using_cfg cfg n p \<longleftrightarrow> holding n p \<and> pr_cfg p = Cfg cfg"

lemma using_holding: "using_cfg cfg n p \<Longrightarrow> holding n p"
  by (simp add: using_cfg_def)

lemma using_configured: "using_cfg cfg n p \<Longrightarrow> configured n p"
  by (simp add: using_cfg_def configured_def)

lemma using_simps [simp]:
  "using_cfg cfg n (p\<lparr>pr_log := a\<rparr>) = using_cfg cfg n p" "using_cfg cfg n (p\<lparr>pr_trace := b\<rparr>) = using_cfg cfg n p"
  "using_cfg cfg n (p\<lparr>pr_pid := e\<rparr>) = using_cfg cfg n p" "using_cfg cfg n (p\<lparr>pr_pid_file := d\<rparr>) = using_cfg cfg n p"
  "using_cfg cfg n (p\<lparr>pr_keep_alive := f\<rparr>) = using_cfg cfg n p" "using_cfg cfg n (p\<lparr>pr_signals := f\<rparr>) = using_cfg cfg n p"
  "using_cfg cfg n (p\<lparr>pr_restart := f\<rparr>) = using_cfg cfg n p"
  by (simp_all add: using_cfg_def)

lemma using_mono: "using_cfg cfg m p \<Longrightarrow> m \<le> n \<Longrightarrow> using_cfg cfg n p"
  by (fastforce simp: using_cfg_def holding_def)

lemma safe_fix:
  assumes "\<And>cfg. safe (using_cfg cfg n) m Q"
  shows "safe (configured n) m Q"
  using assms by (auto simp: safe_def configured_def using_cfg_def)

lemma safe_get_using: "safe (using_cfg cfg n) get_cfg (\<lambda>cfg' p. using_cfg cfg n p \<and> cfg' = cfg)"
  by (simp add: safe_def get_cfg_def using_cfg_def)

lemma safe_pure: "(R \<Longrightarrow> safe P m Q) \<Longrightarrow> safe (\<lambda>p. P p \<and> R) m Q"
  by (auto simp: safe_def)

lemma safe_check: "(\<And>p. P p \<Longrightarrow> holding n p) \<Longrightarrow> (\<And>p. P p \<Longrightarrow> Q () p) \<Longrightarrow> safe P (check os b) Q"
  by (auto simp: check_def intro: safe_return safe_die)

lemma safe_component: "(\<And>p. P p \<Longrightarrow> holding n p) \<Longrightarrow> (\<And>a p. r = Ret a \<Longrightarrow> P p \<Longrightarrow> Q a p) \<Longrightarrow> safe P (component os r) Q"
  by (auto simp: component_def intro: safe_return safe_die split: outcome.split)

lemma safe_register:
  assumes "\<And>p. P p \<Longrightarrow> holding n p" "\<And>p. P p \<Longrightarrow> Q () (p\<lparr>pr_atexit := f # pr_atexit p\<rparr>)"
  shows "safe P (register os atexit f) Q"
  using assms(2) safe_die[OF assms(1), where Q = Q] by (auto simp: safe_def register_def)

lemma safe_get_cfg: "(\<And>p. P p \<Longrightarrow> configured n p) \<Longrightarrow> safe P get_cfg (\<lambda>cfg p. P p \<and> pr_cfg p = Cfg cfg)"
  by (fastforce simp: safe_def get_cfg_def configured_def)

lemma safe_change_cfg: "safe (configured n) (change_cfg f) (\<lambda>_. configured n)"
  using configured_change by (fastforce simp: safe_def change_cfg_def configured_def)

lemma safe_if: "(b \<Longrightarrow> safe P m Q) \<Longrightarrow> (\<not> b \<Longrightarrow> safe P m' Q) \<Longrightarrow> safe P (if b then m else m') Q"
  by simp

lemma safe_with_uid: "(\<And>uid. safe P (f uid) Q) \<Longrightarrow> safe P (with_uid f) Q"
  by (simp add: safe_def with_uid_def)

lemma safe_drop_privileges: "safe (configured n) (drop_privileges os us user new_root) (\<lambda>_. configured n)"
proof -
  note step = safe_bind[where R = "\<lambda>_. configured n"] safe_with_uid safe_perform safe_check[OF configured_holding] safe_modify
  have "safe (configured n) (sys_initgroups os us name) (\<lambda>_. configured n)" for name
    unfolding sys_initgroups_def by (intro step) auto
  moreover have "safe (configured n) (sys_chroot os us r) (\<lambda>_. configured n)" for r
    unfolding sys_chroot_def by (intro step) auto
  moreover have "safe (configured n) (sys_setgid os us gid) (\<lambda>_. configured n)" for gid
    unfolding sys_setgid_def by (intro step) auto
  moreover have "safe (configured n) (sys_setuid os us uid) (\<lambda>_. configured n)" for uid
    unfolding sys_setuid_def by (intro step) auto
  ultimately show ?thesis
    unfolding drop_privileges_def
    by (intro safe_bind[where R = "\<lambda>_. configured n"])
      (auto intro!: safe_return safe_die[OF configured_holding] safe_bind[where R = "\<lambda>_. configured n"] split: option.split)
qed

end
