(* ===== verification/ServerAuth.thy ===== *)
theory ServerAuth
  imports ServerConf
begin

text \<open>
  The server's authentication and authorisation, \<open>src/server/auth.c\<close>: the PSK callback
  \<open>check_psk\<close> and the command check \<open>is_authorized\<close>. The hash table of \<open>authorize\<close> sections
  is an argument, as are \<open>regexec(3)\<close> and the result of \<open>SSL_set_app_data\<close>. The section
  closes with the meaning of a configuration: which commands an identity may submit, in
  terms of the pattern strings in the file.
\<close>

section \<open>Operations\<close>

definition REG_NOMATCH :: int where "REG_NOMATCH = 1"

text \<open>\<open>match\<close> (a keyword of no meaning in C, but a HOL syntax word, hence the suffix).\<close>

definition match_cmd :: "('re \<Rightarrow> string \<Rightarrow> int) \<Rightarrow> 're \<Rightarrow> string \<Rightarrow> bool" where
  "match_cmd regexec pattern command =
     (let result = regexec pattern command in
      if result = 0 then True else if result = REG_NOMATCH then False else False)"

definition lookup_auth :: "'re auth_section hash_table \<Rightarrow> string \<Rightarrow> 're auth_section option" where
  "lookup_auth t identity =
     (case hash_lookup t identity of
        None \<Rightarrow> hash_lookup t ''*''
      | Some auth \<Rightarrow> Some auth)"

text \<open>
  The result is the key's length, the password memory and the identity remembered for the
  connection, if it could be stored. \<open>cfg_getstr\<close> gives the first value.
\<close>

definition check_psk ::
  "'re auth_section hash_table \<Rightarrow> bool \<Rightarrow> string \<Rightarrow> bytes \<Rightarrow> nat \<Rightarrow> nat \<times> bytes \<times> string option" where
  "check_psk t can_store identity password max_password_len =
     (case lookup_auth t identity of
        None \<Rightarrow> (0, password, None)
      | Some auth \<Rightarrow>
          if \<not> can_store then (0, password, None)
          else let configured_pw = a_password auth ! 0;
                   password_len = min (length configured_pw) max_password_len
               in (password_len, memcpy_at 0 (take password_len configured_pw) password, Some identity))"

fun match_loop :: "('re \<Rightarrow> string \<Rightarrow> int) \<Rightarrow> string \<Rightarrow> 're list list \<Rightarrow> bool" where
  "match_loop regexec command [] = False"
| "match_loop regexec command ([] # settings) = match_loop regexec command settings"
| "match_loop regexec command ((pattern # patterns) # settings) =
     (if match_cmd regexec pattern command then True
      else match_loop regexec command (patterns # settings))"

definition is_authorized ::
  "('re \<Rightarrow> string \<Rightarrow> int) \<Rightarrow> 're auth_section hash_table \<Rightarrow> string \<Rightarrow> string \<Rightarrow> bool" where
  "is_authorized regexec t identity command =
     (case lookup_auth t identity of
        None \<Rightarrow> False
      | Some auth \<Rightarrow>
          (case strchr command LF of
             None \<Rightarrow> False
           | Some newline \<Rightarrow>
               if deref (tl newline) \<noteq> NUL then False
               else (case strchr command (CHR '']'') of
                  None \<Rightarrow> False
                | Some rest \<Rightarrow>
                    match_loop regexec (skip_whitespace (tl rest))
                      [a_hosts auth, a_services auth, a_commands auth])))"

section \<open>What is authorised\<close>

text \<open>The part of a command that the patterns are matched against.\<close>

definition command_body :: "string \<Rightarrow> string" where
  "command_body command = skip_whitespace (after (CHR '']'') command)"

definition one_line :: "string \<Rightarrow> bool" where
  "one_line command \<longleftrightarrow> (\<exists>line. command = line @ [LF] \<and> LF \<notin> set line)"

lemma match_loop_iff:
  "match_loop regexec command settings \<longleftrightarrow> (\<exists>re \<in> set (concat settings). regexec re command = 0)"
  by (induction regexec command settings rule: match_loop.induct)
    (auto simp: match_cmd_def REG_NOMATCH_def Let_def)

lemma deref_NUL: "NUL \<notin> set s \<Longrightarrow> deref s = NUL \<longleftrightarrow> s = []"
  by (cases s) auto

lemma one_line_iff:
  assumes "NUL \<notin> set command"
  shows "one_line command \<longleftrightarrow> (\<exists>nl. strchr command LF = Some nl \<and> deref (tl nl) = NUL)"
proof
  assume "one_line command"
  then obtain line where "command = line @ LF # []" "LF \<notin> set line" by (auto simp: one_line_def)
  then show "\<exists>nl. strchr command LF = Some nl \<and> deref (tl nl) = NUL" by (simp add: strchr_def)
next
  assume "\<exists>nl. strchr command LF = Some nl \<and> deref (tl nl) = NUL"
  then have m: "LF \<in> set command" and d: "deref (after LF command) = NUL"
    by (auto simp: strchr_def split: if_splits)
  have "NUL \<notin> set (after LF command)" using assms before_after[OF m] by (metis Un_iff list.set_intros(2) set_append)
  with d have "after LF command = []" by (simp add: deref_NUL)
  with before_after[OF m] before_no show "one_line command" unfolding one_line_def by metis
qed

lemma is_authorized_iff:
  assumes "NUL \<notin> set command"
  shows "is_authorized regexec t identity command \<longleftrightarrow>
    (\<exists>auth. lookup_auth t identity = Some auth \<and> one_line command \<and> CHR '']'' \<in> set command \<and>
      (\<exists>re \<in> set (a_hosts auth @ a_services auth @ a_commands auth).
         regexec re (command_body command) = 0))"
  unfolding one_line_iff[OF assms]
  by (auto simp: is_authorized_def command_body_def match_loop_iff strchr_def split: option.splits if_splits)

text \<open>
  Property C30. A command is authorised exactly if the identity (or else the wildcard section)
  is known, the command is a single line that ends in its only newline, has a bracketed
  timestamp, and what follows the timestamp matches one of the section's patterns. A regular
  expression whose matching fails never authorises anything.
\<close>

theorem is_authorized_correct:
  assumes "NUL \<notin> set command"
  shows "is_authorized regexec t identity command \<longleftrightarrow>
    (\<exists>auth. lookup_auth t identity = Some auth \<and> one_line command \<and> CHR '']'' \<in> set command \<and>
      (\<exists>re \<in> set (a_hosts auth @ a_services auth @ a_commands auth).
         regexec re (command_body command) = 0))"
  using assms by (rule is_authorized_iff)

definition sample_table :: "string auth_section hash_table" where
  "sample_table = \<lparr>room = 4, entries = [(''*'', Some \<lparr>a_title = ''*'', a_password = [''pw''],
     a_hosts = [''h''], a_services = [], a_commands = []\<rparr>)]\<rparr>"

lemma is_authorized_witness:
  "is_authorized (\<lambda>re s. if take 1 s = re then 0 else 1) sample_table ''alice'' (''[12] hello'' @ [LF])"
  by (subst is_authorized_correct)
    (auto simp: sample_table_def lookup_auth_def hash_lookup_def hsearch_find_def one_line_def
      command_body_def after_def intro!: exI[of _ "''[12] hello''"])

text \<open>
  The PSK callback writes at most the buffer it is given and returns the length
  it wrote: the configured password, cut at the maximum; an unknown identity, or one that
  cannot be remembered, gives a key of length 0 and leaves the buffer alone.
\<close>

theorem check_psk_correct:
  assumes "max_password_len \<le> length password"
  shows "\<exists>n pw' app. check_psk t can_store identity password max_password_len = (n, pw', app) \<and>
    length pw' = length password \<and> n \<le> max_password_len \<and> drop n pw' = drop n password \<and>
    (case lookup_auth t identity of
       Some auth \<Rightarrow> if can_store
         then take n pw' = take max_password_len (a_password auth ! 0) \<and> app = Some identity
         else n = 0 \<and> pw' = password \<and> app = None
     | None \<Rightarrow> n = 0 \<and> pw' = password \<and> app = None)"
  using assms
  by (auto simp: check_psk_def memcpy_at_def Let_def min_def split: option.splits)

lemma check_psk_witness:
  "fst (check_psk sample_table True ''bob'' (replicate 256 NUL) 256) = 2 \<and>
   take 2 (fst (snd (check_psk sample_table True ''bob'' (replicate 256 NUL) 256))) = ''pw''"
  using check_psk_correct[of 256 "replicate 256 NUL" sample_table True "''bob''"]
  by (auto simp: sample_table_def lookup_auth_def hash_lookup_def hsearch_find_def check_psk_def memcpy_at_def)

section \<open>The meaning of a configuration\<close>

text \<open>
  A section as it is written, its patterns strings; the parser compiles them with the parse
  callbacks. \<open>granted\<close> are the command patterns of a section, the global ones for those it
  does not set.
\<close>

definition compile_section :: "(string \<Rightarrow> 're option) \<Rightarrow> string auth_section \<Rightarrow> 're auth_section" where
  "compile_section regcomp s =
     \<lparr>a_title = a_title s, a_password = a_password s,
      a_hosts = compile_all (parse_host_pattern_cb regcomp) (a_hosts s),
      a_services = compile_all (parse_service_pattern_cb regcomp) (a_services s),
      a_commands = compile_all (parse_command_pattern_cb regcomp) (a_commands s)\<rparr>"

definition granted :: "'re config \<Rightarrow> string auth_section \<Rightarrow> string list" where
  "granted cfg s =
     map host_to_command (own_or (a_hosts s) (c_hosts cfg)) @
     map service_to_command (own_or (a_services s) (c_services cfg)) @
     own_or (a_commands s) (c_commands cfg)"

definition command_regex :: "string \<Rightarrow> string" where
  "command_regex p = ''^'' @ p @ [LF] @ ''?$''"

definition section_for :: "string auth_section list \<Rightarrow> string \<Rightarrow> string auth_section option" where
  "section_for secs identity =
     (case map_of (map (\<lambda>s. (a_title s, s)) secs) identity of
        None \<Rightarrow> map_of (map (\<lambda>s. (a_title s, s)) secs) ''*''
      | Some s \<Rightarrow> Some s)"

lemma compile_all_callbacks:
  "compile_all (parse_command_pattern_cb regcomp) ps = map (\<lambda>p. the (regcomp (command_regex p))) ps"
  "compile_all (parse_host_pattern_cb regcomp) ps =
     map (\<lambda>p. the (regcomp (command_regex p))) (map host_to_command ps)"
  "compile_all (parse_service_pattern_cb regcomp) ps =
     map (\<lambda>p. the (regcomp (command_regex p))) (map service_to_command ps)"
  by (simp_all add: compile_all_def parse_command_pattern_cb_def parse_host_pattern_cb_def
      parse_service_pattern_cb_def command_regex_def comp_def)

lemma effective_patterns:
  "a_hosts e @ a_services e @ a_commands e = map (\<lambda>p. the (regcomp (command_regex p))) (granted cfg s)"
  if "e = effective regcomp cfg (compile_section regcomp s)"
  by (simp add: that effective_def compile_section_def granted_def compile_all_callbacks own_or_def)

lemma map_of_effective:
  "map_of (map (effective_entry regcomp cfg) (map (compile_section regcomp) secs)) k =
   map_option (\<lambda>s. effective regcomp cfg (compile_section regcomp s)) (map_of (map (\<lambda>s. (a_title s, s)) secs) k)"
  by (induction secs) (auto simp: effective_entry_def compile_section_def)

text \<open>
  Property C10. Once a configuration is accepted, an identity may submit exactly the
  newline-terminated single-line commands whose part behind the timestamp matches one of the
  patterns its section (or the wildcard section) grants: the hosts and services patterns
  expanded to check-result commands, the command patterns as written, and the global ones
  where the section sets none, each wrapped as \<open>^pattern\n?$\<close>.
\<close>

theorem authorization_by_configuration:
  assumes "setopt_ok regcomp setopt" "\<And>n. \<exists>r \<ge> n. hcreate n = Some r"
    and "distinct (map a_title secs)" "c_authorize cfg = map (compile_section regcomp) secs"
    and "process_auth_sections hcreate setopt cfg = Ret t"
    and "NUL \<notin> set command"
  shows "is_authorized regexec t identity command \<longleftrightarrow>
    (\<exists>s. section_for secs identity = Some s \<and> one_line command \<and> CHR '']'' \<in> set command \<and>
      (\<exists>p \<in> set (granted cfg s). regexec (the (regcomp (command_regex p))) (command_body command) = 0))"
proof -
  from assms(3,4) have "distinct (map a_title (c_authorize cfg))"
    by (simp add: comp_def compile_section_def)
  from process_auth_sections_lookup[OF assms(1,2) this assms(5)] assms(4)
  have l: "hash_lookup t k =
    map_option (\<lambda>s. effective regcomp cfg (compile_section regcomp s)) (map_of (map (\<lambda>s. (a_title s, s)) secs) k)" for k
    by (simp add: map_of_effective del: map_map)
  have "lookup_auth t identity =
    map_option (\<lambda>s. effective regcomp cfg (compile_section regcomp s)) (section_for secs identity)"
    by (auto simp: lookup_auth_def l section_for_def split: option.splits)
  then show ?thesis
    by (auto simp: is_authorized_iff[OF assms(6)] effective_patterns simp del: set_append)
qed

definition sample_sections :: "string auth_section list" where
  "sample_sections = [\<lparr>a_title = ''alice'', a_password = [''pw''], a_hosts = [''web1''], a_services = [], a_commands = []\<rparr>]"

definition sample_auth_config :: "string config" where
  "sample_auth_config = (default_config ''/var'' 5)\<lparr>c_authorize := map (compile_section Some) sample_sections\<rparr>"

lemma authorization_by_configuration_witness:
  "\<exists>t. process_auth_sections Some (plain_setopt Some) sample_auth_config = Ret t \<and>
     is_authorized (\<lambda>re s. if take 26 (tl re) = take 26 s then 0 else 1) t ''alice''
       (''[1] PROCESS_HOST_CHECK_RESULT;web1;0;OK'' @ [LF])"
proof -
  let ?rx = "\<lambda>re s. if take 26 (tl re) = take 26 s then 0 else (1 :: int)"
  let ?cmd = "''[1] PROCESS_HOST_CHECK_RESULT;web1;0;OK'' @ [LF]"
  define t where "t = (case process_auth_sections Some (plain_setopt Some) sample_auth_config of Ret t \<Rightarrow> t)"
  have t: "process_auth_sections Some (plain_setopt Some) sample_auth_config = Ret t"
    unfolding t_def by (simp add: sample_auth_config_def sample_sections_def compile_section_def
      process_auth_sections_def hash_new_def fallback_to_defaults_def validate_auth_section_def
      hash_insert_def hsearch_enter_def default_config_def compile_all_def parse_host_pattern_cb_def
      parse_command_pattern_cb_def)
  have "is_authorized ?rx t ''alice'' ?cmd"
    by (subst authorization_by_configuration[OF plain_setopt_ok _ _ _ t, of sample_sections])
      (auto simp: sample_sections_def sample_auth_config_def section_for_def one_line_def granted_def
        own_or_def command_body_def after_def command_regex_def host_to_command_def
        intro!: exI[of _ "''[1] PROCESS_HOST_CHECK_RESULT;web1;0;OK''"])
  with t show ?thesis by blast
qed

end
