(* ===== verification/Server.thy ===== *)
theory Server
  imports TlsEvents ServerAuth Fifo
begin

text \<open>
  The protocol server, \<open>src/server/server.c\<close>: the handlers of a connection (handshake,
  requests, submission, errors, timeouts), on top of the TLS layer, the authorisation and the
  command file writer. The context a connection sees is the server's writer, its limit for the size of a command,
  and the object \<open>tls->data\<close> points to: the server's context, the
  connection's own state (its \<open>input_length\<close>, unset at first), or one that was freed.
\<close>

section \<open>State\<close>

datatype server_handler =
  HandleConnect | HandleHandshake | HandleConnection | HandlePush
  | HandleError | HandleTimeout | HandleLineTooLong

datatype conn_data = Ctx | Conn "nat option" | Dangling

record server =
  s_fifo :: fifo_state
  s_max_command_size :: nat
  s_data :: conn_data

text \<open>
  What the server needs of its environment: \<open>regexec\<close>, the system under the writer, and the
  table of authorisations, which the configuration has filled.
\<close>

record 're server_env =
  e_regexec :: "'re \<Rightarrow> string \<Rightarrow> int"
  e_fifo :: fifo_os
  e_table :: "'re auth_section hash_table"

type_synonym conn = "server_handler tls"

section \<open>Responses and ends of a connection\<close>

definition send_response :: "conn \<Rightarrow> string \<Rightarrow> conn outcome" where
  "send_response tls response = tls_write_line response tls"

definition connection_stop :: "server \<Rightarrow> server outcome" where
  "connection_stop g =
     (case s_data g of
        Conn k \<Rightarrow> Ret (g\<lparr>s_data := Dangling\<rparr>)
      | _ \<Rightarrow> Die ''free of something that is no connection state'')"

definition shutdown_and_stop :: "conn \<Rightarrow> server \<Rightarrow> (conn \<times> server) outcome" where
  "shutdown_and_stop tls g =
     obind (tls_shutdown tls) (\<lambda>tls. obind (connection_stop g) (\<lambda>g. Ret (tls, g)))"

definition bail :: "string \<Rightarrow> conn \<Rightarrow> server \<Rightarrow> (conn \<times> server) outcome" where
  "bail message tls g =
     obind (tls_write ''BAIL '' False tls) (\<lambda>tls.
     obind (tls_write_line message tls) (\<lambda>tls.
     shutdown_and_stop tls g))"

definition client_exited :: "string \<Rightarrow> conn \<Rightarrow> server \<Rightarrow> (bool \<times> conn \<times> server) outcome" where
  "client_exited line tls g =
     (if strncasecmp ''QUIT'' line 4 = 0 then
        obind (send_response tls ''OKAY'') (\<lambda>tls.
        obind (shutdown_and_stop tls g) (\<lambda>(tls, g). Ret (True, tls, g)))
      else if strncasecmp ''BAIL'' line 4 = 0 then
        obind (shutdown_and_stop tls g) (\<lambda>(tls, g). Ret (True, tls, g))
      else Ret (False, tls, g))"

text \<open>A response that leaves the connection waiting for the next line.\<close>

definition respond_and_read :: "string \<Rightarrow> server_handler \<Rightarrow> conn \<Rightarrow> server \<Rightarrow> (conn \<times> server) outcome" where
  "respond_and_read response h tls g =
     obind (send_response tls response) (\<lambda>tls.
     obind (tls_read_line h tls) (\<lambda>tls. Ret (tls, g)))"

section \<open>Handlers\<close>

definition handle_connect :: "conn \<Rightarrow> server \<Rightarrow> (conn \<times> server) outcome" where
  "handle_connect tls g =
     (case s_data g of
        Ctx \<Rightarrow>
          obind (tls_on_timeout (User HandleTimeout) tls) (\<lambda>tls.
          obind (tls_on_error HandleError tls) (\<lambda>tls.
          obind (tls_on_line_too_long HandleLineTooLong tls) (\<lambda>tls.
          obind (tls_read_line HandleHandshake tls) (\<lambda>tls.
            Ret (tls, g\<lparr>s_data := Conn None\<rparr>)))))
      | _ \<Rightarrow> Die ''connection data is not the server context'')"

definition handle_handshake :: "string \<Rightarrow> conn \<Rightarrow> server \<Rightarrow> (conn \<times> server) outcome" where
  "handle_handshake line tls g =
     (if strncasecmp ''MOIN'' line 4 = 0 then
        (let (parsed, args) = parse_line line 3 in
         if \<not> parsed then respond_and_read ''FAIL Cannot parse MOIN request'' HandleHandshake tls g
         else if atoi (args ! 1) \<le> 0
         then respond_and_read ''FAIL Expected protocol version'' HandleHandshake tls g
         else obind (tls_set_connection_id (args ! 2) tls) (\<lambda>tls.
                respond_and_read ''MOIN 1'' HandleConnection tls g))
      else if strncasecmp ''PING'' line 4 = 0 then
        obind (send_response tls ''PONG 1'') (\<lambda>tls. shutdown_and_stop tls g)
      else
        obind (client_exited line tls g) (\<lambda>(exited, tls, g).
          if \<not> exited
          then respond_and_read ''FAIL Expected MOIN or PING or BAIL'' HandleHandshake tls g
          else Ret (tls, g)))"

definition handle_connection :: "string \<Rightarrow> conn \<Rightarrow> server \<Rightarrow> (conn \<times> server) outcome" where
  "handle_connection line tls g =
     (if strncasecmp ''NOOP'' line 4 = 0 then
        obind (send_response tls ''OKAY'') (\<lambda>tls. Ret (tls, g))
      else if strncasecmp ''PUSH'' line 4 = 0 then
        (let (parsed, args) = parse_line line 2 in
         if \<not> parsed then respond_and_read ''FAIL Cannot parse PUSH request'' HandleConnection tls g
         else
           let data_size = atoi (args ! 1) in
           if data_size \<le> 0
           then respond_and_read ''FAIL Expected number of bytes'' HandleConnection tls g
           else if s_max_command_size g > 0 \<and> nat data_size > s_max_command_size g
           then respond_and_read ''FAIL PUSH data size too large'' HandleConnection tls g
           else
             obind (send_response tls ''OKAY'') (\<lambda>tls.
               case s_data g of
                 Conn k \<Rightarrow>
                   obind (tls_read HandlePush (nat data_size) tls) (\<lambda>tls.
                     Ret (tls, g\<lparr>s_data := Conn (Some (nat data_size))\<rparr>))
               | _ \<Rightarrow> Die ''use of a freed connection state''))
      else
        obind (client_exited line tls g) (\<lambda>(exited, tls, g).
          if \<not> exited
          then respond_and_read ''FAIL Expected PUSH or NOOP or QUIT'' HandleConnection tls g
          else Ret (tls, g)))"

text \<open>
  \<open>data\<close> is the memory object: the check sees the C string in it, the writer gets
  \<open>input_length\<close> bytes of it.
\<close>

definition handle_push :: "'re server_env \<Rightarrow> bytes \<Rightarrow> conn \<Rightarrow> server \<Rightarrow> (conn \<times> server) outcome" where
  "handle_push env data tls g =
     (case s_data g of
        Conn (Some input_length) \<Rightarrow>
          if length data < input_length then Die ''read outside the received data''
          else case t_id tls of
            None \<Rightarrow> Die ''NULL identity''
          | Some identity \<Rightarrow>
              if is_authorized (e_regexec env) (e_table env) identity (cstr data) then
                obind (fifo_write (e_fifo env) (s_fifo g) (take input_length data) True) (\<lambda>fifo.
                  respond_and_read ''OKAY'' HandleConnection tls (g\<lparr>s_fifo := fifo\<rparr>))
              else respond_and_read ''FAIL You're not authorized'' HandleConnection tls g
      | _ \<Rightarrow> Die ''use of a freed or unset connection state'')"

definition handle_error :: "conn \<Rightarrow> server \<Rightarrow> (conn \<times> server) outcome" where
  "handle_error tls g = obind (connection_stop g) (\<lambda>g. Ret (tls, g))"

definition handle_timeout :: "conn \<Rightarrow> server \<Rightarrow> (conn \<times> server) outcome" where
  "handle_timeout tls g = bail ''Connection timed out'' tls g"

definition handle_line_too_long :: "conn \<Rightarrow> server \<Rightarrow> (conn \<times> server) outcome" where
  "handle_line_too_long tls g = bail ''Request line too long'' tls g"

fun server_run :: "'re server_env \<Rightarrow> (server_handler, server) run" where
  "server_run env HandleConnect data tls g = handle_connect tls g"
| "server_run env HandleHandshake data tls g = handle_handshake (cstr (the data)) tls g"
| "server_run env HandleConnection data tls g = handle_connection (cstr (the data)) tls g"
| "server_run env HandlePush data tls g = handle_push env (the data) tls g"
| "server_run env HandleError data tls g = handle_error tls g"
| "server_run env HandleTimeout data tls g = handle_timeout tls g"
| "server_run env HandleLineTooLong data tls g = handle_line_too_long tls g"

section \<open>The state of a connection\<close>

text \<open>
  The writer is in a state it reaches by itself on a system that keeps its promises, and
  everything submitted to it is an
  authorised command (up to its first NUL byte), or the writer's own instruction to process
  a dump file.
\<close>

definition authorised_data :: "'re server_env \<Rightarrow> bytes \<Rightarrow> bool" where
  "authorised_data env d \<longleftrightarrow>
     (\<exists>client. is_authorized (e_regexec env) (e_table env) client (cstr d)) \<or>
     (\<exists>now file. d = process_file_command now file)"

definition fifo_good :: "'re server_env \<Rightarrow> server \<Rightarrow> bool" where
  "fifo_good env g \<longleftrightarrow> posix_ok (e_fifo env) \<and> (\<exists>max_mb. fifo_reaches (e_fifo env) max_mb (s_fifo g)) \<and>
     (\<forall>d. Submitted d \<in> set (f_trace (s_fifo g)) \<longrightarrow> authorised_data env d)"

text \<open>
  After its TLS handshake, a connection is serving requests or closing. While it serves, it
  reads a line for one of the two line handlers, or the announced number of bytes, or nothing
  (after a \<open>NOOP\<close>); its state is allocated exactly then.
\<close>

definition serving :: "conn \<Rightarrow> server \<Rightarrow> bool" where
  "serving tls g \<longleftrightarrow> \<not> is_active InitW tls \<and> t_error_handler tls = Some HandleError \<and>
     t_timeout_handler tls = User HandleTimeout \<and>
     t_line_too_long_handler tls = User HandleLineTooLong \<and>
     t_drain_handler tls = None \<and> t_id tls \<noteq> None \<and> t_peer tls \<noteq> None \<and>
     (\<exists>k. s_data g = Conn k \<and>
       (case reading tls of
          None \<Rightarrow> True
        | Some (READ_LINE, n) \<Rightarrow> t_read_handler tls \<in> {Some HandleHandshake, Some HandleConnection}
        | Some (READ_BYTES, n) \<Rightarrow> t_read_handler tls = Some HandlePush \<and> k = Some n \<and> 0 < n))"

definition closing :: "conn \<Rightarrow> server \<Rightarrow> bool" where
  "closing tls g \<longleftrightarrow> \<not> is_active InitW tls \<and> s_data g = Dangling \<and> t_error_handler tls = None \<and>
     t_timeout_handler tls = Default \<and> t_drain_handler tls = Some StartShutdown \<and> reading tls = None"

definition conn_good :: "'re server_env \<Rightarrow> conn \<Rightarrow> server \<Rightarrow> bool" where
  "conn_good env tls g \<longleftrightarrow> fifo_good env g \<and> \<not> t_auto_die tls \<and> (serving tls g \<or> closing tls g)"

definition conn_gone :: "'re server_env \<Rightarrow> server \<Rightarrow> bool" where
  "conn_gone env g \<longleftrightarrow> fifo_good env g \<and> (\<forall>k. s_data g \<noteq> Conn k)"

lemma fifo_good_data [simp]: "fifo_good env (g\<lparr>s_data := d\<rparr>) = fifo_good env g"
  by (simp add: fifo_good_def)

section \<open>Ends\<close>

abbreviation fine :: "'re server_env \<Rightarrow> (conn \<times> server) outcome \<Rightarrow> bool" where
  "fine env \<equiv> tls_settled {} (conn_good env) (conn_gone env)"

text \<open>A connection that serves no request at the moment: what every handler starts from.\<close>

definition at_rest :: "'re server_env \<Rightarrow> conn \<Rightarrow> server \<Rightarrow> bool" where
  "at_rest env tls g \<longleftrightarrow> fifo_good env g \<and> \<not> t_auto_die tls \<and> serving tls g \<and> reading tls = None"

lemma at_rest_good: "at_rest env tls g \<Longrightarrow> conn_good env tls g"
  by (simp add: at_rest_def conn_good_def)

lemma serving_view:
  assumes "view tls' = view tls" "reading tls' = reading tls"
  shows "serving tls' g = serving tls g"
  by (simp only: serving_def viewD[OF assms(1)] assms(2))

lemmas written_user = viewD(1-11)[OF line_written_fields(1), simplified] viewD(1-11)[OF write_buffered_fields(1), simplified]

lemma at_rest_written [simp]:
  "at_rest env (line_written s tls) g = at_rest env tls g"
  "at_rest env (write_buffered s tls) g = at_rest env tls g"
  by (simp_all only: at_rest_def serving_def written_user line_written_fields(2,7) write_buffered_fields(2,7)) simp_all

lemma shutdown_and_stop_ok:
  assumes "tls_inv tls" "at_rest env tls g"
  shows "shutdown_and_stop tls g = Ret (shut tls, g\<lparr>s_data := Dangling\<rparr>)"
    "fine env (shutdown_and_stop tls g)"
proof -
  have nf: "\<not> t_freed tls" using tls_inv_live[OF assms(1)] .
  obtain k where k: "s_data g = Conn k" using assms(2) by (auto simp: at_rest_def serving_def)
  show eq: "shutdown_and_stop tls g = Ret (shut tls, g\<lparr>s_data := Dangling\<rparr>)"
    by (simp add: shutdown_and_stop_def tls_shutdown_eq[OF nf] connection_stop_def k)
  have v: "view (shut tls) = view (tls\<lparr>t_error_handler := None, t_timeout_handler := Default,
     t_drain_handler := Some StartShutdown\<rparr>)" by simp
  have "closing (shut tls) (g\<lparr>s_data := Dangling\<rparr>)"
    using assms(2) viewD[OF v] by (simp add: closing_def at_rest_def serving_def is_active_def)
  then have "conn_good env (shut tls) (g\<lparr>s_data := Dangling\<rparr>)"
    using assms(2) viewD(11)[OF v] by (simp add: conn_good_def at_rest_def)
  then show "fine env (shutdown_and_stop tls g)"
    using shut_inv[OF assms(1)] nf by (simp add: eq)
qed

lemma bail_ok:
  assumes "tls_core tls" "at_rest env tls g" "is_active ShutdownW tls \<longrightarrow> t_drain_handler tls \<noteq> None"
  shows "fine env (bail message tls g)"
proof -
  have nf: "\<not> t_freed tls" using assms(1) by (simp add: tls_core_def)
  let ?tls = "line_written message (write_buffered ''BAIL '' tls)"
  have "tls_core (write_buffered ''BAIL '' tls)" by (rule write_buffered_core[OF assms(1)])
  then have "tls_inv ?tls" by (rule line_written_inv) (use assms(3) in simp)
  moreover have "at_rest env ?tls g" using assms(2) by simp
  ultimately have "fine env (shutdown_and_stop ?tls g)" by (rule shutdown_and_stop_ok(2))
  then show ?thesis using nf by (simp add: bail_def tls_write_eq tls_write_line_eq)
qed

lemma respond_and_read_ok:
  assumes "tls_core tls" "is_active ShutdownW tls \<longrightarrow> t_drain_handler tls \<noteq> None"
    and "read_idle tls" "at_rest env tls g" "h \<in> {HandleHandshake, HandleConnection}"
  shows "respond_and_read response h tls g = Ret (begin_read h 0 (line_written response tls), g)"
    "fine env (respond_and_read response h tls g)"
proof -
  have nf: "\<not> t_freed tls" using assms(1) by (simp add: tls_core_def)
  have na: "\<not> is_active ReadW tls" using assms(3) by (simp add: read_idle_def)
  let ?w = "line_written response tls"
  let ?r = "begin_read h 0 ?w"
  show eq: "respond_and_read response h tls g = Ret (?r, g)"
    using nf na by (simp add: respond_and_read_def send_response_def tls_write_line_eq tls_read_line_def tls_read_eq)
  have wi: "tls_inv ?w" by (rule line_written_inv[OF assms(1,2)])
  have "tls_inv ?r" by (rule begin_read_inv[OF wi]) (use assms(3) in simp)
  moreover have v: "view ?r = view (?w\<lparr>t_read_handler := Some h\<rparr>)" by simp
  have "at_rest env ?w g" using assms(4) by simp
  then have "serving ?r g" "\<not> t_auto_die ?r" "fifo_good env g"
    using viewD[OF v] assms(5) by (auto simp: serving_def at_rest_def is_active_def)
  then have "conn_good env ?r g" by (simp add: conn_good_def)
  ultimately show "fine env (respond_and_read response h tls g)" using nf by (simp add: eq)
qed

section \<open>Handlers keep it\<close>

lemma client_exited_ok:
  assumes "tls_inv tls" "at_rest env tls g"
  shows "(\<exists>tls' g'. client_exited line tls g = Ret (True, tls', g') \<and> fine env (Ret (tls', g'))) \<or>
    client_exited line tls g = Ret (False, tls, g)"
proof -
  have nf: "\<not> t_freed tls" using tls_inv_live[OF assms(1)] .
  let ?w = "line_written ''OKAY'' tls"
  have w: "tls_inv ?w" "at_rest env ?w g"
    using line_written_inv tls_inv_core[OF assms(1)] assms(2) by auto
  note stop = shutdown_and_stop_ok[OF assms] shutdown_and_stop_ok[OF w]
  show ?thesis
    using stop nf by (auto simp: client_exited_def send_response_def tls_write_line_eq)
qed

lemma connection_id_ok:
  assumes "tls_inv tls" "at_rest env tls g" "read_idle tls"
  shows "\<exists>tls'. tls_set_connection_id c tls = Ret tls' \<and> tls_inv tls' \<and> at_rest env tls' g \<and> read_idle tls'"
proof -
  obtain p where p: "t_peer tls = Some p" using assms(2) by (auto simp: at_rest_def serving_def)
  let ?tls = "tls\<lparr>t_peer := Some (p @ '' (ID: '' @ c @ '')'')\<rparr>"
  have "tls_core tls" using assms(1) by (simp add: tls_inv_def)
  then have "tls_core ?tls"
    by (rule tls_core_same) (use assms(3) in \<open>auto simp: is_active_def read_idle_def\<close>)
  then have "tls_inv ?tls"
    by (rule tls_inv_same[OF assms(1)]) (simp_all add: is_active_def)
  moreover have "at_rest env ?tls g"
    using assms(2) by (auto simp: at_rest_def serving_def is_active_def reading_def split: if_splits)
  moreover have "read_idle ?tls" using assms(3) by (simp add: read_idle_def is_active_def)
  ultimately show ?thesis
    using p tls_inv_live[OF assms(1)] by (simp add: tls_set_connection_id_def live_def)
qed

lemma unresolved_ok:
  assumes "tls_inv tls" "at_rest env tls g" "read_idle tls" "h \<in> {HandleHandshake, HandleConnection}"
  shows "fine env (obind (client_exited line tls g) (\<lambda>(exited, tls, g).
    if \<not> exited then respond_and_read response h tls g else Ret (tls, g)))"
  using client_exited_ok[OF assms(1,2), of line] respond_and_read_ok(2)[of tls env g h response]
    tls_inv_core[OF assms(1)] assms(2-4) by auto

lemma handle_handshake_ok:
  assumes "tls_inv tls" "at_rest env tls g" "read_idle tls"
  shows "fine env (handle_handshake line tls g)"
proof -
  have nf: "\<not> t_freed tls" using tls_inv_live[OF assms(1)] .
  have rr: "fine env (respond_and_read r h tls' g)"
    if "h \<in> {HandleHandshake, HandleConnection}" "tls_inv tls'" "at_rest env tls' g" "read_idle tls'" for r h tls'
    by (rule respond_and_read_ok(2)) (use that tls_inv_core in auto)
  obtain tls1 where c: "tls_set_connection_id (snd (parse_line line 3) ! 2) tls = Ret tls1"
    "tls_inv tls1" "at_rest env tls1 g" "read_idle tls1"
    using connection_id_ok[OF assms] by blast
  have ping: "fine env (shutdown_and_stop (line_written ''PONG 1'' tls) g)"
    by (rule shutdown_and_stop_ok(2)) (use line_written_inv tls_inv_core[OF assms(1)] assms(2) in auto)
  show ?thesis
    using rr c ping assms nf unresolved_ok[OF assms]
    by (auto simp: handle_handshake_def Let_def split_beta send_response_def tls_write_line_eq)
qed

lemma handle_connection_ok:
  assumes "tls_inv tls" "at_rest env tls g" "read_idle tls"
  shows "fine env (handle_connection line tls g)"
proof -
  have nf: "\<not> t_freed tls" using tls_inv_live[OF assms(1)] .
  have na: "\<not> is_active ReadW tls" using assms(3) by (simp add: read_idle_def)
  have rr: "fine env (respond_and_read r HandleConnection tls g)" for r
    by (rule respond_and_read_ok(2)) (use assms tls_inv_core in auto)
  let ?w = "line_written ''OKAY'' tls"
  have w: "tls_inv ?w" "at_rest env ?w g" "read_idle ?w"
    using line_written_inv tls_inv_core[OF assms(1)] assms(2,3) by auto
  have noop: "fine env (Ret (?w, g))" using w nf at_rest_good[OF w(2)] by simp
  obtain k where k: "s_data g = Conn k" using assms(2) by (auto simp: at_rest_def serving_def)
  have push: "fine env (Ret (begin_read HandlePush n ?w, g\<lparr>s_data := Conn (Some n)\<rparr>))" if "0 < n" for n
  proof -
    let ?r = "begin_read HandlePush n ?w"
    have "tls_inv ?r" by (rule begin_read_inv[OF w(1,3)])
    moreover have v: "view ?r = view (?w\<lparr>t_read_handler := Some HandlePush\<rparr>)" by simp
    have "serving ?r (g\<lparr>s_data := Conn (Some n)\<rparr>)" "\<not> t_auto_die ?r" "fifo_good env g"
      using viewD[OF v] w(2) that by (simp_all add: serving_def at_rest_def is_active_def)
    then have "conn_good env ?r (g\<lparr>s_data := Conn (Some n)\<rparr>)" by (simp add: conn_good_def)
    ultimately show ?thesis using nf by simp
  qed
  show ?thesis
    using rr noop push assms nf na k unresolved_ok[OF assms]
    by (auto simp: handle_connection_def Let_def split_beta send_response_def tls_write_line_eq tls_read_eq)
qed

lemma handle_push_ok:
  assumes "tls_inv tls" "fifo_good env g" "\<not> t_auto_die tls" "serving tls g" "read_idle tls"
    "s_data g = Conn (Some n)" "0 < n" "length data = n + 1" "data ! n = NUL"
  shows "fine env (handle_push env data tls g)"
proof -
  have idle: "reading tls = None" using assms(5) by (simp add: read_idle_def reading_def)
  obtain client where client: "t_id tls = Some client" using assms(4) by (auto simp: serving_def)
  have data: "data = take n data @ [NUL]"
    using assms(8,9) by (metis Suc_eq_plus1 lessI take_Suc_conv_app_nth take_all_iff order_refl)
  then have cs: "cstr data = cstr (take n data)" by (metis cstr_append_NUL')
  have rr: "fine env (respond_and_read r HandleConnection tls g')"
    if "fifo_good env g'" "s_data g' = s_data g" for r g'
    by (rule respond_and_read_ok(2))
      (use assms(1,3-5) idle that tls_inv_core[OF assms(1)] in \<open>auto simp: at_rest_def serving_def\<close>)
  show ?thesis
  proof (cases "is_authorized (e_regexec env) (e_table env) client (cstr data)")
    case True
    have en: "enabled (e_fifo env) (Submit (take n data) True) (s_fifo g)" using assms(7,8) by auto
    obtain m where m: "posix_ok (e_fifo env)" "fifo_reaches (e_fifo env) m (s_fifo g)"
      using assms(2) by (auto simp: fifo_good_def)
    obtain fifo where f: "fifo_write (e_fifo env) (s_fifo g) (take n data) True = Ret fifo"
      using fifo_handle_ok[OF m(1) fifo_reaches_inv[OF m(2,1)] en] by auto
    have r: "fifo_reaches (e_fifo env) m fifo"
      by (rule fifo_reaches.step[OF m(2) en]) (simp add: f)
    have "authorised_data env (take n data)"
      using True cs by (auto simp: authorised_data_def)
    then have "fifo_good env (g\<lparr>s_fifo := fifo\<rparr>)"
      using m(1) r assms(2) fifo_write_submits[OF f] by (auto simp: fifo_good_def submitted_iff)
    then have "fine env (respond_and_read ''OKAY'' HandleConnection tls (g\<lparr>s_fifo := fifo\<rparr>))"
      by (rule rr) simp
    then show ?thesis using True f client assms(6,8) by (simp add: handle_push_def)
  next
    case False
    then show ?thesis using rr[OF assms(2)] client assms(6,8) by (simp add: handle_push_def)
  qed
qed

section \<open>The server is a user of the TLS layer\<close>

lemma conn_good_view:
  assumes "conn_good env tls g" "view tls' = view tls" "reading tls' = reading tls"
  shows "conn_good env tls' g"
proof -
  have "closing tls' g = closing tls g"
    by (simp_all only: closing_def viewD[OF assms(2)] assms(3))
  then show ?thesis
    using assms(1) serving_view[OF assms(2,3), of g] viewD(11)[OF assms(2)] by (simp add: conn_good_def)
qed

lemma rest_of:
  assumes "conn_good env tls0 g" "view tls = view tls0" "reading tls = None" "t_error_handler tls \<noteq> None"
  shows "at_rest env tls g"
proof -
  have "serving tls0 g" using assms(1,4) viewD(7)[OF assms(2)] by (auto simp: conn_good_def closing_def)
  then obtain k where "s_data g = Conn k" by (auto simp: serving_def)
  then have "serving tls g"
    using \<open>serving tls0 g\<close> viewD[OF assms(2)] assms(3) by (simp add: serving_def)
  then show ?thesis using assms(1,3) viewD(11)[OF assms(2)] by (simp add: at_rest_def conn_good_def)
qed

lemma server_on_read:
  assumes "tls_inv tls" "read_idle tls" "conn_good env tls0 g" "reading tls0 = Some m" "view tls = view tls0"
    and "t_read_handler tls = Some h" "data_fits m d"
  shows "fine env (server_run env h (Some d) tls g)"
proof -
  have s0: "serving tls0 g" and f: "fifo_good env g" "\<not> t_auto_die tls0"
    using assms(3,4) by (auto simp: conn_good_def closing_def)
  have idle: "reading tls = None" using assms(2) by (simp add: read_idle_def reading_def)
  have rest: "at_rest env tls g"
    by (rule rest_of[OF assms(3,5) idle]) (use s0 viewD(7)[OF assms(5)] in \<open>simp add: serving_def\<close>)
  have h0: "t_read_handler tls0 = Some h" using viewD(5)[OF assms(5)] assms(6) by simp
  obtain mode n where m: "m = (mode, n)" by force
  show ?thesis
  proof (cases mode)
    case READ_LINE
    then have "h = HandleHandshake \<or> h = HandleConnection"
      using s0 h0 assms(4) m by (auto simp: serving_def)
    then show ?thesis
      using handle_handshake_ok[OF assms(1) rest assms(2)] handle_connection_ok[OF assms(1) rest assms(2)] by auto
  next
    case READ_BYTES
    then have "h = HandlePush" "s_data g = Conn (Some n)" "0 < n" "length d = n + 1" "d ! n = NUL"
      using s0 h0 assms(4,7) m by (auto simp: serving_def)
    then show ?thesis
      using handle_push_ok[OF assms(1) f(1), of n d] rest assms(2) by (simp add: at_rest_def)
  qed
qed

interpretation srv: tls_user "server_run env" "conn_good env" "conn_gone env" "{}" for env
proof (unfold_locales, goal_cases)
  case (1 tls g tls')
  show ?case by (rule conn_good_view[OF 1(1-3)])
next
  case (6 tls g h)
  then show ?case
    by (auto simp: conn_good_def serving_def closing_def handle_error_def connection_stop_def
        tls_core_def conn_gone_def)
next
  case (7 tls g tls0 m h d)
  then show ?case using server_on_read by blast
next
  case (8 tls g tls0 h)
  then have "reading tls = None" by (simp add: reading_def)
  moreover have "h = HandleTimeout" "t_error_handler tls \<noteq> None"
    using 8(3,5) viewD[OF 8(4)] by (auto simp: conn_good_def serving_def closing_def)
  ultimately show ?case
    using bail_ok[OF 8(1) rest_of[OF 8(3,4)]] 8(2) by (simp add: handle_timeout_def)
next
  case (9 tls g tls0 h)
  then have "reading tls = None" by (simp add: reading_def)
  moreover have "h = HandleLineTooLong" "t_error_handler tls \<noteq> None"
    using 9(3,4,6) viewD[OF 9(5)] by (auto simp: conn_good_def serving_def closing_def)
  ultimately show ?case
    using bail_ok[OF _ rest_of[OF 9(3,5)]] tls_inv_core[OF 9(1)] by (simp add: handle_line_too_long_def)
qed (auto simp: conn_good_def serving_def closing_def conn_gone_def)

end
