(* ===== verification/ServerProtocol.thy ===== *)
theory ServerProtocol
  imports Server
begin

text \<open>
  What the server answers, as a specification of the protocol, and the handlers of
  \<open>src/server/server.c\<close> as its implementation. A request has a reply line, or none, and
  leaves the connection waiting for a line, for an announced number of bytes, or closing.
\<close>

section \<open>The protocol\<close>

datatype next_state = NextLine server_handler | NextData nat | NextClose

type_synonym reply = "string option \<times> next_state"

text \<open>Keywords are four bytes, in any case, and only the first four bytes are compared.\<close>

definition keyword :: "string \<Rightarrow> string \<Rightarrow> bool" where
  "keyword k line \<longleftrightarrow> map tolower (take 4 line) = map tolower k"

definition exit_reply :: "string \<Rightarrow> reply \<Rightarrow> reply" where
  "exit_reply line otherwise =
     (if keyword ''QUIT'' line then (Some ''OKAY'', NextClose)
      else if keyword ''BAIL'' line then (None, NextClose)
      else otherwise)"

definition handshake_reply :: "string \<Rightarrow> reply" where
  "handshake_reply line =
     (if keyword ''MOIN'' line then
        (case wordlist line of
           [moin, version, session] \<Rightarrow>
             if atoi version \<le> 0 then (Some ''FAIL Expected protocol version'', NextLine HandleHandshake)
             else (Some ''MOIN 1'', NextLine HandleConnection)
         | _ \<Rightarrow> (Some ''FAIL Cannot parse MOIN request'', NextLine HandleHandshake))
      else if keyword ''PING'' line then (Some ''PONG 1'', NextClose)
      else exit_reply line (Some ''FAIL Expected MOIN or PING or BAIL'', NextLine HandleHandshake))"

definition push_reply :: "nat \<Rightarrow> string \<Rightarrow> reply" where
  "push_reply limit line =
     (case wordlist line of
        [push, announced] \<Rightarrow>
          if atoi announced \<le> 0 then (Some ''FAIL Expected number of bytes'', NextLine HandleConnection)
          else if limit > 0 \<and> nat (atoi announced) > limit
          then (Some ''FAIL PUSH data size too large'', NextLine HandleConnection)
          else (Some ''OKAY'', NextData (nat (atoi announced)))
      | _ \<Rightarrow> (Some ''FAIL Cannot parse PUSH request'', NextLine HandleConnection))"

definition connection_reply :: "nat \<Rightarrow> string \<Rightarrow> reply" where
  "connection_reply limit line =
     (if keyword ''PUSH'' line then push_reply limit line
      else exit_reply line (Some ''FAIL Expected PUSH or NOOP or QUIT'', NextLine HandleConnection))"

section \<open>Carrying a reply out\<close>

definition written :: "string option \<Rightarrow> bytes" where
  "written r = (case r of None \<Rightarrow> [] | Some s \<Rightarrow> s @ LINE_TERMINATOR)"

text \<open>What is to be seen of a reply on the connection and in its state.\<close>

definition awaits :: "next_state \<Rightarrow> conn \<Rightarrow> bool" where
  "awaits n tls \<longleftrightarrow>
     (case n of
        NextLine h \<Rightarrow> reading tls = Some (READ_LINE, LINE_BUFFER_SIZE) \<and> t_read_handler tls = Some h
      | NextData k \<Rightarrow> reading tls = Some (READ_BYTES, k) \<and> t_read_handler tls = Some HandlePush
      | NextClose \<Rightarrow> reading tls = None \<and> t_drain_handler tls = Some StartShutdown)"

definition data_after :: "next_state \<Rightarrow> conn_data \<Rightarrow> conn_data" where
  "data_after n d = (case n of NextLine h \<Rightarrow> d | NextData k \<Rightarrow> Conn (Some k) | NextClose \<Rightarrow> Dangling)"

definition replies :: "reply \<Rightarrow> conn \<Rightarrow> server \<Rightarrow> (conn \<times> server) outcome \<Rightarrow> bool" where
  "replies r tls g res \<longleftrightarrow>
     (\<exists>tls'. res = Ret (tls', g\<lparr>s_data := data_after (snd r) (s_data g)\<rparr>) \<and>
        t_written tls' = t_written tls @ written (fst r) \<and> awaits (snd r) tls')"

lemma keyword_strncasecmp:
  "NUL \<notin> set line \<Longrightarrow> length k = 4 \<Longrightarrow> NUL \<notin> set k \<Longrightarrow> strncasecmp k line 4 = 0 \<longleftrightarrow> keyword k line"
  by (auto simp: strncasecmp_eq_0 keyword_def)

lemma begin_read_handler [simp]: "t_read_handler (begin_read h n tls) = Some h"
  by (simp add: begin_read_def watcher_defs)

lemma respond_replies:
  assumes "tls_inv tls" "at_rest env tls g" "read_idle tls" "h \<in> {HandleHandshake, HandleConnection}"
  shows "replies (Some r, NextLine h) tls g (respond_and_read r h tls g)"
  using respond_and_read_ok(1)[of tls env g h r] assms
  by (simp add: replies_def awaits_def data_after_def written_def tls_inv_core)

lemma close_replies:
  assumes "tls_inv tls" "at_rest env tls g" "read_idle tls"
  shows "replies (None, NextClose) tls g (shutdown_and_stop tls g)"
  using shutdown_and_stop_ok(1)[OF assms(1,2)] assms(2,3)
  by (simp add: replies_def awaits_def data_after_def written_def at_rest_def)

lemma close_after_replies:
  assumes "tls_inv tls" "at_rest env tls g" "read_idle tls"
  shows "replies (Some r, NextClose) tls g
    (obind (send_response tls r) (\<lambda>tls. shutdown_and_stop tls g))"
proof -
  have "tls_inv (line_written r tls)" using assms(1) by (simp add: line_written_inv tls_inv_core)
  from close_replies[OF this] assms show ?thesis
    using tls_inv_live[OF assms(1)]
    by (simp add: send_response_def tls_write_line_eq replies_def written_def awaits_def)
qed

lemma exit_replies:
  assumes "tls_inv tls" "at_rest env tls g" "read_idle tls" "NUL \<notin> set line"
    and "h \<in> {HandleHandshake, HandleConnection}"
  shows "replies (exit_reply line (Some r, NextLine h)) tls g
    (obind (client_exited line tls g) (\<lambda>(exited, tls, g).
       if \<not> exited then respond_and_read r h tls g else Ret (tls, g)))"
proof -
  have k: "strncasecmp ''QUIT'' line 4 = 0 \<longleftrightarrow> keyword ''QUIT'' line"
    "strncasecmp ''BAIL'' line 4 = 0 \<longleftrightarrow> keyword ''BAIL'' line"
    using assms(4) by (simp_all add: keyword_strncasecmp)
  show ?thesis
    using close_replies[OF assms(1-3)] close_after_replies[OF assms(1-3), of "''OKAY''"]
      respond_replies[OF assms(1-3,5), of r]
    by (auto simp: client_exited_def k exit_reply_def replies_def obind_eq_Ret)
qed

lemma handshake_replies:
  assumes "tls_inv tls" "at_rest env tls g" "read_idle tls" "NUL \<notin> set line"
  shows "replies (handshake_reply line) tls g (handle_handshake line tls g)"
proof -
  have k: "strncasecmp ''MOIN'' line 4 = 0 \<longleftrightarrow> keyword ''MOIN'' line"
    "strncasecmp ''PING'' line 4 = 0 \<longleftrightarrow> keyword ''PING'' line"
    using assms(4) by (simp_all add: keyword_strncasecmp)
  have rr: "replies (Some r, NextLine h) tls g (respond_and_read r h tls g)" if "h \<in> {HandleHandshake, HandleConnection}" for r h
    by (rule respond_replies[OF assms(1-3) that])
  have moin: "replies (Some r, NextLine HandleConnection) tls g
      (obind (tls_set_connection_id c tls) (\<lambda>tls. respond_and_read r HandleConnection tls g))" for c r
  proof -
    obtain tls1 where c: "tls_set_connection_id c tls = Ret tls1" "tls_inv tls1" "at_rest env tls1 g" "read_idle tls1"
      using connection_id_ok[OF assms(1-3)] by blast
    have "t_written tls1 = t_written tls"
      using c(1) by (auto simp: tls_set_connection_id_def obind_eq_Ret split: option.splits)
    with respond_replies[OF c(2-4), of HandleConnection r] show ?thesis by (simp add: c(1) replies_def)
  qed
  show ?thesis
    using rr moin close_after_replies[OF assms(1-3)] exit_replies[OF assms, of HandleHandshake]
    by (simp add: handle_handshake_def handshake_reply_def k parse_line_correct Let_def split: list.split)
qed

lemma connection_replies:
  assumes "tls_inv tls" "at_rest env tls g" "read_idle tls" "NUL \<notin> set line" "\<not> keyword ''NOOP'' line"
  shows "replies (connection_reply (s_max_command_size g) line) tls g (handle_connection line tls g)"
proof -
  have k: "strncasecmp ''NOOP'' line 4 = 0 \<longleftrightarrow> keyword ''NOOP'' line"
    "strncasecmp ''PUSH'' line 4 = 0 \<longleftrightarrow> keyword ''PUSH'' line"
    using assms(4) by (simp_all add: keyword_strncasecmp)
  have rr: "replies (Some r, NextLine HandleConnection) tls g (respond_and_read r HandleConnection tls g)" for r
    by (rule respond_replies[OF assms(1-3)]) simp
  have nf: "\<not> t_freed tls" and na: "\<not> is_active ReadW tls"
    using tls_inv_live[OF assms(1)] assms(3) by (simp_all add: read_idle_def)
  obtain c where c: "s_data g = Conn c" using assms(2) by (auto simp: at_rest_def serving_def)
  have data: "replies (Some ''OKAY'', NextData n) tls g
      (obind (send_response tls ''OKAY'') (\<lambda>tls. case s_data g of
         Conn k \<Rightarrow> obind (tls_read HandlePush n tls) (\<lambda>tls. Ret (tls, g\<lparr>s_data := Conn (Some n)\<rparr>))
       | _ \<Rightarrow> Die ''use of a freed connection state''))" if "0 < n" for n
    using nf na c that
    by (simp add: send_response_def tls_write_line_eq tls_read_eq replies_def data_after_def written_def awaits_def)
  show ?thesis
  proof (cases "\<exists>p a. wordlist line = [p, a]")
    case True
    then show ?thesis
      using rr data exit_replies[OF assms(1-4), of HandleConnection] assms(5)
      by (auto simp: handle_connection_def connection_reply_def push_reply_def k parse_line_correct Let_def c)
  next
    case False
    then have "length (wordlist line) \<noteq> 2" by (auto simp: numeral_2_eq_2 length_Suc_conv)
    then show ?thesis
      using rr[of "''FAIL Cannot parse PUSH request''"] exit_replies[OF assms(1-4), of HandleConnection] assms(5) False
      by (auto simp: handle_connection_def connection_reply_def push_reply_def k parse_line_correct split: list.split)
  qed
qed

section \<open>Submissions\<close>

definition submission_reply :: "'re server_env \<Rightarrow> string \<Rightarrow> bytes \<Rightarrow> string" where
  "submission_reply env client data =
     (if is_authorized (e_regexec env) (e_table env) client (cstr data) then ''OKAY'' else ''FAIL You're not authorized'')"

lemma push_replies:
  assumes "tls_inv tls" "fifo_good env g" "\<not> t_auto_die tls" "serving tls g" "read_idle tls"
    and "s_data g = Conn (Some n)" "0 < n" "length data = n + 1" "t_id tls = Some client"
  shows "\<exists>g'. handle_push env data tls g =
      Ret (begin_read HandleConnection 0 (line_written (submission_reply env client data) tls), g') \<and>
    s_data g' = s_data g \<and>
    (if is_authorized (e_regexec env) (e_table env) client (cstr data)
     then fifo_write (e_fifo env) (s_fifo g) (take n data) True = Ret (s_fifo g')
     else g' = g)"
proof -
  have nf: "\<not> t_freed tls" and na: "\<not> is_active ReadW tls"
    using tls_inv_live[OF assms(1)] assms(5) by (simp_all add: read_idle_def)
  have rr: "respond_and_read r HandleConnection tls g' = Ret (begin_read HandleConnection 0 (line_written r tls), g')" for r g'
    using nf na by (simp add: respond_and_read_def send_response_def tls_write_line_eq tls_read_line_def tls_read_eq)
  obtain m where m: "posix_ok (e_fifo env)" "fifo_reaches (e_fifo env) m (s_fifo g)"
    using assms(2) by (auto simp: fifo_good_def)
  have "enabled (e_fifo env) (Submit (take n data) True) (s_fifo g)" using assms(7,8) by auto
  then obtain fifo where "fifo_write (e_fifo env) (s_fifo g) (take n data) True = Ret fifo"
    using fifo_handle_ok[OF m(1) fifo_reaches_inv[OF m(2,1)]] by fastforce
  then show ?thesis using assms(6,8,9) rr by (simp add: handle_push_def submission_reply_def)
qed

text \<open>A connection that waits for requests, and a server with an idle writer, as samples.\<close>

definition sample_env :: "string server_env" where
  "sample_env = \<lparr>e_regexec = (\<lambda>re s. if take 1 s = re then 0 else 1), e_fifo = sample_os, e_table = sample_table\<rparr>"

definition sample_conn :: conn where
  "sample_conn = (tls_new False 0)\<lparr>t_fd := 7, t_id := Some ''alice'', t_addr := Some ''::1'',
     t_peer := Some ''alice@::1'', t_connect_handler := Some HandleConnect, t_error_handler := Some HandleError,
     t_timeout_handler := User HandleTimeout, t_line_too_long_handler := User HandleLineTooLong\<rparr>"

definition sample_server :: server where
  "sample_server = \<lparr>s_fifo = sample_idle_fifo, s_max_command_size = 4096, s_data = Conn (Some 7)\<rparr>"

lemma sample_conn_ok:
  "tls_inv sample_conn" "at_rest sample_env sample_conn sample_server" "read_idle sample_conn"
proof -
  have na: "\<not> is_active w sample_conn" for w
    by (simp add: sample_conn_def tls_new_def is_active_def idle_watcher_def)
  show "read_idle sample_conn" using na by (simp add: read_idle_def) (simp add: sample_conn_def tls_new_def)
  have "tls_core sample_conn"
    using na by (simp add: tls_core_def) (simp add: sample_conn_def tls_new_def output_rest_def)
  then show "tls_inv sample_conn"
    using na by (simp add: tls_inv_def) (simp add: sample_conn_def tls_new_def buffer_size_def buffer_new_def)
  have "fifo_good sample_env sample_server"
    using sample_os_ok fifo_reaches.start[OF sample_idle_start]
    by (auto simp: fifo_good_def sample_env_def sample_server_def) (simp add: sample_idle_fifo_def fifo_init_def)
  then show "at_rest sample_env sample_conn sample_server"
    using na by (simp add: at_rest_def serving_def reading_def) (simp add: sample_conn_def tls_new_def sample_server_def)
qed

section \<open>Properties of the protocol\<close>

text \<open>
  Property C14. In the handshake phase every request line is answered as the protocol says:
  exactly one reply line (none for BAIL) is written, and the connection then waits for the
  line, or is shutting down, that the protocol prescribes; nothing is submitted.
\<close>

theorem handshake_protocol:
  assumes "tls_inv tls" "at_rest env tls g" "read_idle tls" "NUL \<notin> set line"
  shows "replies (handshake_reply line) tls g (handle_handshake line tls g)"
  using assms by (rule handshake_replies)

lemma handshake_protocol_witness:
  "replies (Some ''MOIN 1'', NextLine HandleConnection) sample_conn sample_server
     (handle_handshake ''moin 1 ABCDEFGH'' sample_conn sample_server)"
proof -
  have "handshake_reply ''moin 1 ABCDEFGH'' = (Some ''MOIN 1'', NextLine HandleConnection)" by code_simp
  with handshake_protocol[OF sample_conn_ok, of "''moin 1 ABCDEFGH''"] show ?thesis by simp
qed

text \<open>
  Property C13. After the handshake, every request line other than a NOOP is answered as the
  protocol says: one reply line (none for BAIL), and then the next line, the announced number
  of bytes, or the shutdown.
\<close>

theorem connection_protocol:
  assumes "tls_inv tls" "at_rest env tls g" "read_idle tls" "NUL \<notin> set line" "\<not> keyword ''NOOP'' line"
  shows "replies (connection_reply (s_max_command_size g) line) tls g (handle_connection line tls g)"
  using assms by (rule connection_replies)

lemma connection_protocol_witness:
  "replies (Some ''OKAY'', NextData 7) sample_conn sample_server (handle_connection ''PUSH 7'' sample_conn sample_server)"
proof -
  have "wordlist ''PUSH 7'' = [''PUSH'', ''7'']" "keyword ''PUSH'' ''PUSH 7''" "\<not> keyword ''NOOP'' ''PUSH 7''" "atoi ''7'' = 7"
    by code_simp+
  then have "connection_reply (s_max_command_size sample_server) ''PUSH 7'' = (Some ''OKAY'', NextData 7)"
    by (simp add: connection_reply_def push_reply_def sample_server_def)
  moreover have "\<not> keyword ''NOOP'' ''PUSH 7''" by code_simp
  ultimately show ?thesis using connection_protocol[OF sample_conn_ok, of "''PUSH 7''"] by simp
qed

text \<open>
  The number of bytes the server waits for is positive, fits an \<open>int\<close>, and does
  not exceed \<open>max_command_size\<close> (0 means no limit).
\<close>

theorem announced_size_bound:
  assumes "connection_reply limit line = (r, NextData n)"
  shows "0 < n \<and> n < 2 ^ 31 \<and> (limit = 0 \<or> n \<le> limit)"
proof -
  obtain a where "n = nat (atoi a)" "0 < atoi a" "limit = 0 \<or> n \<le> limit"
    using assms by (auto simp: connection_reply_def push_reply_def exit_reply_def split: if_splits list.splits)
  then show ?thesis using to_int_range(2)[of "fst (strtol a 10)"] by (simp add: atoi_def nat_less_iff)
qed

lemma announced_size_bound_witness: "(0 :: nat) < 7 \<and> (7 :: nat) < 2 ^ 31 \<and> (4096 = (0 :: nat) \<or> 7 \<le> (4096 :: nat))"
proof -
  have "wordlist ''PUSH 7'' = [''PUSH'', ''7'']" "keyword ''PUSH'' ''PUSH 7''" "atoi ''7'' = 7"
    by code_simp+
  then have "connection_reply 4096 ''PUSH 7'' = (Some ''OKAY'', NextData 7)"
    by (simp add: connection_reply_def push_reply_def)
  from announced_size_bound[OF this] show ?thesis .
qed

text \<open>
  Property C15. Submitted data gets exactly one reply, OKAY if and only if the command in it is
  authorised for the client's identity; then, and only then, the \<open>input_length\<close> bytes received
  go to the writer; and the connection waits for the next request.
\<close>

theorem push_protocol:
  assumes "tls_inv tls" "fifo_good env g" "\<not> t_auto_die tls" "serving tls g" "read_idle tls"
    and "s_data g = Conn (Some n)" "0 < n" "length data = n + 1" "t_id tls = Some client"
  shows "\<exists>g'. handle_push env data tls g =
      Ret (begin_read HandleConnection 0 (line_written (submission_reply env client data) tls), g') \<and>
    s_data g' = s_data g \<and>
    (if is_authorized (e_regexec env) (e_table env) client (cstr data)
     then fifo_write (e_fifo env) (s_fifo g) (take n data) True = Ret (s_fifo g')
     else g' = g)"
  using assms by (rule push_replies)

lemma push_protocol_witness:
  "handle_push sample_env (''[1] Xi'' @ [LF, NUL]) sample_conn sample_server =
     Ret (begin_read HandleConnection 0 (line_written ''FAIL You're not authorized'' sample_conn), sample_server)"
proof -
  have "\<not> is_authorized (\<lambda>re s. if take 1 s = re then 0 else 1) sample_table ''alice'' (''[1] Xi'' @ [LF])" by code_simp
  moreover have "t_id sample_conn = Some ''alice''" by (simp add: sample_conn_def)
  ultimately show ?thesis
    using push_protocol[of sample_conn sample_env sample_server 7 "''[1] Xi'' @ [LF, NUL]" "''alice''"] sample_conn_ok
    by (simp add: at_rest_def submission_reply_def sample_env_def) (simp add: sample_server_def tls_new_def)
qed

text \<open>
  A NOOP is answered OKAY, but afterwards the connection waits for nothing: no
  request for a line is issued and no shutdown is pending, so the client's next line is never
  read (the protocol has NOOP followed by further requests).
\<close>

theorem noop_stalls:
  assumes "tls_inv tls" "at_rest env tls g" "read_idle tls" "NUL \<notin> set line" "keyword ''NOOP'' line"
  shows "\<exists>tls'. handle_connection line tls g = Ret (tls', g) \<and>
    t_written tls' = t_written tls @ ''OKAY'' @ LINE_TERMINATOR \<and>
    reading tls' = None \<and> t_drain_handler tls' = None"
proof -
  have "strncasecmp ''NOOP'' line 4 = 0" using assms(4,5) by (simp add: keyword_strncasecmp)
  then show ?thesis
    using assms(2) tls_inv_live[OF assms(1)]
    by (simp add: handle_connection_def send_response_def tls_write_line_eq at_rest_def serving_def)
qed

lemma noop_stalls_witness:
  "\<exists>tls'. handle_connection ''NOOP'' sample_conn sample_server = Ret (tls', sample_server) \<and> reading tls' = None"
proof -
  have "keyword ''NOOP'' ''NOOP''" by (simp add: keyword_def)
  then show ?thesis using noop_stalls[OF sample_conn_ok, of "''NOOP''"] by auto
qed

text \<open>
  Property C31. The authorisation only sees the data up to its first NUL byte, the writer gets
  all of it: whatever a client appends to an authorised command, behind a NUL byte, is
  submitted along with it.
\<close>

theorem nul_hides_data:
  assumes "tls_inv tls" "fifo_good env g" "\<not> t_auto_die tls" "serving tls g" "read_idle tls"
    and "t_id tls = Some client" "NUL \<notin> set command"
    and "is_authorized (e_regexec env) (e_table env) client command"
    and "s_data g = Conn (Some (length command + 1 + length hidden))"
  shows "\<exists>tls' g'. handle_push env (command @ [NUL] @ hidden @ [NUL]) tls g = Ret (tls', g') \<and>
    Submitted (command @ [NUL] @ hidden) \<in> set (f_trace (s_fifo g'))"
proof -
  let ?data = "command @ [NUL] @ hidden @ [NUL]"
  have c: "cstr ?data = command" unfolding cstr_def by (subst takeWhile_append2) (use assms(7) in auto)
  obtain tls' g' where p: "handle_push env ?data tls g = Ret (tls', g')"
    "fifo_write (e_fifo env) (s_fifo g) (take (length command + 1 + length hidden) ?data) True = Ret (s_fifo g')"
    using push_replies[OF assms(1-5,9), of ?data client] assms(6,8) c by auto
  with fifo_write_submits[OF p(2)] show ?thesis by (auto simp: submitted_iff)
qed

lemma nul_hides_data_witness:
  "\<exists>tls' g'. handle_push sample_env (''[1] hi'' @ [LF, NUL] @ ''[1] X'' @ [LF, NUL]) sample_conn
      (sample_server\<lparr>s_data := Conn (Some 14)\<rparr>) = Ret (tls', g') \<and>
     Submitted (''[1] hi'' @ [LF, NUL] @ ''[1] X'' @ [LF]) \<in> set (f_trace (s_fifo g'))"
proof -
  have "is_authorized (\<lambda>re s. if take 1 s = re then 0 else 1) sample_table ''alice'' (''[1] hi'' @ [LF])" by code_simp
  moreover have "serving sample_conn (sample_server\<lparr>s_data := Conn (Some 14)\<rparr>)"
    using sample_conn_ok(2) by (simp add: at_rest_def serving_def)
  ultimately show ?thesis
    using nul_hides_data[of sample_conn sample_env "sample_server\<lparr>s_data := Conn (Some 14)\<rparr>" "''alice''" "''[1] hi'' @ [LF]" "''[1] X'' @ [LF]"]
      sample_conn_ok
    by (simp add: at_rest_def sample_env_def) (simp add: sample_conn_def tls_new_def)
qed

end
