(* ===== verification/World.thy ===== *)
theory World
  imports ServerProtocol
begin

text \<open>
  The running server: \<open>server_start\<close> and \<open>server_stop\<close> of \<open>src/server/server.c\<close>, and the event
  loop around it as a step relation. A world has the command file writer and any number of
  connections, each with the object its \<open>tls->data\<close> points to. An event accepts connections,
  calls back an active watcher of one connection, or calls back a watcher of the writer, in
  any order. The invariant of the reachable worlds gives the safety of the server and the
  authorisation of everything that reaches the monitoring core.
\<close>

section \<open>Start and stop\<close>

definition server_start ::
  "openssl_env \<Rightarrow> fifo_os \<Rightarrow> string \<Rightarrow> string \<Rightarrow> string \<Rightarrow> string \<Rightarrow> nat \<Rightarrow> nat \<Rightarrow> real
    \<Rightarrow> (server_handler tls_server \<times> int \<times> server) outcome" where
  "server_start os fos listen ciphers command_file temp_directory max_command_size max_queue_size timeout =
     obind (fifo_start fos command_file temp_directory max_queue_size) (\<lambda>fifo.
     obind (tls_server_start os listen ciphers timeout HandleConnect) (\<lambda>(ctx, fd).
       Ret (ctx, fd, \<lparr>s_fifo = fifo, s_max_command_size = max_command_size, s_data = Ctx\<rparr>)))"

lemma server_start_max:
  "server_start os fos listen ciphers path dir max_cmd max_queue timeout = Ret (ctx, fd, g) \<Longrightarrow> s_max_command_size g = max_cmd"
  by (auto simp: server_start_def obind_eq_Ret split: prod.splits)

definition server_stop :: "server \<Rightarrow> fifo_state" where
  "server_stop g = fifo_stop (s_fifo g)"

section \<open>Worlds and events\<close>

record world =
  w_conns :: "(conn \<times> conn_data) list"
  w_fifo :: fifo_state
  w_max_command_size :: nat

datatype world_event =
    Accepts "accepted list" real
  | OnConn nat conn_event real
  | OnFifo fifo_input

fun conn_handle ::
  "ssl_env \<Rightarrow> 're server_env \<Rightarrow> conn_event \<Rightarrow> conn \<Rightarrow> server \<Rightarrow> (conn \<times> server) outcome" where
  "conn_handle ssl env Handshake tls g = tls_accept_cb ssl (server_run env) tls g"
| "conn_handle ssl env Readable tls g = tls_read_cb ssl (server_run env) tls g"
| "conn_handle ssl env Writable tls g = tls_write_cb ssl (server_run env) tls g"
| "conn_handle ssl env Closable tls g = tls_shutdown_cb ssl (server_run env) tls g"
| "conn_handle ssl env TimedOut tls g = tls_timeout_cb (server_run env) (tls\<lparr>t_timer_active := False\<rparr>) g"

definition server_of :: "world \<Rightarrow> conn_data \<Rightarrow> server" where
  "server_of w d = \<lparr>s_fifo = w_fifo w, s_max_command_size = w_max_command_size w, s_data = d\<rparr>"

fun world_enabled :: "fifo_os \<Rightarrow> world_event \<Rightarrow> world \<Rightarrow> bool" where
  "world_enabled fos (Accepts as now) w = True"
| "world_enabled fos (OnConn i ev now) w = (i < length (w_conns w) \<and> conn_enabled ev (fst (w_conns w ! i)))"
| "world_enabled fos (OnFifo inp) w = ((case inp of Submit d owned \<Rightarrow> False | _ \<Rightarrow> True) \<and> enabled fos inp (w_fifo w))"

fun world_step ::
  "(nat \<Rightarrow> ssl_env) \<Rightarrow> 're server_env \<Rightarrow> real \<Rightarrow> world_event \<Rightarrow> world \<Rightarrow> world outcome" where
  "world_step ssl env timeout (Accepts as now) w =
     obind (accept_tcp_cb \<lparr>ts_connect_handler = HandleConnect, ts_timeout = timeout\<rparr> now as) (\<lambda>conns.
       Ret (w\<lparr>w_conns := w_conns w @ map (\<lambda>tls. (tls, Ctx)) conns\<rparr>))"
| "world_step ssl env timeout (OnConn i ev now) w =
     (let (tls, d) = w_conns w ! i in
      obind (conn_handle (ssl i) env ev (tls\<lparr>t_now := now\<rparr>) (server_of w d)) (\<lambda>(tls, g).
        Ret (w\<lparr>w_conns := (w_conns w)[i := (tls, s_data g)], w_fifo := s_fifo g\<rparr>)))"
| "world_step ssl env timeout (OnFifo inp) w =
     obind (fifo_handle (e_fifo env) inp (w_fifo w)) (\<lambda>fifo. Ret (w\<lparr>w_fifo := fifo\<rparr>))"

inductive world_reaches :: "(nat \<Rightarrow> ssl_env) \<Rightarrow> 're server_env \<Rightarrow> real \<Rightarrow> world \<Rightarrow> bool"
  for ssl env timeout where
  world_start: "server_start os (e_fifo env) listen ciphers path dir max_cmd max_queue timeout = Ret (ctx, fd, g) \<Longrightarrow>
    world_reaches ssl env timeout \<lparr>w_conns = [], w_fifo = s_fifo g, w_max_command_size = max_cmd\<rparr>"
| world_next: "world_reaches ssl env timeout w \<Longrightarrow> world_enabled (e_fifo env) ev w \<Longrightarrow>
    world_step ssl env timeout ev w = Ret w' \<Longrightarrow> world_reaches ssl env timeout w'"

inductive_cases world_reachesE: "world_reaches ssl env timeout w"

section \<open>Invariant of the worlds\<close>

text \<open>A connection in its TLS handshake: nothing has been read or written yet.\<close>

definition starting :: "conn \<Rightarrow> server \<Rightarrow> bool" where
  "starting tls g \<longleftrightarrow> (\<forall>w. is_active w tls = (w = InitW)) \<and> read_idle tls \<and> s_data g = Ctx \<and>
     t_error_handler tls = None \<and> t_timeout_handler tls = Default \<and> t_drain_handler tls = None \<and>
     t_connect_handler tls = Some HandleConnect \<and> t_addr tls \<noteq> None \<and> \<not> t_auto_die tls"

text \<open>A freed connection has no active watcher, and its own state has been freed as well.\<close>

definition conn_ok :: "'re server_env \<Rightarrow> conn \<Rightarrow> server \<Rightarrow> bool" where
  "conn_ok env tls g \<longleftrightarrow>
     (if t_freed tls then asleep tls \<and> (\<forall>k. s_data g \<noteq> Conn k)
      else tls_inv tls \<and> (starting tls g \<or> conn_good env tls g))"

definition world_inv :: "'re server_env \<Rightarrow> world \<Rightarrow> bool" where
  "world_inv env w \<longleftrightarrow> fifo_good env (server_of w Ctx) \<and>
     (\<forall>(tls, d) \<in> set (w_conns w). conn_ok env tls (server_of w d))"

lemma server_of_simps [simp]:
  "s_fifo (server_of w d) = w_fifo w" "s_data (server_of w d) = d"
  by (simp_all add: server_of_def)

lemma conn_ok_fifo:
  "conn_ok env tls g \<Longrightarrow> fifo_good env g' \<Longrightarrow> s_data g' = s_data g \<Longrightarrow> conn_ok env tls g'"
  by (auto simp: conn_ok_def conn_good_def starting_def serving_def closing_def)

lemma fine_conn_ok: "fine env (Ret (tls, g)) \<Longrightarrow> conn_ok env tls g \<and> fifo_good env g"
  by (auto simp: conn_ok_def conn_gone_def conn_good_def split: if_splits)

lemma fine_returns:
  "fine env r \<Longrightarrow> \<exists>tls' g'. r = Ret (tls', g') \<and> fifo_good env g' \<and> conn_ok env tls' g'"
  by (cases r) (force dest: fine_conn_ok simp del: tls_settled_simps(2))+

section \<open>The handshake\<close>

lemma accept_one_ok:
  assumes "accept_one \<lparr>ts_connect_handler = HandleConnect, ts_timeout = timeout\<rparr> now a = Ret tls"
    "\<not> t_freed tls" "s_data g = Ctx"
  shows "conn_ok env tls g"
proof -
  obtain addr where a: "acc_addr a = Some addr" "acc_ssl a"
    using assms(1,2) by (auto simp: accept_one_def tls_free_def live_def Let_def obind_eq_Ret split: option.splits if_splits)
  define t0 where "t0 = (tls_new False now :: conn)\<lparr>t_fd := acc_fd a,
    t_connect_handler := Some HandleConnect, t_timeout := timeout, t_addr := Some addr\<rparr>"
  obtain t1 where t1: "tls_on_timeout Default t0 = Ret t1" "t1 = t0\<lparr>t_timer_after := t_timer_after t1,
      t_timer_active := t_timer_active t1\<rparr>"
    by (cases "timeout > 0")
      (simp_all add: tls_on_timeout_def live_def Let_def t0_def tls_new_def ev_timer_start_def)
  have eq: "tls = kick InitW EV_READ t1"
    using assms(1) a t1(1) by (simp add: accept_one_def t0_def)
  have eq': "tls = kick InitW EV_READ (t0\<lparr>t_timer_after := t_timer_after t1, t_timer_active := t_timer_active t1\<rparr>)"
    using eq t1(2) by simp
  have f: "is_active w tls = (w = InitW)" "read_idle tls" for w
    by (auto simp: eq' t0_def tls_new_def idle_watcher_def watcher_defs read_idle_def)
  have "tls_inv tls"
    by (rule new_conn_inv) (simp_all add: f, simp_all add: eq' t0_def tls_new_def watcher_defs)
  moreover have "starting tls g"
    using f assms(3) by (simp add: starting_def) (simp add: eq' t0_def tls_new_def watcher_defs)
  ultimately show ?thesis using assms(2) by (simp add: conn_ok_def)
qed

lemma accept_one_returns: "\<exists>tls. accept_one ctx now a = Ret tls"
  by (auto simp: accept_one_def tls_free_def tls_on_timeout_def live_def Let_def tls_new_def ev_timer_start_def
      split: option.splits)

lemma accept_tcp_cb_ok:
  "\<exists>conns. accept_tcp_cb ctx now as = Ret conns \<and>
    (\<forall>tls \<in> set conns. \<not> t_freed tls \<and> (\<exists>a \<in> set as. accept_one ctx now a = Ret tls))"
proof (induction as)
  case (Cons a as)
  obtain tls where "accept_one ctx now a = Ret tls" using accept_one_returns by blast
  with Cons show ?case by auto
qed simp

lemma handle_connect_ok:
  assumes "tls_inv tls" "read_idle tls" "\<not> is_active InitW tls" "s_data g = Ctx" "t_drain_handler tls = None"
    "t_id tls \<noteq> None" "t_peer tls \<noteq> None" "\<not> t_auto_die tls" "fifo_good env g"
  shows "fine env (handle_connect tls g)"
proof -
  have nf: "\<not> t_freed tls" using tls_inv_live[OF assms(1)] .
  obtain a d l where t: "tls_on_timeout (User HandleTimeout) tls =
     Ret (tls\<lparr>t_timer_active := a, t_timer_after := d, t_timeout_handler := User HandleTimeout, t_last_activity := l\<rparr>)"
    using tls_on_timeout_eq[OF nf] by blast
  let ?tls = "tls\<lparr>t_timer_active := a, t_timer_after := d, t_timeout_handler := User HandleTimeout, t_last_activity := l,
    t_error_handler := Some HandleError, t_line_too_long_handler := User HandleLineTooLong\<rparr>"
  have na: "\<not> is_active w ?tls \<longleftrightarrow> \<not> is_active w tls" for w by (simp add: is_active_def)
  have ri: "read_idle ?tls" using assms(2) by (simp add: read_idle_def is_active_def)
  have core: "tls_core tls" using assms(1) by (simp add: tls_inv_def)
  have "tls_core ?tls"
    by (rule tls_core_same[OF core]) (use ri in \<open>simp_all add: read_idle_def\<close>)
  then have "tls_inv ?tls"
    by (rule tls_inv_same[OF assms(1)]) (simp_all add: is_active_def)
  let ?r = "begin_read HandleHandshake 0 ?tls"
  have inv: "tls_inv ?r" by (rule begin_read_inv[OF \<open>tls_inv ?tls\<close> ri])
  have v: "view ?r = view (?tls\<lparr>t_read_handler := Some HandleHandshake\<rparr>)" by simp
  have "serving ?r (g\<lparr>s_data := Conn None\<rparr>)" "\<not> t_auto_die ?r"
    using viewD[OF v] assms(3,5-8) na[of InitW] by (simp_all add: serving_def)
  then have "conn_good env ?r (g\<lparr>s_data := Conn None\<rparr>)" using assms(9) by (simp add: conn_good_def)
  moreover have "\<not> is_active ReadW ?tls" using ri by (simp add: read_idle_def)
  ultimately show ?thesis
    using t nf inv assms(4)
    by (simp add: handle_connect_def tls_on_error_def tls_on_line_too_long_def tls_read_line_def tls_read_eq live_def)
qed

lemma activity_starting [simp]:
  "starting (tls_tick (tls\<lparr>t_last_activity := x\<rparr>)) g = starting tls g"
  "starting (tls\<lparr>t_timer_active := a\<rparr>) g = starting tls g"
  "starting (ev_timer_start d tls) g = starting tls g"
  "starting (tls\<lparr>t_now := x\<rparr>) g = starting tls g"
  by (simp_all add: starting_def read_idle_def tls_tick_def is_active_def ev_timer_start_def)

lemma wait_for_starting [simp]: "starting tls g \<Longrightarrow> starting (wait_for InitW ev tls) g"
  by (auto simp: starting_def read_idle_def watcher_defs)

lemma freed_ok:
  assumes "tls_core tls" "s_data g = Ctx"
  shows "\<exists>tls'. tls_free tls = Ret tls' \<and> conn_ok env tls' g"
  using tls_free_eq[of tls] assms by (auto simp: tls_core_def conn_ok_def)

lemma tls_accept_cb_ok:
  assumes "tls_inv tls" "starting tls g" "fifo_good env g"
  shows "\<exists>tls' g'. tls_accept_cb ssl (server_run env) tls g = Ret (tls', g') \<and> fifo_good env g' \<and> conn_ok env tls' g'"
proof -
  let ?t = "tls_tick (tls\<lparr>t_last_activity := t_now tls\<rparr>)"
  have l: "live tls = Ret ()" using tls_inv_live[OF assms(1)] by (simp add: live_def)
  have t: "tls_inv ?t" "starting ?t g" "live ?t = Ret ()"
    using assms(1,2) l by (simp, simp, simp add: live_def tls_tick_def)
  have s: "s_data g = Ctx" using assms(2) by (simp add: starting_def)
  show ?thesis
  proof (cases "ssl_accept ssl (t_calls tls)")
    case (Some err)
    have w: "conn_ok env (wait_for InitW ev ?t) g" for ev
      using wait_for_inv[OF t(1), of InitW ev] t(2) tls_inv_live[OF wait_for_inv[OF t(1), of InitW ev]]
      by (simp add: conn_ok_def) (simp add: starting_def)
    have i: "conn_ok env ?t g" using t tls_inv_live[OF t(1)] by (simp add: conn_ok_def)
    from freed_ok[OF _ s, of ?t env] t(1) obtain tls' where f: "tls_free ?t = Ret tls'" "conn_ok env tls' g"
      by (auto simp: tls_inv_def)
    have "\<not> t_auto_die ?t" "t_error_handler ?t = None" using t(2) by (simp_all add: starting_def)
    then have fl: "tls_failed (server_run env) ?t g = Ret (tls', g)"
      using f(1) by (simp add: tls_failed_def complain_def)
    show ?thesis
      using l Some w i f(2) fl t(3) assms(3)
      by (cases err) (simp_all add: tls_accept_cb_def check_tls_error_def Let_def)
  next
    case None
    let ?u = "?t\<lparr>t_id := ssl_app_data ssl (t_calls tls)\<rparr>"
    have core: "tls_core ?t" using t(1) by (simp add: tls_inv_def)
    show ?thesis
    proof (cases "ssl_app_data ssl (t_calls tls)")
      case no_id: None
      have "tls_core ?u"
        by (rule tls_core_same[OF core]) (use assms(2) in \<open>simp_all add: starting_def tls_tick_def is_active_def\<close>)
      from freed_ok[OF this s, of env] show ?thesis
        using l None no_id assms(3) by (auto simp: tls_accept_cb_def Let_def)
    next
      case (Some c)
      let ?p = "?u\<lparr>t_peer := Some (c @ ''@'' @ the (t_addr tls))\<rparr>"
      let ?s = "ev_io_stop InitW ?p"
      have idle: "read_idle ?s" using assms(2) by (simp add: starting_def read_idle_def watcher_defs)
      then have act: "\<not> is_active w ?s" for w
        using assms(2) by (auto simp: starting_def watcher_defs)
      have "tls_core ?s"
        by (rule tls_core_same[OF core]) (use act[of ReadW] in \<open>simp_all add: watcher_defs\<close>)
      moreover have "t_output ?s = t_output ?t" "t_output_buffer ?s = t_output_buffer ?t"
        "t_drain_handler ?s = None" "\<not> is_active WriteW ?t"
        using t(2) by (simp_all add: starting_def watcher_defs)
      ultimately have "tls_inv ?s"
        using t(1) act[of WriteW] act[of ShutdownW] by (simp add: tls_inv_def)
      moreover have "t_drain_handler ?s = None" "t_id ?s \<noteq> None" "t_peer ?s \<noteq> None" "\<not> t_auto_die ?s"
        "t_connect_handler ?s = Some HandleConnect"
        using assms(2) Some by (simp_all add: starting_def watcher_defs)
      ultimately have "fine env (handle_connect ?s g)"
        using handle_connect_ok[OF _ idle act s] assms(3) by simp
      moreover have "tls_accept_cb ssl (server_run env) tls g = handle_connect ?s g"
        using l None Some assms(2)
        by (simp add: tls_accept_cb_def Let_def starting_def) (simp add: watcher_defs)
      ultimately show ?thesis using fine_returns by metis
    qed
  qed
qed

section \<open>Every event keeps the invariant\<close>

lemma conn_handle_ok:
  assumes "ssl_ok ssl" "conn_ok env tls g" "fifo_good env g" "conn_enabled ev tls"
  shows "\<exists>tls' g'. conn_handle ssl env ev tls g = Ret (tls', g') \<and> fifo_good env g' \<and> conn_ok env tls' g'"
proof -
  have "\<not> t_freed tls"
    using assms(2,4) by (cases ev) (auto simp: conn_ok_def asleep_def split: if_splits)
  then have inv: "tls_inv tls" "starting tls g \<or> conn_good env tls g"
    using assms(2) by (simp_all add: conn_ok_def)
  show ?thesis
  proof (cases "starting tls g")
    case False
    then have g: "conn_good env tls g" using inv(2) by simp
    then have "\<not> is_active InitW tls" by (auto simp: conn_good_def serving_def closing_def)
    then show ?thesis
      using fine_returns[OF srv.tls_read_cb_ok[OF assms(1) inv(1) g]] fine_returns[OF srv.tls_write_cb_ok[OF assms(1) inv(1) g]]
        fine_returns[OF srv.tls_shutdown_cb_ok[OF inv(1) g]] fine_returns[OF srv.tls_timeout_cb_ok[OF inv(1) g]] assms(4)
      by (cases ev) auto
  next
    case True
    then have ev: "ev = Handshake \<or> ev = TimedOut" using assms(4) by (cases ev) (auto simp: starting_def)
    let ?t = "tls\<lparr>t_timer_active := False\<rparr>"
    have t: "tls_inv ?t" "starting ?t g" "tls_core ?t" using inv(1) True by (simp_all add: tls_inv_core)
    let ?s = "ev_timer_start (t_timeout tls) (stop_all_io ?t)"
    have "tls_core ?s" using t(3) by simp
    from freed_ok[OF this, of g env] True obtain tls' where f: "tls_free ?s = Ret tls'" "conn_ok env tls' g"
      by (auto simp: starting_def)
    have r: "conn_ok env (ev_timer_start d ?t) g" for d
      using t tls_inv_live[OF t(1)] by (simp add: conn_ok_def)
    have "t_timeout (stop_all_io ?t) = t_timeout tls" "t_timeout_handler (stop_all_io ?t) = Default" "\<not> t_auto_die tls"
      using True by (simp_all add: starting_def watcher_defs)
    then have "\<exists>tls'. tls_timeout_cb (server_run env) ?t g = Ret (tls', g) \<and> conn_ok env tls' g"
      using f r tls_inv_live[OF inv(1)]
      by (simp add: tls_timeout_cb_def live_def Let_def complain_def run_default_def) (simp add: stop_all_io_def)
    then show ?thesis
      using ev tls_accept_cb_ok[OF inv(1) True assms(3)] assms(3) by auto
  qed
qed

lemma world_invD:
  assumes "world_inv env w"
  shows "fifo_good env (server_of w d)" "(tls, d) \<in> set (w_conns w) \<Longrightarrow> conn_ok env tls (server_of w d)"
  using assms by (auto simp: world_inv_def fifo_good_def)

lemma world_invI:
  assumes "fifo_good env (server_of w Ctx)" "\<And>tls d. (tls, d) \<in> set (w_conns w) \<Longrightarrow> conn_ok env tls (server_of w d)"
  shows "world_inv env w"
  using assms by (auto simp: world_inv_def)

lemma conn_kept:
  assumes "world_inv env w" "(tls, d) \<in> set (w_conns w)" "fifo_good env (server_of w' d)"
  shows "conn_ok env tls (server_of w' d)"
  by (rule conn_ok_fifo[OF world_invD(2)[OF assms(1,2)] assms(3)]) simp

lemma conn_ok_now [simp]: "conn_ok env (tls\<lparr>t_now := x\<rparr>) g = conn_ok env tls g"
proof -
  have f: "t_freed (tls\<lparr>t_now := x\<rparr>) = t_freed tls" "asleep (tls\<lparr>t_now := x\<rparr>) = asleep tls"
    by (simp_all add: asleep_def)
  have "conn_good env (tls\<lparr>t_now := x\<rparr>) g = conn_good env tls g"
    using conn_good_view[of env tls g "tls\<lparr>t_now := x\<rparr>"] conn_good_view[of env "tls\<lparr>t_now := x\<rparr>" g tls] by auto
  then show ?thesis unfolding conn_ok_def f by simp
qed



lemma accepts_step_ok:
  assumes "world_inv env w"
  shows "\<exists>w'. world_step ssl env timeout (Accepts as now) w = Ret w' \<and> world_inv env w'"
proof -
  let ?ctx = "\<lparr>ts_connect_handler = HandleConnect, ts_timeout = timeout\<rparr>"
  from accept_tcp_cb_ok[of ?ctx now as] obtain conns where c: "accept_tcp_cb ?ctx now as = Ret conns"
    "\<forall>tls \<in> set conns. \<not> t_freed tls \<and> (\<exists>a \<in> set as. accept_one ?ctx now a = Ret tls)"
    by (elim exE conjE) (rule that; assumption)
  let ?w = "w\<lparr>w_conns := w_conns w @ map (\<lambda>tls. (tls, Ctx)) conns\<rparr>"
  have s: "server_of ?w d = server_of w d" for d by (simp add: server_of_def)
  have new: "conn_ok env tls (server_of w Ctx)" if tls: "tls \<in> set conns" for tls
  proof -
    obtain a where "accept_one ?ctx now a = Ret tls" using c(2) tls by blast
    then show ?thesis by (rule accept_one_ok) (use c(2) tls in auto)
  qed
  have "world_inv env ?w"
  proof (rule world_invI; unfold s)
    show "fifo_good env (server_of w Ctx)" by (rule world_invD(1)[OF assms])
    fix tls d assume "(tls, d) \<in> set (w_conns ?w)"
    then consider "(tls, d) \<in> set (w_conns w)" | "tls \<in> set conns" "d = Ctx" by auto
    then show "conn_ok env tls (server_of w d)" using new world_invD(2)[OF assms] by cases auto
  qed
  then show ?thesis using c(1) by simp
qed

lemma conn_step_ok:
  assumes "world_inv env w" "ssl_ok (ssl i)" "i < length (w_conns w)" "conn_enabled e (fst (w_conns w ! i))"
  shows "\<exists>w'. world_step ssl env timeout (OnConn i e now) w = Ret w' \<and> world_inv env w'"
proof -
  obtain tls d where i: "w_conns w ! i = (tls, d)" by force
  have m: "(tls, d) \<in> set (w_conns w)" using nth_mem[OF assms(3)] i by simp
  let ?t = "tls\<lparr>t_now := now\<rparr>"
  have "conn_ok env ?t (server_of w d)" using world_invD(2)[OF assms(1) m] by simp
  moreover have "conn_enabled e ?t" using assms(4) i by simp
  ultimately obtain tls' g' where h: "conn_handle (ssl i) env e ?t (server_of w d) = Ret (tls', g')"
    "fifo_good env g'" "conn_ok env tls' g'"
    using conn_handle_ok[OF assms(2) _ world_invD(1)[OF assms(1)]] by blast
  let ?w = "w\<lparr>w_conns := (w_conns w)[i := (tls', s_data g')], w_fifo := s_fifo g'\<rparr>"
  have g: "fifo_good env (server_of ?w d)" for d using h(2) by (simp add: fifo_good_def)
  have new: "conn_ok env tls' (server_of ?w (s_data g'))" by (rule conn_ok_fifo[OF h(3) g]) simp
  have "world_inv env ?w"
  proof (rule world_invI[OF g])
    fix t d' assume "(t, d') \<in> set (w_conns ?w)"
    then consider "(t, d') \<in> set (w_conns w)" | "t = tls'" "d' = s_data g'"
      using set_update_subset_insert[of "w_conns w" i "(tls', s_data g')"] by auto
    then show "conn_ok env t (server_of ?w d')" using new conn_kept[OF assms(1) _ g] by cases auto
  qed
  then show ?thesis using i h(1) by simp
qed

lemma fifo_step_ok:
  assumes "world_inv env w" "enabled (e_fifo env) inp (w_fifo w)" "\<forall>d owned. inp \<noteq> Submit d owned"
  shows "\<exists>w'. world_step ssl env timeout (OnFifo inp) w = Ret w' \<and> world_inv env w'"
proof -
  have good: "fifo_good env (server_of w Ctx)" by (rule world_invD(1)[OF assms(1)])
  then obtain m where m: "posix_ok (e_fifo env)" "fifo_reaches (e_fifo env) m (w_fifo w)"
    by (auto simp: fifo_good_def)
  obtain fifo where f: "fifo_handle (e_fifo env) inp (w_fifo w) = Ret fifo"
    using fifo_handle_ok[OF m(1) fifo_reaches_inv[OF m(2,1)] assms(2)] by auto
  then have r: "fifo_reaches (e_fifo env) m fifo" by (rule fifo_reaches.step[OF m(2) assms(2)])
  let ?w = "w\<lparr>w_fifo := fifo\<rparr>"
  have "authorised_data env d" if "d \<in> set (submitted (f_trace fifo))" for d
    using that fifo_handle_submits[OF f assms(3)] good
    by (auto simp: own_submission_def fifo_good_def submitted_iff authorised_data_def)
  then have g: "fifo_good env (server_of ?w d)" for d using m(1) r by (auto simp: fifo_good_def submitted_iff)
  have "world_inv env ?w"
    by (rule world_invI[OF g]) (use conn_kept[OF assms(1) _ g] in simp)
  then show ?thesis using f by simp
qed

lemma world_step_ok:
  assumes "world_inv env w" "\<forall>i. ssl_ok (ssl i)" "world_enabled (e_fifo env) ev w"
  shows "\<exists>w'. world_step ssl env timeout ev w = Ret w' \<and> world_inv env w'"
  using assms accepts_step_ok[OF assms(1)] conn_step_ok[OF assms(1)] fifo_step_ok[OF assms(1)]
  by (cases ev) (auto simp del: world_step.simps split: fifo_input.splits)

lemma world_reaches_inv:
  assumes "world_reaches ssl env timeout w" "posix_ok (e_fifo env)" "\<forall>i. ssl_ok (ssl i)"
  shows "world_inv env w"
  using assms(1)
proof induction
  case (world_start os listen ciphers path dir max_cmd max_queue ctx fd g)
  then have f: "fifo_start (e_fifo env) path dir max_queue = Ret (s_fifo g)"
    by (auto simp: server_start_def obind_eq_Ret)
  then have "fifo_reaches (e_fifo env) max_queue (s_fifo g)" by (rule fifo_reaches.start)
  moreover have "submitted (f_trace (s_fifo g)) = []" by (rule fifo_start_submits[OF f])
  ultimately show ?case using assms(2) by (auto simp: world_inv_def fifo_good_def submitted_iff)
next
  case (world_next w ev w')
  then show ?case using world_step_ok[of env w ssl ev timeout] assms(3) by auto
qed

end
