(* ===== verification/ServerRun.thy ===== *)
theory ServerRun
  imports World
begin

text \<open>
  Runs of the server as lists of events, a sample run in which a client connects, greets and
  submits a command, and the properties of all reachable worlds.
\<close>

section \<open>Running the server\<close>

fun world_run ::
  "(nat \<Rightarrow> ssl_env) \<Rightarrow> 're server_env \<Rightarrow> real \<Rightarrow> world_event list \<Rightarrow> world \<Rightarrow> world outcome" where
  "world_run ssl env timeout [] w = Ret w"
| "world_run ssl env timeout (ev # evs) w =
     (if world_enabled (e_fifo env) ev w then obind (world_step ssl env timeout ev w) (world_run ssl env timeout evs)
      else Die ''no such event'')"

lemma world_run_reaches:
  "world_reaches ssl env timeout w \<Longrightarrow> world_run ssl env timeout evs w = Ret w' \<Longrightarrow> world_reaches ssl env timeout w'"
proof (induction evs arbitrary: w)
  case (Cons ev evs)
  then obtain w1 where "world_enabled (e_fifo env) ev w" "world_step ssl env timeout ev w = Ret w1"
    "world_run ssl env timeout evs w1 = Ret w'"
    by (auto simp: obind_eq_Ret split: if_splits)
  with Cons.IH[OF world_next[OF Cons.prems(1)]] show ?case by simp
qed simp

text \<open>A client that says MOIN and submits a command of seven bytes.\<close>

definition sample_ssl :: ssl_env where
  "sample_ssl = \<lparr>ssl_connect = (\<lambda>_. None), ssl_accept = (\<lambda>_. None),
     ssl_read = (\<lambda>k n. if n = 0 then Inl UnknownError else if k = 1 then Inr (take n (''MOIN 1 ABCDEFGH'' @ LINE_TERMINATOR))
       else if k = 3 then Inr (take n (''PUSH 7'' @ LINE_TERMINATOR))
       else if k = 5 then Inr (take n (''[1] hi'' @ [LF])) else Inl ZeroReturn),
     ssl_write = (\<lambda>k bs. if bs = [] then Inl UnknownError else Inr (length bs)), ssl_shutdown = (\<lambda>_. (0, ShutdownDone)),
     ssl_app_data = (\<lambda>_. Some ''alice''), ssl_bio_fd = (\<lambda>_. 0)\<rparr>"

definition sample_openssl :: openssl_env where
  "sample_openssl = \<lparr>os_ctx_new = True, os_cipher_list = (\<lambda>_. True), os_new_accept = (\<lambda>_. True), os_bio_new = True,
     os_do_accept = True, os_bio_fd = 3, os_new_connect = (\<lambda>_. True), os_ssl_new = True\<rparr>"

definition sample_start :: world where
  "sample_start = \<lparr>w_conns = [], w_fifo = sample_idle_fifo,
     w_max_command_size = 0\<rparr>"

definition sample_events :: "world_event list" where
  "sample_events = [Accepts [\<lparr>acc_fd = 7, acc_addr = Some ''::1'', acc_ssl = True\<rparr>] 0,
     OnConn 0 Handshake 0, OnConn 0 Readable 0, OnConn 0 Writable 0, OnConn 0 Readable 0,
     OnConn 0 Writable 0, OnConn 0 Readable 0]"

text \<open>The definitions a run unfolds, in one bundle; the strings of the sample are evaluated beforehand.\<close>

lemmas run_simps = tls_run_simps
  send_response_def connection_stop_def shutdown_and_stop_def bail_def client_exited_def
  respond_and_read_def handle_connect_def handle_handshake_def handle_connection_def
  handle_push_def handle_error_def handle_timeout_def handle_line_too_long_def REG_NOMATCH_def
  match_cmd_def lookup_auth_def check_psk_def tick_def note_event_def out_bytes_def
  lose_output_def buffers_are_empty_def buffers_exceed_pipe_size_def free_output_def
  join_buffers_def open_dump_file_def close_dump_file_def process_file_command_def
  make_process_file_command_def slurp_output_def write_done_def write_failed_def
  async_dump_data_def dispatch_data_def fifo_write_def async_cb_def sync_dump_data_def idle_cb_def
  timeout_cb_def open_cb_def fifo_start_def fifo_stop_def write_cb.simps sync_loop.simps
  server_of_def hash_lookup_def hsearch_find_def fifo_init_def

lemma sample_lines:
  "strncasecmp ''MOIN'' ''MOIN 1 ABCDEFGH'' 4 = 0"
  "parse_line ''MOIN 1 ABCDEFGH'' 3 = (True, [''MOIN'', ''1'', ''ABCDEFGH''])"
  "strncasecmp ''NOOP'' ''PUSH 7'' 4 \<noteq> 0" "strncasecmp ''PUSH'' ''PUSH 7'' 4 = 0"
  "parse_line ''PUSH 7'' 2 = (True, [''PUSH'', ''7''])" "atoi ''1'' = 1" "atoi ''7'' = 7"
  "is_authorized (\<lambda>re s. if take 1 s = re then 0 else 1) sample_table ''alice'' (''[1] hi'' @ [LF])"
  by code_simp+

lemmas sample_facts = sample_lines [simplified]

lemma sample_run:
  "\<exists>w. world_run (\<lambda>_. sample_ssl) sample_env 0 sample_events sample_start = Ret w \<and>
     f_trace (w_fifo w) = [Submitted (''[1] hi'' @ [LF]), Piped (''[1] hi'' @ [LF])] \<and>
     (\<exists>tls d. w_conns w = [(tls, d)] \<and> \<not> t_freed tls \<and> is_active WriteW tls)"
  by (simp add: run_simps sample_facts replicate_numeral_unfold sample_events_def sample_start_def
      sample_idle_fifo_def sample_env_def sample_ssl_def sample_os_def)

definition sample_started :: "server_handler tls_server \<times> int \<times> server" where
  "sample_started = (\<lparr>ts_connect_handler = HandleConnect, ts_timeout = 0\<rparr>, 3,
     \<lparr>s_fifo = sample_idle_fifo, s_max_command_size = 0, s_data = Ctx\<rparr>)"

lemma sample_server_start:
  "server_start sample_openssl sample_os ''*:5668'' ciphers ''/run/nagios.cmd'' ''/tmp'' 0 1 0 = Ret sample_started"
  using sample_idle_start
  by (simp add: server_start_def tls_server_start_def initialize_openssl_def sample_openssl_def scan_descriptor_def
      sample_started_def)

lemma sample_start_reached: "world_reaches ssl sample_env 0 sample_start"
proof -
  have "e_fifo sample_env = sample_os" by (simp add: sample_env_def)
  then have "server_start sample_openssl (e_fifo sample_env) ''*'' ''PSK'' ''/run/nagios.cmd'' ''/tmp'' 0 1 0 =
    Ret (\<lparr>ts_connect_handler = HandleConnect, ts_timeout = 0\<rparr>, 3,
      \<lparr>s_fifo = sample_idle_fifo, s_max_command_size = 0, s_data = Ctx\<rparr>)"
    using sample_idle_start
    by (simp add: server_start_def tls_server_start_def initialize_openssl_def sample_openssl_def scan_descriptor_def)
  from world_start[OF this] show ?thesis by (simp add: sample_start_def)
qed

lemma sample_env_ok: "posix_ok (e_fifo sample_env)" "\<forall>i :: nat. ssl_ok sample_ssl"
  using sample_os_ok by (simp add: sample_env_def) (auto simp: ssl_ok_def sample_ssl_def split: if_splits)

lemma sample_world:
  obtains w tls d where "world_reaches (\<lambda>_. sample_ssl) sample_env 0 w"
    "f_trace (w_fifo w) = [Submitted (''[1] hi'' @ [LF]), Piped (''[1] hi'' @ [LF])]"
    "w_conns w = [(tls, d)]" "\<not> t_freed tls" "is_active WriteW tls"
  using sample_run world_run_reaches[OF sample_start_reached] by blast

lemma world_safe:
  "world_reaches ssl env timeout w \<Longrightarrow> posix_ok (e_fifo env) \<Longrightarrow> \<forall>i. ssl_ok (ssl i) \<Longrightarrow>
   world_enabled (e_fifo env) ev w \<Longrightarrow> \<exists>w'. world_step ssl env timeout ev w = Ret w'"
  using world_step_ok[OF world_reaches_inv] by blast

lemma world_fifo:
  assumes "world_reaches ssl env timeout w" "posix_ok (e_fifo env)" "\<forall>i. ssl_ok (ssl i)"
  shows "\<exists>m. fifo_reaches (e_fifo env) m (w_fifo w)"
  using world_invD(1)[OF world_reaches_inv[OF assms], of Ctx] by (auto simp: fifo_good_def)

section \<open>Properties of the server\<close>

text \<open>
  Property C1. In every reachable state, whatever the clients, OpenSSL and the system do, the
  server handles every event that can happen: no use of a freed connection or of freed
  connection data, no double free, no second read request while one is pending, no NULL
  handler, no failing assertion and no endless loop.
\<close>

theorem server_never_fails:
  assumes "world_reaches ssl env timeout w" "posix_ok (e_fifo env)" "\<forall>i. ssl_ok (ssl i)"
    and "world_enabled (e_fifo env) ev w"
  shows "\<exists>w'. world_step ssl env timeout ev w = Ret w'"
  using world_step_ok[OF world_reaches_inv[OF assms(1-3)] assms(3,4)] by blast

lemma server_never_fails_witness:
  "\<exists>w w'. world_reaches (\<lambda>_. sample_ssl) sample_env 0 w \<and>
     world_step (\<lambda>_. sample_ssl) sample_env 0 (OnConn 0 Writable 1) w = Ret w'"
proof -
  obtain w tls d where w: "world_reaches (\<lambda>_. sample_ssl) sample_env 0 w" "w_conns w = [(tls, d)]" "is_active WriteW tls"
    by (rule sample_world)
  then have "world_enabled (e_fifo sample_env) (OnConn 0 Writable 1) w" by simp
  from server_never_fails[OF w(1) sample_env_ok this] w(1) show ?thesis by blast
qed

text \<open>
  Once a connection is freed, none of its watchers and not its timer is active,
  so no event ever calls it back, and its connection data has been freed with it.
\<close>

theorem freed_connections_rest:
  assumes "world_reaches ssl env timeout w" "posix_ok (e_fifo env)" "\<forall>i. ssl_ok (ssl i)"
    and "(tls, d) \<in> set (w_conns w)" "t_freed tls"
  shows "\<not> conn_enabled ev tls \<and> (\<forall>k. d \<noteq> Conn k)"
proof -
  have "conn_ok env tls (server_of w d)"
    by (rule world_invD(2)[OF world_reaches_inv[OF assms(1-3)] assms(4)])
  then show ?thesis using assms(5) by (cases ev) (auto simp: conn_ok_def asleep_def)
qed

text \<open>The sample client hangs up during the handshake of its second connection.\<close>

definition hangup_ssl :: ssl_env where
  "hangup_ssl = sample_ssl\<lparr>ssl_accept := (\<lambda>_. Some ZeroReturn)\<rparr>"

lemma hangup_run:
  "\<exists>w tls. world_run (\<lambda>_. hangup_ssl) sample_env 0 (take 2 sample_events) sample_start = Ret w \<and>
     w_conns w = [(tls, Ctx)] \<and> t_freed tls"
  by (simp add: run_simps sample_events_def sample_start_def sample_idle_fifo_def sample_env_def hangup_ssl_def
      sample_ssl_def sample_os_def)

lemma freed_connections_rest_witness: "\<exists>tls. t_freed (tls :: conn) \<and> \<not> conn_enabled TimedOut tls"
proof -
  have h: "\<forall>i :: nat. ssl_ok hangup_ssl" using sample_env_ok(2) by (simp add: hangup_ssl_def ssl_ok_def)
  obtain w tls where w: "world_run (\<lambda>_. hangup_ssl) sample_env 0 (take 2 sample_events) sample_start = Ret w"
    "w_conns w = [(tls, Ctx)]" "t_freed tls" using hangup_run by blast
  from freed_connections_rest[OF world_run_reaches[OF sample_start_reached w(1)] sample_env_ok(1) h, of tls Ctx TimedOut] w(2,3)
  show ?thesis by auto
qed

text \<open>
  Property C2. Everything the server ever writes to the command file is made of whole
  submissions in one atomic write, and each submission is a command that the authorisation
  accepted for some client (up to its first NUL byte), or the server's own instruction to
  process a dump file.
\<close>

theorem server_writes_authorised:
  assumes "world_reaches ssl env timeout w" "posix_ok (e_fifo env)" "\<forall>i. ssl_ok (ssl i)"
    and "Piped b \<in> set (f_trace (w_fifo w))"
  shows "length b \<le> pipe_buf (e_fifo env) \<and> (\<exists>cs. b = concat cs \<and> (\<forall>c \<in> set cs. authorised_data env c))"
proof -
  have good: "fifo_good env (server_of w Ctx)" by (rule world_invD(1)[OF world_reaches_inv[OF assms(1-3)]])
  then obtain m where m: "fifo_reaches (e_fifo env) m (w_fifo w)" by (auto simp: fifo_good_def)
  have "length b \<le> pipe_buf (e_fifo env) \<and> (\<exists>cs. b = concat cs \<and> set cs \<subseteq> set (submitted (f_trace (w_fifo w))))"
    by (rule pipe_writes_whole[OF m assms(2,4)])
  moreover have "authorised_data env d" if "d \<in> set (submitted (f_trace (w_fifo w)))" for d
    using good that by (simp add: fifo_good_def submitted_iff)
  ultimately show ?thesis by blast
qed

lemma server_writes_authorised_witness:
  "\<exists>w. world_reaches (\<lambda>_. sample_ssl) sample_env 0 w \<and> Piped (''[1] hi'' @ [LF]) \<in> set (f_trace (w_fifo w)) \<and>
     (\<exists>cs. ''[1] hi'' @ [LF] = concat cs \<and> (\<forall>c \<in> set cs. authorised_data sample_env c))"
proof -
  obtain w where w: "world_reaches (\<lambda>_. sample_ssl) sample_env 0 w"
    "f_trace (w_fifo w) = [Submitted (''[1] hi'' @ [LF]), Piped (''[1] hi'' @ [LF])]"
    by (rule sample_world)
  then have "Piped (''[1] hi'' @ [LF]) \<in> set (f_trace (w_fifo w))" by simp
  with server_writes_authorised[OF w(1) sample_env_ok this] w(1) show ?thesis by blast
qed

text \<open>
  Property C11. On every live connection, what was sent, the rest of the output object and the
  output buffer make up, in this order, exactly what the server wrote; and the write watcher
  is active exactly while something is left to send.
\<close>

theorem connection_output_intact:
  assumes "world_reaches ssl env timeout w" "posix_ok (e_fifo env)" "\<forall>i. ssl_ok (ssl i)"
    and "(tls, d) \<in> set (w_conns w)" "\<not> t_freed tls"
  shows "t_sent tls @ output_rest tls @ buffer_bytes (t_output_buffer tls) = t_written tls \<and>
    (is_active WriteW tls \<longleftrightarrow> t_output tls \<noteq> None \<or> buffer_size (t_output_buffer tls) > 0)"
proof -
  have "conn_ok env tls (server_of w d)"
    by (rule world_invD(2)[OF world_reaches_inv[OF assms(1-3)] assms(4)])
  then show ?thesis using assms(5) by (auto simp: conn_ok_def tls_inv_def tls_core_def)
qed

lemma connection_output_intact_witness:
  "\<exists>tls :: conn. is_active WriteW tls \<and>
     t_sent tls @ output_rest tls @ buffer_bytes (t_output_buffer tls) = t_written tls"
proof -
  obtain w tls d where w: "world_reaches (\<lambda>_. sample_ssl) sample_env 0 w" "w_conns w = [(tls, d)]"
    "\<not> t_freed tls" "is_active WriteW tls"
    by (rule sample_world)
  from connection_output_intact[OF w(1) sample_env_ok, of tls d] w(2-4) show ?thesis by auto
qed

end
