(* ===== verification/NscaNg.thy ===== *)
theory NscaNg
  imports ProcessSafety ServerRun
begin

text \<open>
  The program \<open>nsca-ng\<close>: \<open>main\<close> of \<open>src/server/nsca-ng.c\<close>, from the start of the process to its
  end, with the event loop in between. What the loop reports are the events of the running
  server, the timer of the keep-alive messages, and signals; as long as no signal has come,
  the process waits.
\<close>

section \<open>Environment\<close>

datatype signal = SIGHUP | SIGINT | SIGTERM

datatype loop_event = OnWorld world_event | KeepAlive | Signal signal

record ('p, 're) ng_env =
  ng_listen_fds :: int
  ng_atexit :: "exit_function \<Rightarrow> bool"
  ng_loop :: bool
  ng_default_conf :: string
  ng_parser :: "'p parser_env"
  ng_parsed :: "'p parser_state \<Rightarrow> 're config"
  ng_parser_state :: "'p parser_state"
  ng_hcreate :: "nat \<Rightarrow> nat option"
  ng_setopt :: "'re setopt"
  ng_users :: user_os
  ng_access :: "string \<Rightarrow> bool"
  ng_pid :: pid_os
  ng_openssl :: openssl_env
  ng_fifo :: fifo_os
  ng_ssl :: "nat \<Rightarrow> ssl_env"
  ng_regexec :: "'re \<Rightarrow> string \<Rightarrow> int"
  ng_daemon :: bool
  ng_watchdog :: "string option"
  ng_execvp :: bool

abbreviation ng_server_env :: "('p, 're) ng_env \<Rightarrow> 're auth_section hash_table \<Rightarrow> 're server_env" where
  "ng_server_env env t \<equiv> \<lparr>e_regexec = ng_regexec env, e_fifo = ng_fifo env, e_table = t\<rparr>"

section \<open>The start\<close>

definition receive_sockets :: "('p, 're) ng_env \<Rightarrow> (int, 're) step" where
  "receive_sockets env =
     (let socket_activated = ng_listen_fds env in
      pbind
        (if socket_activated < 0 then die (ng_pid env)
         else if socket_activated > 1 then die (ng_pid env)
         else if socket_activated = 1
         then modify (\<lambda>p. p\<lparr>pr_log := log_set (- 1) LOG_TARGET_SYSTEMD (pr_log p)\<rparr>)
         else perform CloseDescriptors) (\<lambda>_.
      preturn socket_activated))"

definition get_options_step :: "('p, 're) ng_env \<Rightarrow> string list \<Rightarrow> (server_options, 're) step" where
  "get_options_step env args =
     pbind (component (ng_pid env) (server_get_options args)) (\<lambda>r.
       case r of Inl status \<Rightarrow> exit_with (ng_pid env) status | Inr opt \<Rightarrow> preturn opt)"

text \<open>The table has pointers to the sections of the configuration, so these have what was set there.\<close>

definition shared_sections :: "'re auth_section hash_table \<Rightarrow> 're config \<Rightarrow> 're config" where
  "shared_sections t cfg =
     cfg\<lparr>c_authorize := map (\<lambda>auth. case hash_lookup t (a_title auth) of Some auth' \<Rightarrow> auth' | None \<Rightarrow> auth) (c_authorize cfg)\<rparr>"

definition parse_config :: "('p, 're) ng_env \<Rightarrow> server_options \<Rightarrow> ('re auth_section hash_table, 're) step" where
  "parse_config env opt =
     (let path = (case so_conf_file opt of Some f \<Rightarrow> f | None \<Rightarrow> ng_default_conf env) in
      pbind (perform (ReadConfig path)) (\<lambda>_.
      pbind (component (ng_pid env)
        (conf_parse (ng_parser env) (ng_parsed env) (ng_hcreate env) (ng_setopt env) path (ng_parser_state env)))
        (\<lambda>(cfg, t).
      pbind (modify (\<lambda>p. p\<lparr>pr_cfg := Cfg (shared_sections t cfg)\<rparr>)) (\<lambda>_. preturn t))))"

definition give_up_privileges :: "('p, 're) ng_env \<Rightarrow> (unit, 're) step" where
  "give_up_privileges env =
     pbind get_cfg (\<lambda>cfg.
       if length (c_user cfg) > 0 \<or> length (c_chroot cfg) > 0
       then drop_privileges (ng_pid env) (ng_users env) (first (c_user cfg)) (first (c_chroot cfg))
       else preturn ())"

definition log_target :: "('p, 're) ng_env \<Rightarrow> server_options \<Rightarrow> int \<Rightarrow> (int, 're) step" where
  "log_target env opt socket_activated =
     (if so_log_target opt = - 1 then
        preturn (if socket_activated \<noteq> 0 then LOG_TARGET_SYSTEMD
                 else if so_foreground opt then LOG_TARGET_STDERR
                 else LOG_TARGET_SYSLOG)
      else if \<not> so_foreground opt \<and> so_log_target opt AND LOG_TARGET_STDERR \<noteq> 0 then die (ng_pid env)
      else preturn (so_log_target opt))"

definition override_config :: "server_options \<Rightarrow> 're config \<Rightarrow> 're config" where
  "override_config opt cfg =
     (let cfg = (if so_log_level opt \<noteq> - 1 then cfg\<lparr>c_log_level := so_log_level opt\<rparr> else cfg);
          cfg = (case so_command_file opt of None \<Rightarrow> cfg | Some f \<Rightarrow> cfg\<lparr>c_command_file := f\<rparr>);
          cfg = (case so_pid_file opt of None \<Rightarrow> cfg | Some f \<Rightarrow> cfg\<lparr>c_pid_file := [f]\<rparr>)
      in case so_bind opt of None \<Rightarrow> cfg | Some l \<Rightarrow> cfg\<lparr>c_listen := l\<rparr>)"

definition set_log :: "int \<Rightarrow> (unit, 're) step" where
  "set_log target =
     pbind get_cfg (\<lambda>cfg. modify (\<lambda>p. p\<lparr>pr_log := log_set (to_int (c_log_level cfg)) target (pr_log p)\<rparr>))"

definition SERVER_PORT :: string where "SERVER_PORT = ''5668''"

definition SD_LISTEN_FDS_START :: nat where "SD_LISTEN_FDS_START = 3"

definition resolve_listen :: "int \<Rightarrow> 're config \<Rightarrow> 're config" where
  "resolve_listen socket_activated cfg =
     (if socket_activated \<noteq> 0 then cfg\<lparr>c_listen := ''descriptor='' @ show_nat SD_LISTEN_FDS_START\<rparr>
      else if strchr (c_listen cfg) (CHR '':'') = None
      then cfg\<lparr>c_listen := c_listen cfg @ '':'' @ SERVER_PORT\<rparr>
      else cfg)"

text \<open>If the PID file cannot be opened in any number of attempts, the process waits.\<close>

definition open_pidfile :: "('p, 're) ng_env \<Rightarrow> (unit, 're) step" where
  "open_pidfile env p =
     (case pr_pid_file p of
        None \<Rightarrow> Ran () p
      | Some path \<Rightarrow>
          pbind (perform (OpenPidfile path)) (\<lambda>_ p.
            case pidfile_open (ng_pid env) path (pr_pid p) of
              None \<Rightarrow> Waiting p
            | Some (Inl e, st) \<Rightarrow> die (ng_pid env) (p\<lparr>pr_pfh := NoHandle, pr_pid := st\<rparr>)
            | Some (Inr pfh, st) \<Rightarrow>
                register (ng_pid env) (ng_atexit env) RemovePidfile (p\<lparr>pr_pfh := Handle pfh, pr_pid := st\<rparr>)) p)"

definition start_server :: "('p, 're) ng_env \<Rightarrow> (world, 're) step" where
  "start_server env =
     pbind get_cfg (\<lambda>cfg.
     pbind (perform (StartServer (c_listen cfg))) (\<lambda>_.
     pbind (component (ng_pid env)
       (server_start (ng_openssl env) (ng_fifo env) (c_listen cfg) (c_tls_ciphers cfg) (c_command_file cfg)
         (c_temp_directory cfg) (nat (c_max_command_size cfg mod 2 ^ 64)) (nat (c_max_queue_size cfg mod 2 ^ 64))
         (c_timeout cfg))) (\<lambda>(ctx, fd, g).
     preturn \<lparr>w_conns = [], w_fifo = s_fifo g, w_max_command_size = s_max_command_size g\<rparr>)))"

definition become_daemon :: "('p, 're) ng_env \<Rightarrow> server_options \<Rightarrow> int \<Rightarrow> (unit, 're) step" where
  "become_daemon env opt socket_activated =
     (if \<not> so_foreground opt \<and> socket_activated = 0
      then pbind (perform Daemonize) (\<lambda>_. check (ng_pid env) (ng_daemon env))
      else preturn ())"

definition write_pidfile :: "('p, 're) ng_env \<Rightarrow> (unit, 're) step" where
  "write_pidfile env p =
     (if pr_pid_file p = None then Ran () p
      else
        pbind (perform WritePid) (\<lambda>_ p.
          case pidfile_write (ng_pid env) (pr_pfh p) (pr_pid p) of
            Die e \<Rightarrow> Fault e
          | Ret (err, h, st) \<Rightarrow> check (ng_pid env) (err = None) (p\<lparr>pr_pfh := h, pr_pid := st\<rparr>)) p)"

definition notify_systemd :: "('p, 're) ng_env \<Rightarrow> (unit, 're) step" where
  "notify_systemd env =
     pbind
       (case ng_watchdog env of
          None \<Rightarrow> preturn ()
        | Some usec \<Rightarrow>
            if real_of_int (fst (strtol usec 10)) / 1000 / 1000 > 0
            then pbind (modify (\<lambda>p. p\<lparr>pr_keep_alive := True\<rparr>))
                   (\<lambda>_. register (ng_pid env) (ng_atexit env) StopKeepAlive)
            else preturn ()) (\<lambda>_.
     perform (Notify ''READY=1''))"

text \<open>\<open>main\<close> up to the configuration: whether sockets were received, the options, the authorisations.\<close>

definition ng_configure :: "('p, 're) ng_env \<Rightarrow> string list \<Rightarrow> (int \<times> server_options \<times> 're auth_section hash_table, 're) step" where
  "ng_configure env args =
     pbind (modify (\<lambda>p. p\<lparr>pr_log := log_set (level_num Info) LOG_TARGET_STDERR (pr_log p)\<rparr>)) (\<lambda>_.
     pbind (receive_sockets env) (\<lambda>socket_activated.
     pbind (register (ng_pid env) (ng_atexit env) LogClose) (\<lambda>_.
     pbind (register (ng_pid env) (ng_atexit env) ForgetConfig) (\<lambda>_.
     pbind (check (ng_pid env) (ng_loop env)) (\<lambda>_.
     pbind (get_options_step env args) (\<lambda>opt.
     pbind (parse_config env opt) (\<lambda>t.
     preturn (socket_activated, opt, t))))))))"

text \<open>\<open>main\<close> from the choice of the log target to the event loop; the value is the server.\<close>

definition ng_serve :: "('p, 're) ng_env \<Rightarrow> int \<Rightarrow> server_options \<Rightarrow> (world, 're) step" where
  "ng_serve env socket_activated opt =
     pbind (log_target env opt socket_activated) (\<lambda>target.
     pbind (change_cfg (override_config opt)) (\<lambda>_.
     pbind get_cfg (\<lambda>cfg.
     pbind (perform (AccessTemp (c_temp_directory cfg))) (\<lambda>_.
     pbind (check (ng_pid env) (ng_access env (c_temp_directory cfg))) (\<lambda>_.
     pbind (modify (\<lambda>p. p\<lparr>pr_pid_file := first (c_pid_file cfg)\<rparr>)) (\<lambda>_.
     pbind (set_log (if target AND (LOG_TARGET_STDERR OR LOG_TARGET_SYSTEMD) \<noteq> 0 then - 1
                     else target OR LOG_TARGET_STDERR)) (\<lambda>_.
     pbind (change_cfg (resolve_listen socket_activated)) (\<lambda>_.
     pbind (open_pidfile env) (\<lambda>_.
     pbind (start_server env) (\<lambda>server.
     pbind (become_daemon env opt socket_activated) (\<lambda>_.
     pbind (set_log target) (\<lambda>_.
     pbind (write_pidfile env) (\<lambda>_.
     pbind (modify (\<lambda>p. p\<lparr>pr_signals := True\<rparr>)) (\<lambda>_.
     pbind (notify_systemd env) (\<lambda>_.
     preturn server)))))))))))))))"

definition ng_start :: "('p, 're) ng_env \<Rightarrow> string list \<Rightarrow> (world \<times> 're auth_section hash_table, 're) step" where
  "ng_start env args =
     pbind (ng_configure env args) (\<lambda>(socket_activated, opt, t).
     pbind (give_up_privileges env) (\<lambda>_.
     pbind (ng_serve env socket_activated opt) (\<lambda>server.
     preturn (server, t))))"

section \<open>The event loop and the end\<close>

definition signal_cb :: "signal \<Rightarrow> 're process \<Rightarrow> 're process" where
  "signal_cb sig p = (let p = p\<lparr>pr_signals := False\<rparr> in if sig = SIGHUP then p\<lparr>pr_restart := True\<rparr> else p)"

definition keep_alive_cb :: "(unit, 're) step" where
  "keep_alive_cb = perform (Notify ''WATCHDOG=1'')"

text \<open>
  Events that cannot happen are passed over. The timeout is the server's, which each of its
  connections inherits.
\<close>

fun ev_run :: "('p, 're) ng_env \<Rightarrow> 're auth_section hash_table \<Rightarrow> real \<Rightarrow> loop_event list \<Rightarrow> world \<Rightarrow> (world, 're) step" where
  "ev_run env t timeout [] w p = Waiting p"
| "ev_run env t timeout (OnWorld ev # evs) w p =
     (if world_enabled (ng_fifo env) ev w then
        (case world_step (ng_ssl env) (ng_server_env env t) timeout ev w of
           Die e \<Rightarrow> Fault e
         | Ret w' \<Rightarrow> ev_run env t timeout evs w' p)
      else ev_run env t timeout evs w p)"
| "ev_run env t timeout (KeepAlive # evs) w p =
     (if pr_keep_alive p then pbind keep_alive_cb (\<lambda>_. ev_run env t timeout evs w) p
      else ev_run env t timeout evs w p)"
| "ev_run env t timeout (Signal sig # evs) w p =
     (if pr_signals p then Ran w (signal_cb sig p) else ev_run env t timeout evs w p)"

text \<open>The functions called by name here are also the exit functions; \<open>execvp\<close> returns if it fails.\<close>

definition run_now :: "('p, 're) ng_env \<Rightarrow> exit_function \<Rightarrow> (unit, 're) step" where
  "run_now env f p = (case run_exit_function (ng_pid env) f p of Die e \<Rightarrow> Fault e | Ret q \<Rightarrow> Ran () q)"

definition stop_server :: "world \<Rightarrow> (unit, 're) step" where
  "stop_server w =
     pbind (perform StopServer) (\<lambda>_. modify (\<lambda>p. p\<lparr>pr_writer := Some (server_stop (server_of w Ctx))\<rparr>))"

definition ng_finish :: "('p, 're) ng_env \<Rightarrow> world \<Rightarrow> (unit, 're) step" where
  "ng_finish env w =
     pbind (stop_server w) (\<lambda>_ p.
       if pr_restart p then
         pbind (run_now env RemovePidfile) (\<lambda>_.
         pbind (run_now env ForgetConfig) (\<lambda>_.
         pbind (run_now env StopKeepAlive) (\<lambda>_.
         pbind (perform Exec) (\<lambda>_ p.
           if ng_execvp env then Execed p else die (ng_pid env) p)))) p
       else exit_with (ng_pid env) EXIT_SUCCESS p)"

definition ng_main :: "('p, 're) ng_env \<Rightarrow> string list \<Rightarrow> loop_event list \<Rightarrow> (unit, 're) step" where
  "ng_main env args evs =
     pbind (ng_start env args) (\<lambda>(w, t).
     pbind get_cfg (\<lambda>cfg.
     pbind (ev_run env t (c_timeout cfg) evs w) (ng_finish env)))"

text \<open>
  A new process image: what the process has in memory is gone, its credentials and what it
  asked the system for are not.
\<close>

definition fresh_image :: "'re process \<Rightarrow> 're process" where
  "fresh_image p =
     p\<lparr>pr_log := log_initial, pr_cfg := NoCfg, pr_pid_file := None, pr_pfh := NoHandle, pr_writer := None, pr_keep_alive := False,
       pr_signals := False, pr_restart := False, pr_atexit := []\<rparr>"

section \<open>The steps of the program\<close>

lemma safe_receive_sockets: "safe (holding n) (receive_sockets env) (\<lambda>_. holding n)"
  unfolding receive_sockets_def Let_def
  by (intro safe_bind[where R = "\<lambda>_. holding n"] safe_if)
    (auto intro!: safe_die safe_modify safe_perform safe_return)

lemma safe_get_options: "safe (prepared n) (get_options_step env args) (\<lambda>_. prepared n)"
  unfolding get_options_step_def
  by (intro safe_bind[where R = "\<lambda>_. prepared n"])
    (auto intro!: safe_component[OF prepared_holding] safe_exit[OF prepared_holding] safe_return split: sum.split)

lemma prepared_trace [simp]: "prepared n (p\<lparr>pr_trace := t\<rparr>) = prepared n p"
  by (simp add: prepared_def)

lemma safe_parse_config: "safe (prepared n) (parse_config env opt) (\<lambda>_. configured n)"
  unfolding parse_config_def Let_def
proof (intro safe_bind[where R = "\<lambda>_. prepared n"], goal_cases)
  case 1
  show ?case by (rule safe_perform) simp
next
  case (2 u)
  show ?case by (rule safe_component[OF prepared_holding]) auto
next
  case (3 u r)
  obtain cfg t where r: "r = (cfg, t)" by (cases r)
  show ?case unfolding r prod.case
    by (intro safe_bind[where R = "\<lambda>_. configured n"] safe_modify safe_return) (simp_all add: configured_set)
qed

lemma safe_give_up_privileges: "safe (configured n) (give_up_privileges env) (\<lambda>_. configured n)"
  unfolding give_up_privileges_def
  by (rule safe_bind[OF safe_get_cfg])
    (auto intro!: safe_return intro: safe_conseq[OF safe_drop_privileges])

lemma safe_log_target: "safe (configured n) (log_target env opt sa) (\<lambda>_. configured n)"
  unfolding log_target_def by (auto intro!: safe_return safe_die[OF configured_holding])

lemma safe_set_log: "safe (using_cfg cfg n) (set_log target) (\<lambda>_. using_cfg cfg n)"
  unfolding set_log_def
  by (rule safe_bind[OF safe_get_cfg[OF using_configured]]) (auto intro!: safe_modify)

lemma safe_open_pidfile: "safe (using_cfg cfg 2) (open_pidfile env) (\<lambda>_. using_cfg cfg 3)"
  unfolding safe_def
proof (intro allI impI)
  fix p :: "'a process"
  assume p: "using_cfg cfg 2 p"
  show "ends_well (\<lambda>_. using_cfg cfg 3) (open_pidfile env p)"
  proof (cases "pr_pid_file p")
    case None
    then show ?thesis using p using_mono[of cfg 2 p 3] by (simp add: open_pidfile_def)
  next
    case (Some path)
    let ?q = "p\<lparr>pr_trace := pr_trace p @ [(pr_uid p, OpenPidfile path)]\<rparr>"
    show ?thesis
    proof (cases "pidfile_open (ng_pid env) path (pr_pid p)")
      case None
      then show ?thesis using Some by (simp add: open_pidfile_def pbind_def perform_def modify_def)
    next
      case o: (Some r)
      obtain x st where r: "r = (x, st)" by (cases r)
      have d: "safe (using_cfg cfg 2) (die (ng_pid env)) Q" for Q :: "unit \<Rightarrow> 'a process \<Rightarrow> bool"
        by (rule safe_die[OF using_holding])
      have g: "safe (using_cfg cfg 2) (register (ng_pid env) (ng_atexit env) RemovePidfile) (\<lambda>_. using_cfg cfg 3)"
        by (rule safe_register[OF using_holding])
          (auto simp: using_cfg_def eval_nat_numeral dest: holding_register[of RemovePidfile, simplified])
      have "ends_well (\<lambda>_. using_cfg cfg 3) (die (ng_pid env) (?q\<lparr>pr_pfh := NoHandle, pr_pid := st\<rparr>) :: (unit, 'a process) result)"
        by (rule safeD[OF d]) (use p in \<open>simp add: using_cfg_def\<close>)
      moreover have "ends_well (\<lambda>_. using_cfg cfg 3)
          (register (ng_pid env) (ng_atexit env) RemovePidfile (?q\<lparr>pr_pfh := Handle pfh, pr_pid := st\<rparr>))" for pfh
        by (rule safeD[OF g]) (use p in \<open>simp add: using_cfg_def\<close>)
      ultimately show ?thesis using Some o r
        by (cases x) (auto simp: open_pidfile_def pbind_def perform_def modify_def)
    qed
  qed
qed

lemma safe_write_pidfile: "safe (using_cfg cfg n) (write_pidfile env) (\<lambda>_. using_cfg cfg n)"
  unfolding safe_def
proof (intro allI impI)
  fix p :: "'a process"
  assume p: "using_cfg cfg n p"
  show "ends_well (\<lambda>_. using_cfg cfg n) (write_pidfile env p)"
  proof (cases "pr_pid_file p = None")
    case False
    have "pr_pfh p \<noteq> FreedHandle" using p by (simp add: using_cfg_def holding_def)
    then obtain err h st where w: "pidfile_write (ng_pid env) (pr_pfh p) (pr_pid p) = Ret (err, h, st)" "h \<noteq> FreedHandle"
      using write_no_fault by metis
    let ?q = "p\<lparr>pr_trace := pr_trace p @ [(pr_uid p, WritePid)], pr_pfh := h, pr_pid := st\<rparr>"
    have "using_cfg cfg n ?q" using p w(2) by (simp add: using_cfg_def)
    moreover have "safe (using_cfg cfg n) (check (ng_pid env) (err = None)) (\<lambda>_. using_cfg cfg n)"
      by (rule safe_check[OF using_holding])
    ultimately show ?thesis using False w safeD
      by (fastforce simp: write_pidfile_def pbind_def perform_def modify_def)
  qed (use p in \<open>simp add: write_pidfile_def\<close>)
qed

lemma safe_become_daemon: "safe (using_cfg cfg n) (become_daemon env opt sa) (\<lambda>_. using_cfg cfg n)"
  unfolding become_daemon_def
  by (auto intro!: safe_bind[where R = "\<lambda>_. using_cfg cfg n"] safe_perform safe_check[OF using_holding] safe_return)

lemma safe_notify_systemd: "safe (using_cfg cfg 3) (notify_systemd env) (\<lambda>_. using_cfg cfg 4)"
proof -
  have g: "safe (using_cfg cfg 3) (register (ng_pid env) (ng_atexit env) StopKeepAlive) (\<lambda>_. using_cfg cfg 4)"
    by (rule safe_register[OF using_holding])
      (auto simp: using_cfg_def eval_nat_numeral dest: holding_register[of StopKeepAlive, simplified])
  have "safe (using_cfg cfg 3) (preturn ()) (\<lambda>_. using_cfg cfg 4)"
    by (rule safe_return) (simp add: using_mono)
  then show ?thesis unfolding notify_systemd_def
    by (intro safe_bind[where R = "\<lambda>_. using_cfg cfg 4"])
      (auto intro!: safe_perform safe_bind[where R = "\<lambda>_. using_cfg cfg 3", OF _ g] safe_modify split: option.split)
qed

text \<open>The server that has been started is in a state the running server can be in.\<close>

definition started :: "('p, 're) ng_env \<Rightarrow> real \<Rightarrow> world \<Rightarrow> bool" where
  "started env timeout w \<longleftrightarrow> (\<forall>t. world_reaches (ng_ssl env) (ng_server_env env t) timeout w)"

lemma safe_start_server:
  "safe (using_cfg cfg n) (start_server env) (\<lambda>w p. using_cfg cfg n p \<and> started env (c_timeout cfg) w)"
proof -
  let ?s = "server_start (ng_openssl env) (ng_fifo env) (c_listen cfg) (c_tls_ciphers cfg) (c_command_file cfg)
         (c_temp_directory cfg) (nat (c_max_command_size cfg mod 2 ^ 64)) (nat (c_max_queue_size cfg mod 2 ^ 64))
         (c_timeout cfg)"
  have "started env (c_timeout cfg) \<lparr>w_conns = [], w_fifo = s_fifo g, w_max_command_size = s_max_command_size g\<rparr>"
    if "?s = Ret (ctx, fd, g)" for ctx fd g
    using world_start[of _ "ng_server_env env t" for t] server_start_max that by (fastforce simp: started_def)
  then have "safe (\<lambda>p. using_cfg cfg n p \<and> ?s = Ret r)
      (case r of (ctx, fd, g) \<Rightarrow> preturn \<lparr>w_conns = [], w_fifo = s_fifo g, w_max_command_size = s_max_command_size g\<rparr>)
      (\<lambda>w p. using_cfg cfg n p \<and> started env (c_timeout cfg) w)" for r
    by (cases r) (simp add: safe_def preturn_def)
  moreover have "safe (using_cfg cfg n) (component (ng_pid env) ?s) (\<lambda>r p. using_cfg cfg n p \<and> ?s = Ret r)"
    by (rule safe_component[OF using_holding]) auto
  moreover have "safe (using_cfg cfg n) (perform a) (\<lambda>_. using_cfg cfg n)" for a by (rule safe_perform) simp
  ultimately have "safe (using_cfg cfg n)
      (pbind (perform (StartServer (c_listen cfg))) (\<lambda>_. pbind (component (ng_pid env) ?s) (\<lambda>(ctx, fd, g).
         preturn \<lparr>w_conns = [], w_fifo = s_fifo g, w_max_command_size = s_max_command_size g\<rparr>)))
      (\<lambda>w p. using_cfg cfg n p \<and> started env (c_timeout cfg) w)"
    by (intro safe_bind[where R = "\<lambda>_. using_cfg cfg n"] safe_bind[where R = "\<lambda>r p. using_cfg cfg n p \<and> ?s = Ret r"])
  then show ?thesis
    unfolding start_server_def by (intro safe_bind[OF safe_get_using] safe_pure) simp
qed

lemma safe_ng_configure: "safe (holding 0) (ng_configure env args) (\<lambda>_. configured 2)"
proof -
  have l: "safe (holding 0) (modify (\<lambda>p. p\<lparr>pr_log := f (pr_log p)\<rparr>)) (\<lambda>_. holding 0)" for f
    by (rule safe_modify) simp
  have r1: "safe (holding 0) (register os atexit LogClose) (\<lambda>_. holding 1)" for os atexit
    by (rule safe_register[of _ 0]) (auto dest: holding_register[of LogClose, simplified])
  have r2: "safe (holding 1) (register os atexit ForgetConfig) (\<lambda>_. prepared 2)" for os atexit
    by (rule safe_register[of _ 1]) (auto simp: prepared_def eval_nat_numeral dest: holding_register[of ForgetConfig, simplified])
  have c: "safe (prepared n) (check os b) (\<lambda>_. prepared n)" for os b n
    by (rule safe_check[OF prepared_holding])
  have e: "safe (configured n) (preturn r) (\<lambda>_. configured n)" for n r
    by (rule safe_return)
  show ?thesis
    unfolding ng_configure_def
    by (rule safe_bind, rule l, rule safe_bind, rule safe_receive_sockets, rule safe_bind, rule r1, rule safe_bind, rule r2,
        rule safe_bind, rule c, rule safe_bind, rule safe_get_options, rule safe_bind, rule safe_parse_config, rule e)
qed

lemma safe_ng_serve:
  "safe (configured 2) (ng_serve env sa opt) (\<lambda>w p. \<exists>cfg. using_cfg cfg 4 p \<and> started env (c_timeout cfg) w)"
proof -
  have c: "safe (using_cfg cfg n) (check os b) (\<lambda>_. using_cfg cfg n)" for os b cfg n
    by (rule safe_check[OF using_holding])
  have p: "safe (using_cfg cfg n) (perform a) (\<lambda>_. using_cfg cfg n)" for cfg n a
    by (rule safe_perform) simp
  have f: "safe (using_cfg cfg n) (modify (\<lambda>p. p\<lparr>pr_pid_file := d\<rparr>)) (\<lambda>_. using_cfg cfg n)" for cfg n d
    by (rule safe_modify) simp
  have g: "safe (using_cfg cfg n) (modify (\<lambda>p. p\<lparr>pr_signals := d\<rparr>)) (\<lambda>_. using_cfg cfg n)" for cfg n d
    by (rule safe_modify) simp
  have h: "safe (using_cfg cfg n) (change_cfg k) (\<lambda>_. configured n)" for cfg n k
    by (rule safe_conseq[OF safe_change_cfg using_configured]) assumption
  have e: "safe (using_cfg cfg 4) (preturn w) (\<lambda>w p. \<exists>cfg. using_cfg cfg 4 p \<and> started env (c_timeout cfg) w)"
    if "started env (c_timeout cfg) w" for cfg w
    by (rule safe_return) (use that in auto)
  show ?thesis
    unfolding ng_serve_def
    by (rule safe_bind, rule safe_log_target,
        rule safe_bind, rule safe_change_cfg, rule safe_fix, rule safe_bind, rule safe_get_using, rule safe_pure,
        rule safe_bind, rule p, rule safe_bind, rule c, rule safe_bind, rule f, rule safe_bind, rule safe_set_log,
        rule safe_bind, rule h, rule safe_fix, rule safe_bind, rule safe_open_pidfile,
        rule safe_bind, rule safe_start_server, rule safe_pure, rule safe_bind, rule safe_become_daemon,
        rule safe_bind, rule safe_set_log, rule safe_bind, rule safe_write_pidfile, rule safe_bind, rule g,
        rule safe_bind, rule safe_notify_systemd, rule e)
qed

lemma safe_ng_start:
  "safe (holding 0) (ng_start env args) (\<lambda>(w, t) p. \<exists>cfg. using_cfg cfg 4 p \<and> started env (c_timeout cfg) w)"
proof -
  have s: "safe (configured 2)
      (pbind (give_up_privileges env) (\<lambda>_. pbind (ng_serve env sa opt) (\<lambda>server. preturn (server, t))))
      (\<lambda>(w, t) p. \<exists>cfg. using_cfg cfg 4 p \<and> started env (c_timeout cfg) w)" for sa opt t
    by (rule safe_bind, rule safe_give_up_privileges, rule safe_bind, rule safe_ng_serve, rule safe_return) simp
  show ?thesis unfolding ng_start_def
    by (rule safe_bind, rule safe_ng_configure) (auto simp: split_beta intro: s)
qed

lemma safe_ev_run:
  assumes "posix_ok (ng_fifo env)" "\<forall>i. ssl_ok (ng_ssl env i)"
    and "world_reaches (ng_ssl env) (ng_server_env env t) timeout w" "using_cfg cfg n p"
  shows "ends_well (\<lambda>w. using_cfg cfg n) (ev_run env t timeout evs w p)"
  using assms
proof (induction env t timeout evs w p rule: ev_run.induct)
  case (2 env t timeout ev evs w p)
  show ?case
  proof (cases "world_enabled (ng_fifo env) ev w")
    case True
    obtain w' where w': "world_step (ng_ssl env) (ng_server_env env t) timeout ev w = Ret w'"
      using world_safe[OF 2(5) _ 2(4)] 2(3) True by auto
    have "world_reaches (ng_ssl env) (ng_server_env env t) timeout w'"
      by (rule world_next[OF 2(5) _ w']) (use True in simp)
    with 2(1)[OF True w' 2(3,4)] 2(6) w' True show ?thesis by simp
  qed (use 2 in simp)
next
  case (3 env t timeout evs w p)
  show ?case
  proof (cases "pr_keep_alive p")
    case True
    let ?q = "p\<lparr>pr_trace := pr_trace p @ [(pr_uid p, Notify ''WATCHDOG=1'')]\<rparr>"
    have "using_cfg cfg n ?q" using 3(6) by simp
    with 3(1)[OF True 3(3-5)] True show ?thesis by (simp add: keep_alive_cb_def perform_def modify_def pbind_def)
  qed (use 3 in simp)
qed (auto simp: signal_cb_def Let_def)

lemma ng_finish_clean:
  assumes "using_cfg cfg n p" "\<not> pr_restart p \<or> ng_execvp env"
  shows "ends_well (\<lambda>_ _. False) (ng_finish env w p)"
proof -
  let ?q = "p\<lparr>pr_trace := pr_trace p @ [(pr_uid p, StopServer)], pr_writer := Some (server_stop (server_of w Ctx))\<rparr>"
  have h: "holding n ?q" using assms(1) by (simp add: using_cfg_def)
  show ?thesis
  proof (cases "pr_restart p")
    case False
    obtain q where "run_exit_functions (ng_pid env) (pr_atexit ?q) ?q = Ret q" "clean q"
      using run_exit_functions_ok[of "pr_atexit ?q" ?q] h unfolding holding_def by blast
    then show ?thesis using False by (simp add: ng_finish_def stop_server_def pbind_def perform_def modify_def exit_with_def)
  next
    case True
    have "\<exists>q. run_exit_function (ng_pid env) RemovePidfile ?q = Ret q \<and> pr_cfg q = Cfg cfg"
    proof (cases "pr_pid_file p = None")
      case False
      have "pr_pfh p \<noteq> FreedHandle" using assms(1) by (simp add: using_cfg_def holding_def)
      then obtain err h st where "pidfile_remove (ng_pid env) (pr_pfh p) (pr_pid p) = Ret (err, h, st)"
        using remove_with_no_fault[of "pr_pfh p" True] unfolding pidfile_remove_def by blast
      then show ?thesis using False assms(1) by (auto simp: remove_pidfile_def Let_def using_cfg_def)
    qed (use assms(1) in \<open>simp add: remove_pidfile_def using_cfg_def\<close>)
    then obtain q where q: "remove_pidfile (ng_pid env) ?q = Ret q" "pr_cfg q = Cfg cfg" by auto
    show ?thesis using True assms(2) q wiped_section[of cfg]
      by (simp add: ng_finish_def stop_server_def pbind_def perform_def modify_def run_now_def forget_config_def stop_keep_alive_def clean_def)
  qed
qed

text \<open>A process that has just been started.\<close>

definition new_process :: "'re process \<Rightarrow> bool" where
  "new_process p \<longleftrightarrow> pr_cfg p = NoCfg \<and> pr_pfh p = NoHandle \<and> pr_atexit p = [] \<and> \<not> pr_restart p"

lemma new_holding: "new_process p \<Longrightarrow> holding 0 p"
  by (simp add: new_process_def holding_def exits_ready_def)

lemma ng_main_clean:
  assumes "new_process p" "posix_ok (ng_fifo env)" "\<forall>i. ssl_ok (ng_ssl env i)" "ng_execvp env"
  shows "ends_well (\<lambda>_ _. False) (ng_main env args evs p)"
proof (cases "ng_start env args p")
  case (Ran r q)
  obtain w t where r: "r = (w, t)" by (cases r)
  obtain cfg where c: "using_cfg cfg 4 q" "started env (c_timeout cfg) w"
    using safeD[OF safe_ng_start new_holding[OF assms(1)], of env args] Ran r by auto
  then have "ends_well (\<lambda>w. using_cfg cfg 4) (ev_run env t (c_timeout cfg) evs w q)"
    using assms(2,3) by (intro safe_ev_run) (simp_all add: started_def)
  then show ?thesis using Ran r c(1) ng_finish_clean[of cfg 4 _ env] assms(4)
    by (cases "ev_run env t (c_timeout cfg) evs w q")
      (auto simp: ng_main_def pbind_def get_cfg_def using_cfg_def)
qed (use safeD[OF safe_ng_start new_holding[OF assms(1)], of env args] in \<open>simp_all add: ng_main_def pbind_def\<close>)

end
