(* ===== verification/NscaNgRun.thy ===== *)
theory NscaNgRun
  imports NscaNg
begin

text \<open>
  Properties of the program \<open>nsca-ng\<close>: how its steps move the credentials and the
  configuration, a sample run, and what holds of the process from its start to its end.
\<close>

section \<open>Privileges\<close>

lemma pbind_Ran: "pbind m f p = Ran b q \<longleftrightarrow> (\<exists>a p1. m p = Ran a p1 \<and> f a p1 = Ran b q)"
  by (cases "m p") (simp_all add: pbind_def)

lemma exit_goes_not_on: "exit_with os s p \<noteq> Ran a q"
  by (auto simp: exit_with_def split: outcome.splits)

lemma die_goes_not_on: "die os p \<noteq> Ran a q"
  unfolding die_def by (rule exit_goes_not_on)

text \<open>When a step goes on, and how.\<close>

lemma goes_on:
  "preturn a p = Ran b q \<longleftrightarrow> b = a \<and> q = p"
  "modify f p = Ran u q \<longleftrightarrow> q = f p"
  "perform act p = Ran u q \<longleftrightarrow> q = p\<lparr>pr_trace := pr_trace p @ [(pr_uid p, act)]\<rparr>"
  "check os t p = Ran u q \<longleftrightarrow> t \<and> q = p"
  "component os r p = Ran b q \<longleftrightarrow> r = Ret b \<and> q = p"
  "register os atexit e p = Ran u q \<longleftrightarrow> atexit e \<and> q = p\<lparr>pr_atexit := e # pr_atexit p\<rparr>"
  "get_cfg p = Ran cfg q \<longleftrightarrow> pr_cfg p = Cfg cfg \<and> q = p"
  by (auto simp: preturn_def modify_def perform_def check_def component_def register_def get_cfg_def die_goes_not_on
      split: outcome.splits cfg_object.splits if_splits)

text \<open>How the state moves in a step that goes on.\<close>

definition moves :: "('re process \<Rightarrow> 're process \<Rightarrow> bool) \<Rightarrow> ('a, 're) step \<Rightarrow> bool" where
  "moves R m \<longleftrightarrow> (\<forall>p a q. m p = Ran a q \<longrightarrow> R p q)"

lemma movesD: "moves R m \<Longrightarrow> m p = Ran a q \<Longrightarrow> R p q"
  by (simp add: moves_def)

lemma moves_bind: "transp R \<Longrightarrow> moves R m \<Longrightarrow> (\<And>a. moves R (f a)) \<Longrightarrow> moves R (pbind m f)"
  unfolding moves_def pbind_Ran by (meson transpD)

definition credentials :: "'re process \<Rightarrow> nat \<times> nat \<times> string option \<times> string option" where
  "credentials p = (pr_uid p, pr_gid p, pr_groups p, pr_root p)"

text \<open>The credentials stay, and what is asked of the system is asked with them.\<close>

definition same_rights :: "action set \<Rightarrow> 're process \<Rightarrow> 're process \<Rightarrow> bool" where
  "same_rights A p q \<longleftrightarrow> credentials q = credentials p \<and>
     (\<exists>l. set l \<subseteq> A \<and> pr_trace q = pr_trace p @ map (Pair (pr_uid p)) l)"

text \<open>The configuration keeps its user and root directory.\<close>

definition same_user :: "'re process \<Rightarrow> 're process \<Rightarrow> bool" where
  "same_user p q \<longleftrightarrow> (\<forall>cfg. pr_cfg p = Cfg cfg \<longrightarrow>
     (\<exists>cfg'. pr_cfg q = Cfg cfg' \<and> c_user cfg' = c_user cfg \<and> c_chroot cfg' = c_chroot cfg))"

definition serving_move :: "'re process \<Rightarrow> 're process \<Rightarrow> bool" where
  "serving_move p q \<longleftrightarrow> same_rights UNIV p q \<and> same_user p q"

lemma same_rights_trans: "transp (same_rights A)"
proof (rule transpI)
  fix p q r :: "'re process"
  assume a: "same_rights A p q" "same_rights A q r"
  then obtain l k where l: "set l \<subseteq> A" "pr_trace q = pr_trace p @ map (Pair (pr_uid p)) l" "set k \<subseteq> A"
    "pr_trace r = pr_trace q @ map (Pair (pr_uid q)) k"
    by (auto simp: same_rights_def)
  moreover have "pr_uid q = pr_uid p" "credentials r = credentials p"
    using a by (auto simp: same_rights_def credentials_def)
  ultimately show "same_rights A p r" unfolding same_rights_def by (intro conjI exI[of _ "l @ k"]) auto
qed

lemma same_user_trans: "transp same_user"
  by (rule transpI) (fastforce simp: same_user_def)

lemma serving_move_trans: "transp serving_move"
  using same_rights_trans[of UNIV] same_user_trans unfolding serving_move_def transp_def by blast

lemma same_rights_refl [simp]: "same_rights A p p"
  by (auto simp: same_rights_def)

lemma same_user_refl [simp]: "same_user p p"
  by (auto simp: same_user_def)

lemma serving_move_refl [simp]: "serving_move p p"
  by (simp add: serving_move_def)

text \<open>Steps that move in any reflexive way.\<close>

lemma moves_exit: "moves R (exit_with os s)"
  by (auto simp: moves_def exit_with_def split: outcome.splits)

lemma moves_die: "moves R (die os)"
  unfolding die_def by (rule moves_exit)

lemma moves_return: "(\<And>p. R p p) \<Longrightarrow> moves R (preturn a)"
  by (simp add: moves_def preturn_def)

lemma moves_check: "(\<And>p. R p p) \<Longrightarrow> moves R (check os b)"
  by (auto simp: check_def intro: moves_return moves_die)

lemma moves_component: "(\<And>p. R p p) \<Longrightarrow> moves R (component os r)"
  by (auto simp: component_def intro: moves_return moves_die split: outcome.split)

lemma moves_get_cfg: "(\<And>p. R p p) \<Longrightarrow> moves R get_cfg"
  by (auto simp: moves_def get_cfg_def split: cfg_object.splits)

lemma moves_modify: "(\<And>p. R p (f p)) \<Longrightarrow> moves R (modify f)"
  by (simp add: moves_def modify_def)

lemma moves_register: "(\<And>p. R p (p\<lparr>pr_atexit := f # pr_atexit p\<rparr>)) \<Longrightarrow> moves R (register os atexit f)"
  by (auto simp: moves_def register_def die_goes_not_on split: if_splits)

lemma moves_change_cfg: "(\<And>p cfg. pr_cfg p = Cfg cfg \<Longrightarrow> R p (p\<lparr>pr_cfg := Cfg (f cfg)\<rparr>)) \<Longrightarrow> moves R (change_cfg f)"
  by (auto simp: moves_def change_cfg_def split: cfg_object.splits)

lemma same_rights_perform: "a \<in> A \<Longrightarrow> moves (same_rights A) (perform a)"
  unfolding perform_def
  by (rule moves_modify) (auto simp: same_rights_def credentials_def intro: exI[of _ "[a]"])

lemma serving_perform: "moves serving_move (perform a)"
  unfolding serving_move_def perform_def
  by (rule moves_modify) (auto simp: same_rights_def same_user_def credentials_def intro: exI[of _ "[a]"])

lemma same_rights_eq: "credentials q = credentials p \<Longrightarrow> pr_trace q = pr_trace p \<Longrightarrow> same_rights A p q"
  by (auto simp: same_rights_def)

lemma serving_move_eq:
  "credentials q = credentials p \<Longrightarrow> pr_trace q = pr_trace p \<Longrightarrow> pr_cfg q = pr_cfg p \<Longrightarrow> serving_move p q"
  by (simp add: serving_move_def same_rights_eq same_user_def)

lemma credentials_simps [simp]:
  "credentials (p\<lparr>pr_log := a\<rparr>) = credentials p" "credentials (p\<lparr>pr_trace := b\<rparr>) = credentials p"
  "credentials (p\<lparr>pr_cfg := c\<rparr>) = credentials p" "credentials (p\<lparr>pr_pid := d\<rparr>) = credentials p"
  "credentials (p\<lparr>pr_writer := w\<rparr>) = credentials p" "credentials (p\<lparr>pr_pfh := h\<rparr>) = credentials p" "credentials (p\<lparr>pr_pid_file := e\<rparr>) = credentials p"
  "credentials (p\<lparr>pr_keep_alive := f\<rparr>) = credentials p" "credentials (p\<lparr>pr_signals := f\<rparr>) = credentials p"
  "credentials (p\<lparr>pr_restart := f\<rparr>) = credentials p" "credentials (p\<lparr>pr_atexit := g\<rparr>) = credentials p"
  by (simp_all add: credentials_def)

lemmas early_moves = moves_return moves_check moves_component moves_modify moves_register
  same_rights_perform moves_exit moves_die

lemma configure_moves: "moves (same_rights (insert CloseDescriptors (range ReadConfig))) (ng_configure env args)"
  unfolding ng_configure_def receive_sockets_def get_options_step_def parse_config_def Let_def
  by (intro moves_bind[OF same_rights_trans])
    (auto intro!: early_moves moves_bind[OF same_rights_trans] same_rights_eq split: sum.split)

lemma override_user [simp]:
  "c_user (override_config opt cfg) = c_user cfg" "c_chroot (override_config opt cfg) = c_chroot cfg"
  "c_user (resolve_listen sa cfg) = c_user cfg" "c_chroot (resolve_listen sa cfg) = c_chroot cfg"
  by (simp_all add: override_config_def resolve_listen_def Let_def split: option.split)

lemma serving_change: "(\<And>cfg. c_user (f cfg) = c_user cfg \<and> c_chroot (f cfg) = c_chroot cfg) \<Longrightarrow> moves serving_move (change_cfg f)"
  by (rule moves_change_cfg) (auto simp: serving_move_def same_rights_def same_user_def)

lemma serving_open_pidfile: "moves serving_move (open_pidfile env)"
  unfolding moves_def
proof (intro allI impI)
  fix p a q
  assume o: "open_pidfile env p = Ran a q"
  show "serving_move p q"
  proof (cases "pr_pid_file p")
    case (Some path)
    let ?p = "p\<lparr>pr_trace := pr_trace p @ [(pr_uid p, OpenPidfile path)]\<rparr>"
    obtain h st fs where "q = ?p\<lparr>pr_pfh := h, pr_pid := st, pr_atexit := fs\<rparr>"
      using o Some by (auto simp: open_pidfile_def pbind_def perform_def modify_def register_def die_goes_not_on
          split: option.splits sum.splits if_splits)
    then show ?thesis
      by (auto simp: serving_move_def same_rights_def same_user_def intro: exI[of _ "[OpenPidfile path]"])
  qed (use o in \<open>simp add: open_pidfile_def\<close>)
qed

lemma serving_write_pidfile: "moves serving_move (write_pidfile env)"
  unfolding moves_def
proof (intro allI impI)
  fix p a q
  assume o: "write_pidfile env p = Ran a q"
  show "serving_move p q"
  proof (cases "pr_pid_file p = None")
    case False
    let ?p = "p\<lparr>pr_trace := pr_trace p @ [(pr_uid p, WritePid)]\<rparr>"
    obtain h st where "q = ?p\<lparr>pr_pfh := h, pr_pid := st\<rparr>"
      using o False by (auto simp: write_pidfile_def pbind_def perform_def modify_def check_def preturn_def die_goes_not_on
          split: outcome.splits if_splits)
    then show ?thesis
      by (auto simp: serving_move_def same_rights_def same_user_def intro: exI[of _ "[WritePid]"])
  qed (use o in \<open>simp add: write_pidfile_def\<close>)
qed

lemmas serving_moves = moves_return moves_check moves_component moves_modify moves_register moves_get_cfg
  serving_perform moves_die serving_open_pidfile serving_write_pidfile serving_move_eq

lemma serve_moves: "moves serving_move (ng_serve env sa opt)"
proof -
  note bind = moves_bind[OF serving_move_trans]
  have "moves serving_move (set_log target)" for target
    unfolding set_log_def by (auto intro!: bind serving_moves)
  moreover have "moves serving_move (start_server env)"
    unfolding start_server_def by (auto intro!: bind serving_moves split: prod.split)
  moreover have "moves serving_move (become_daemon env opt sa)"
    unfolding become_daemon_def by (auto intro!: bind serving_moves)
  moreover have "moves serving_move (notify_systemd env)"
    unfolding notify_systemd_def by (auto intro!: bind serving_moves split: option.split)
  moreover have "moves serving_move (log_target env opt sa)"
    unfolding log_target_def by (auto intro!: serving_moves)
  ultimately show ?thesis unfolding ng_serve_def
    by (intro bind) (auto intro!: serving_moves serving_change)
qed

text \<open>What giving up the privileges asks of the system, in its order.\<close>

definition privilege_steps :: "string option \<Rightarrow> string option \<Rightarrow> nat \<Rightarrow> nat \<Rightarrow> action list" where
  "privilege_steps user new_root uid gid =
     (case user of None \<Rightarrow> [] | Some name \<Rightarrow> [InitGroups name]) @
     (case new_root of None \<Rightarrow> [] | Some r \<Rightarrow> [Chroot r, ChdirRoot]) @
     (case user of None \<Rightarrow> [] | Some name \<Rightarrow> [SetGid gid, SetUid uid])"

definition rights_of :: "user_os \<Rightarrow> 're config \<Rightarrow> 're process \<Rightarrow> 're process \<Rightarrow> bool" where
  "rights_of us cfg p q \<longleftrightarrow>
     pr_root q = (case first (c_chroot cfg) of None \<Rightarrow> pr_root p | Some r \<Rightarrow> Some r) \<and>
     (case first (c_user cfg) of
        None \<Rightarrow> pr_uid q = pr_uid p \<and> pr_gid q = pr_gid p \<and> pr_groups q = pr_groups p
      | Some name \<Rightarrow> uo_getpwnam us name = Some (pr_uid q, pr_gid q) \<and> pr_groups q = Some name)"

lemma drop_privileges_Ran:
  assumes "drop_privileges os us user new_root p = Ran u q"
  shows "pr_cfg q = pr_cfg p \<and> pr_root q = (case new_root of None \<Rightarrow> pr_root p | Some r \<Rightarrow> Some r) \<and>
    (case user of None \<Rightarrow> pr_uid q = pr_uid p \<and> pr_gid q = pr_gid p \<and> pr_groups q = pr_groups p
     | Some name \<Rightarrow> uo_getpwnam us name = Some (pr_uid q, pr_gid q) \<and> pr_groups q = Some name) \<and>
    pr_trace q = pr_trace p @ map (Pair (pr_uid p)) (privilege_steps user new_root (pr_uid q) (pr_gid q))"
proof -
  note defs = drop_privileges_def sys_initgroups_def sys_chroot_def sys_setgid_def sys_setuid_def with_uid_def pbind_Ran
    goes_on die_goes_not_on privilege_steps_def
  show ?thesis
    using assms by (cases user; cases new_root) (auto simp: defs split: option.splits prod.splits)
qed

lemma give_up_privileges_Ran:
  assumes "give_up_privileges env p = Ran u q" "pr_cfg p = Cfg cfg"
  shows "pr_cfg q = Cfg cfg \<and> rights_of (ng_users env) cfg p q \<and>
    pr_trace q = pr_trace p @
      map (Pair (pr_uid p)) (privilege_steps (first (c_user cfg)) (first (c_chroot cfg)) (pr_uid q) (pr_gid q))"
proof (cases "length (c_user cfg) > 0 \<or> length (c_chroot cfg) > 0")
  case True
  then have "drop_privileges (ng_pid env) (ng_users env) (first (c_user cfg)) (first (c_chroot cfg)) p = Ran u q"
    using assms by (simp add: give_up_privileges_def pbind_Ran goes_on)
  from drop_privileges_Ran[OF this] assms(2) show ?thesis by (simp add: rights_of_def split: option.splits)
next
  case False
  then have "c_user cfg = []" "c_chroot cfg = []" by auto
  then show ?thesis using assms
    by (simp add: give_up_privileges_def pbind_Ran goes_on rights_of_def first_def privilege_steps_def)
qed

lemma configure_cfg:
  assumes "ng_configure env args p = Ran r q"
  shows "\<exists>cfg. pr_cfg q = Cfg cfg"
  using assms by (auto simp: ng_configure_def pbind_Ran goes_on parse_config_def Let_def split: prod.splits)

lemma ng_start_Ran:
  assumes "ng_start env args p = Ran (w, t) q"
  obtains sa opt p1 cfg p2 where "ng_configure env args p = Ran (sa, opt, t) p1" "pr_cfg p1 = Cfg cfg"
    "give_up_privileges env p1 = Ran () p2" "ng_serve env sa opt p2 = Ran w q"
proof -
  obtain sa opt p1 p2 where s: "ng_configure env args p = Ran (sa, opt, t) p1"
    "give_up_privileges env p1 = Ran () p2" "ng_serve env sa opt p2 = Ran w q"
    using assms by (auto simp: ng_start_def pbind_Ran goes_on)
  from configure_cfg[OF s(1)] s that show ?thesis by blast
qed

text \<open>The steps up to the configuration do the same in every process.\<close>

lemma configure_again:
  assumes "ng_configure env args p = Ran r p1"
  shows "\<exists>p1'. ng_configure env args p' = Ran r p1' \<and> pr_cfg p1' = pr_cfg p1 \<and> pr_uid p1' = pr_uid p'"
proof -
  have s: "receive_sockets env p = Ran sa q \<Longrightarrow> \<exists>q'. receive_sockets env p' = Ran sa q' \<and> pr_uid q' = pr_uid p'" for sa p q p'
    by (auto simp: receive_sockets_def Let_def pbind_Ran goes_on die_goes_not_on split: if_splits)
  have o: "get_options_step env args p = Ran opt q \<Longrightarrow> get_options_step env args p' = Ran opt p'" for opt p q p'
    by (auto simp: get_options_step_def pbind_Ran goes_on exit_goes_not_on split: sum.splits)
  have c: "parse_config env opt p = Ran t q \<Longrightarrow> \<exists>q'. parse_config env opt p' = Ran t q' \<and> pr_cfg q' = pr_cfg q \<and> pr_uid q' = pr_uid p'"
    for opt t p q p'
    by (auto simp: parse_config_def Let_def pbind_Ran goes_on split: prod.splits)
  let ?l = "\<lambda>p. p\<lparr>pr_log := log_set (level_num Info) LOG_TARGET_STDERR (pr_log p)\<rparr>"
  let ?a = "\<lambda>p. p\<lparr>pr_atexit := ForgetConfig # LogClose # pr_atexit p\<rparr>"
  have i: "ng_configure env args p = Ran r p1 \<longleftrightarrow>
      (\<exists>sa p2 opt p3 t. receive_sockets env (?l p) = Ran sa p2 \<and> ng_atexit env LogClose \<and> ng_atexit env ForgetConfig \<and>
        ng_loop env \<and> get_options_step env args (?a p2) = Ran opt p3 \<and> parse_config env opt p3 = Ran t p1 \<and> r = (sa, opt, t))"
    for p p1
    by (auto simp: ng_configure_def pbind_Ran goes_on)
  obtain sa p2 opt p3 t where a: "receive_sockets env (?l p) = Ran sa p2" "ng_atexit env LogClose" "ng_atexit env ForgetConfig"
    "ng_loop env" "get_options_step env args (?a p2) = Ran opt p3" "parse_config env opt p3 = Ran t p1" "r = (sa, opt, t)"
    using assms i by auto
  obtain q2 where q2: "receive_sockets env (?l p') = Ran sa q2" "pr_uid q2 = pr_uid p'" using s[OF a(1), of "?l p'"] by auto
  obtain q where "parse_config env opt (?a q2) = Ran t q" "pr_cfg q = pr_cfg p1" "pr_uid q = pr_uid p'"
    using c[OF a(6), of "?a q2"] q2(2) by auto
  then show ?thesis using i[of p' q] a q2(1) o[OF a(5), of "?a q2"] by (intro exI[of _ q]) auto
qed

lemma freed_config_faults:
  "pr_cfg p = FreedCfg cfg \<Longrightarrow> ForgetConfig \<in> set fs \<Longrightarrow> \<exists>e. run_exit_functions os fs p = Die e"
proof (induction fs arbitrary: p)
  case (Cons f fs)
  show ?case
  proof (cases "run_exit_function os f p")
    case (Ret q)
    have "f \<noteq> ForgetConfig" using Ret Cons.prems(1) by (auto simp: forget_config_def)
    moreover have "pr_cfg q = FreedCfg cfg" using Ret Cons.prems(1) calculation
      by (cases f) (auto simp: remove_pidfile_def stop_keep_alive_def Let_def obind_eq_Ret split: if_splits)
    ultimately show ?thesis using Ret Cons by simp
  qed simp
qed simp

lemma die_freed: "pr_cfg p = FreedCfg cfg \<Longrightarrow> ForgetConfig \<in> set (pr_atexit p) \<Longrightarrow> \<exists>e. die os p = Fault e"
  using freed_config_faults[of p cfg "pr_atexit p" os] by (auto simp: die_def exit_with_def)

lemma stop_keep_alive_simps [simp]:
  "pr_cfg (stop_keep_alive p) = pr_cfg p" "pr_atexit (stop_keep_alive p) = pr_atexit p" "pr_uid (stop_keep_alive p) = pr_uid p"
  by (simp_all add: stop_keep_alive_def)

lemma serve_signals:
  assumes "ng_serve env sa opt p = Ran w q"
  shows "pr_signals q"
proof -
  obtain p1 p2 where p: "p2 = p1\<lparr>pr_signals := True\<rparr>" "notify_systemd env p2 = Ran () q"
    using assms by (auto simp: ng_serve_def pbind_Ran goes_on)
  then show ?thesis by (auto simp: notify_systemd_def pbind_Ran goes_on split: option.splits if_splits)
qed

text \<open>Only the end of the program replaces the process.\<close>

definition no_exec :: "('a, 're) step \<Rightarrow> bool" where
  "no_exec m \<longleftrightarrow> (\<forall>p q. m p \<noteq> Execed q)"

lemma no_exec_bind: "no_exec m \<Longrightarrow> (\<And>a. no_exec (f a)) \<Longrightarrow> no_exec (pbind m f)"
  by (auto simp: no_exec_def pbind_def split: result.splits)

lemma no_exec_exit: "no_exec (exit_with os s)" "no_exec (die os)"
  by (auto simp: no_exec_def exit_with_def die_def split: outcome.splits)

lemma die_no_exec [simp]: "die os p \<noteq> Execed q" "exit_with os s p \<noteq> Execed q"
  by (auto simp: exit_with_def die_def split: outcome.splits)

lemma checks_no_exec [simp]: "check os b p \<noteq> Execed q" "register os atexit e p \<noteq> Execed q"
  by (auto simp: check_def preturn_def register_def)

lemma no_exec_basic:
  "no_exec (preturn a)" "no_exec (modify f)" "no_exec (perform act)" "no_exec (check os b)" "no_exec (component os r)"
  "no_exec (register os atexit e)" "no_exec get_cfg" "no_exec (change_cfg g)"
  by (auto simp: no_exec_def preturn_def modify_def perform_def check_def component_def register_def get_cfg_def change_cfg_def
      split: outcome.splits cfg_object.splits if_splits)

lemmas no_exec = no_exec_bind no_exec_exit no_exec_basic

lemma no_exec_uid: "(\<And>uid. no_exec (f uid)) \<Longrightarrow> no_exec (with_uid f)"
  by (simp add: no_exec_def with_uid_def)

lemma configure_no_exec: "no_exec (ng_configure env args)"
  unfolding ng_configure_def receive_sockets_def get_options_step_def parse_config_def Let_def
  by (auto intro!: no_exec split: sum.split)

lemma privileges_no_exec: "no_exec (give_up_privileges env)"
  unfolding give_up_privileges_def drop_privileges_def sys_initgroups_def sys_chroot_def sys_setgid_def sys_setuid_def
  by (auto intro!: no_exec no_exec_uid split: option.split)

lemma pidfile_no_exec: "no_exec (open_pidfile env)" "no_exec (write_pidfile env)"
  by (auto simp: no_exec_def open_pidfile_def write_pidfile_def pbind_def perform_def modify_def
      split: option.splits sum.splits outcome.splits)

lemma serve_no_exec: "no_exec (ng_serve env sa opt)"
  unfolding ng_serve_def log_target_def set_log_def start_server_def become_daemon_def notify_systemd_def
  by (auto intro!: no_exec pidfile_no_exec split: option.split)

lemma start_no_exec: "no_exec (ng_start env args)"
  unfolding ng_start_def
  by (auto intro!: no_exec configure_no_exec privileges_no_exec serve_no_exec)

lemma ev_run_keeps: "ev_run env t timeout evs w p = Ran w' q \<Longrightarrow> pr_cfg q = pr_cfg p \<and> pr_uid q = pr_uid p"
  by (induction env t timeout evs w p rule: ev_run.induct)
    (auto simp: signal_cb_def Let_def keep_alive_cb_def perform_def modify_def pbind_def split: if_splits outcome.splits)

lemma ev_run_no_exec: "ev_run env t timeout evs w p \<noteq> Execed q"
  by (induction env t timeout evs w p rule: ev_run.induct)
    (auto simp: keep_alive_cb_def perform_def modify_def pbind_def split: outcome.splits)











lemma ng_finish_Execed:
  assumes "ng_finish env w p = Execed q" "pr_cfg p = Cfg cfg"
  shows "pr_cfg q = FreedCfg (cfg\<lparr>c_authorize := map wipe_section (c_authorize cfg)\<rparr>) \<and> pr_uid q = pr_uid p"
proof -
  let ?p = "p\<lparr>pr_trace := pr_trace p @ [(pr_uid p, StopServer)], pr_writer := Some (server_stop (server_of w Ctx))\<rparr>"
  obtain r where r: "remove_pidfile (ng_pid env) ?p = Ret r"
    using assms(1) by (auto simp: ng_finish_def stop_server_def pbind_def perform_def modify_def run_now_def split: if_splits outcome.splits)
  have "pr_cfg r = Cfg cfg \<and> pr_uid r = pr_uid p"
    using r assms(2) by (auto simp: remove_pidfile_def Let_def obind_eq_Ret split: if_splits)
  then show ?thesis using assms r
    by (auto simp: ng_finish_def stop_server_def pbind_def perform_def modify_def run_now_def forget_config_def split: if_splits)
qed

lemma die_exits: "holding n p \<Longrightarrow> \<exists>q. die os p = Exited EXIT_FAILURE q"
  using run_exit_functions_ok[of "pr_atexit p" p os] by (auto simp: die_def exit_with_def holding_def)

lemma pbind_stops: "m p = die os q \<Longrightarrow> pbind m f p = die os q"
  by (auto simp: die_def exit_with_def pbind_def split: outcome.split)

lemma pbind_perform: "pbind (perform a) f p = f () (p\<lparr>pr_trace := pr_trace p @ [(pr_uid p, a)]\<rparr>)"
  by (simp add: pbind_def perform_def modify_def)

lemma new_image: "new_process (fresh_image p)"
  by (simp add: new_process_def fresh_image_def)

text \<open>The log targets the command line can ask for.\<close>

definition SERVER_TARGETS :: "int set" where
  "SERVER_TARGETS = {- 1, LOG_TARGET_SYSLOG, LOG_TARGET_SYSLOG OR LOG_TARGET_STDERR}"

lemma server_option_target:
  assumes "so_log_target opt \<in> SERVER_TARGETS" "server_option c arg opt = Ret (Inr opt')"
  shows "so_log_target opt' \<in> SERVER_TARGETS"
proof -
  have "LOG_TARGET_SYSLOG OR t \<in> SERVER_TARGETS" if "t \<in> SERVER_TARGETS" "t \<noteq> - 1" for t
    using that by (auto simp: SERVER_TARGETS_def LOG_TARGET_SYSLOG_def LOG_TARGET_STDERR_def)
  moreover have "LOG_TARGET_SYSLOG \<in> SERVER_TARGETS" "LOG_TARGET_SYSLOG OR LOG_TARGET_STDERR \<in> SERVER_TARGETS"
    by (simp_all add: SERVER_TARGETS_def)
  ultimately show ?thesis using assms
    by (simp add: server_option_def split: if_split_asm) auto
qed

lemma server_options_target:
  assumes "server_get_options args = Ret (Inr opt)"
  shows "so_log_target opt \<in> SERVER_TARGETS"
proof -
  obtain r where r: "option_loop server_option SERVER_OPTSTRING [] args server_no_options = Ret r"
    "(case r of Inl status \<Rightarrow> Ret (Inl status)
      | Inr (opt, operands) \<Rightarrow> if operands \<noteq> [] then Die ''Unexpected non-option argument'' else Ret (Inr opt)) = Ret (Inr opt)"
    using assms by (auto simp: server_get_options_def obind_eq_Ret split: if_splits)
  then obtain operands where "option_loop server_option SERVER_OPTSTRING [] args server_no_options = Ret (Inr (opt, operands))"
    by (cases r) (auto split: if_splits)
  then show ?thesis
    by (rule option_loop_keeps[OF _ _ server_option_target]) (simp add: server_no_options_def SERVER_TARGETS_def)
qed

definition chosen_target :: "('p, 're) ng_env \<Rightarrow> server_options \<Rightarrow> int" where
  "chosen_target env opt =
     (if so_log_target opt \<noteq> - 1 then so_log_target opt
      else if ng_listen_fds env \<noteq> 0 then LOG_TARGET_SYSTEMD
      else if so_foreground opt then LOG_TARGET_STDERR else LOG_TARGET_SYSLOG)"

lemma pid_log: "write_pidfile env p = Ran a q \<Longrightarrow> pr_log q = pr_log p"
  by (auto simp: write_pidfile_def pbind_def perform_def modify_def check_def preturn_def die_goes_not_on
      split: outcome.splits if_splits)

lemma notify_log: "notify_systemd env p = Ran a q \<Longrightarrow> pr_log q = pr_log p"
  by (auto simp: notify_systemd_def pbind_Ran goes_on split: option.splits if_splits)

lemma log_set_target: "t \<noteq> - 1 \<Longrightarrow> lg_target (log_set lv t lg) = t"
  by (simp add: log_set_def Let_def)

lemma serve_log:
  assumes "ng_serve env sa opt p = Ran w q" "sa = ng_listen_fds env" "so_log_target opt \<in> SERVER_TARGETS"
  shows "lg_target (pr_log q) = chosen_target env opt \<and> (has_target (chosen_target env opt) LOG_TARGET_STDERR \<longrightarrow> so_foreground opt)"
proof -
  obtain target p1 p2 p3 where l: "log_target env opt sa p = Ran target p1" "set_log target p2 = Ran () p3"
    "\<exists>p4. write_pidfile env p3 = Ran () p4 \<and> notify_systemd env (p4\<lparr>pr_signals := True\<rparr>) = Ran () q"
    using assms(1) by (auto simp: ng_serve_def pbind_Ran goes_on)
  have t: "target = chosen_target env opt" using l(1) assms(2)
    by (auto simp: log_target_def chosen_target_def goes_on die_goes_not_on split: if_splits)
  have f: "so_log_target opt = - 1 \<or> so_foreground opt \<or> so_log_target opt AND LOG_TARGET_STDERR = 0" using l(1)
    by (auto simp: log_target_def die_goes_not_on split: if_splits)
  have "chosen_target env opt \<noteq> - 1" using assms(3)
    by (auto simp: chosen_target_def SERVER_TARGETS_def LOG_TARGET_SYSLOG_def LOG_TARGET_STDERR_def LOG_TARGET_SYSTEMD_def)
  then have "lg_target (pr_log p3) = chosen_target env opt"
    using l(2) t by (auto simp: set_log_def pbind_Ran goes_on log_set_target)
  moreover have "pr_log q = pr_log p3" using l(3) pid_log notify_log by force
  moreover have "has_target (chosen_target env opt) LOG_TARGET_STDERR \<longrightarrow> so_foreground opt"
    using f assms(3)
    by (auto simp: chosen_target_def SERVER_TARGETS_def has_target_def LOG_TARGET_SYSLOG_def LOG_TARGET_STDERR_def
        LOG_TARGET_SYSTEMD_def)
  ultimately show ?thesis by simp
qed

lemma get_options_step_Ran: "get_options_step env args p = Ran opt q \<longleftrightarrow> server_get_options args = Ret (Inr opt) \<and> q = p"
proof (cases "server_get_options args")
  case (Ret r)
  then show ?thesis
    by (cases r) (auto simp: get_options_step_def component_def pbind_def preturn_def exit_goes_not_on)
qed (simp add: get_options_step_def component_def pbind_Ran die_goes_not_on)

lemma configure_options:
  assumes "ng_configure env args p = Ran (sa, opt, t) q"
  shows "sa = ng_listen_fds env \<and> server_get_options args = Ret (Inr opt)"
  using assms
  by (auto simp: ng_configure_def receive_sockets_def get_options_step_Ran Let_def pbind_Ran goes_on)

section \<open>A sample run\<close>

definition ng_sample_config :: "string config" where
  "ng_sample_config = (default_config ''/var'' 5)\<lparr>c_command_file := ''/run/nagios.cmd'', c_max_command_size := 0,
     c_max_queue_size := 1, c_timeout := 0, c_user := [''nagios''], c_pid_file := [''/run/x.pid''],
     c_authorize := [\<lparr>a_title = ''alice'', a_password = [''secret''], a_hosts = [''x''], a_services = [], a_commands = []\<rparr>]\<rparr>"

definition ng_sample :: "(unit, string) ng_env" where
  "ng_sample = \<lparr>ng_listen_fds = 0, ng_atexit = (\<lambda>_. True), ng_loop = True, ng_default_conf = ''/etc/nsca-ng.cfg'',
     ng_parser = \<lparr>tilde_expand = Some, stat_type = (\<lambda>_. Some Regular), walk = (\<lambda>_. ([], True)),
       cfg_include = (\<lambda>p st. Ret (0, st)), cfg_parse = (\<lambda>p st. Ret (0, st)), cfg_parse_buf = (\<lambda>p st. Ret (0, st))\<rparr>,
     ng_parsed = (\<lambda>_. ng_sample_config), ng_parser_state = \<lparr>n_included = 0, parser = ()\<rparr>,
     ng_hcreate = (\<lambda>n. Some (n + 3)), ng_setopt = plain_setopt Some,
     ng_users = \<lparr>uo_getpwnam = (\<lambda>_. Some (100, 200)), uo_initgroups = (\<lambda>uid _. uid = 0), uo_chroot = (\<lambda>uid _. uid = 0),
       uo_chdir = (\<lambda>_. True), uo_setgid = (\<lambda>uid _. uid = 0), uo_setuid = (\<lambda>uid _. uid = 0)\<rparr>,
     ng_access = (\<lambda>_. True), ng_pid = pid_sample, ng_openssl = sample_openssl, ng_fifo = sample_os,
     ng_ssl = (\<lambda>_. sample_ssl), ng_regexec = (\<lambda>re s. 0), ng_daemon = True, ng_watchdog = None, ng_execvp = True\<rparr>"

definition ng_blank :: "string process" where
  "ng_blank = \<lparr>pr_uid = 0, pr_gid = 0, pr_groups = None, pr_root = None, pr_log = log_initial, pr_cfg = NoCfg,
     pr_pid_file = None, pr_pfh = NoHandle, pr_pid = pid_start, pr_writer = None, pr_keep_alive = False, pr_signals = False,
     pr_restart = False, pr_atexit = [], pr_trace = []\<rparr>"

lemma ng_blank_new: "new_process ng_blank"
  by (simp add: new_process_def ng_blank_def)


definition ng_sample_table :: "string auth_section hash_table" where
  "ng_sample_table = \<lparr>room = 4,
     entries = [(''alice'', Some \<lparr>a_title = ''alice'', a_password = [''secret''], a_hosts = [''x''], a_services = [], a_commands = []\<rparr>)]\<rparr>"

lemma ng_sample_conf:
  "conf_parse (ng_parser ng_sample) (ng_parsed ng_sample) (ng_hcreate ng_sample) (ng_setopt ng_sample) path (ng_parser_state ng_sample)
     = Ret (ng_sample_config, ng_sample_table)"
  "shared_sections ng_sample_table ng_sample_config = ng_sample_config"
  by (simp_all add: ng_sample_def conf_parse_def check_parse_success_def CFG_SUCCESS_def process_auth_sections_def
      ng_sample_config_def default_config_def ng_sample_table_def shared_sections_def fallback_to_defaults_def
      validate_auth_section_def hash_new_def hash_insert_def hsearch_enter_def hash_lookup_def hsearch_find_def)

lemma ng_sample_options: "server_get_options [] = Ret (Inr server_no_options)"
  by (simp add: server_get_options_def option_loop.simps)

definition ng_sample_ready :: "string process" where
  "ng_sample_ready = ng_blank\<lparr>pr_log := log_set (level_num Info) LOG_TARGET_STDERR log_initial,
     pr_trace := [(0, CloseDescriptors), (0, ReadConfig ''/etc/nsca-ng.cfg'')], pr_atexit := [ForgetConfig, LogClose],
     pr_cfg := Cfg ng_sample_config\<rparr>"

lemma ng_sample_configure: "ng_configure ng_sample [] ng_blank = Ran (0, server_no_options, ng_sample_table) ng_sample_ready"
proof -
  have e: "ng_listen_fds ng_sample = 0" "ng_atexit ng_sample f" "ng_loop ng_sample" "ng_default_conf ng_sample = ''/etc/nsca-ng.cfg''" for f
    by (simp_all add: ng_sample_def)
  show ?thesis
    by (simp add: ng_configure_def receive_sockets_def get_options_step_def parse_config_def pbind_def modify_def perform_def
        register_def check_def preturn_def component_def ng_sample_options ng_sample_conf e ng_blank_def server_no_options_def
        ng_sample_ready_def)
qed

lemmas step_defs = pbind_def modify_def perform_def register_def check_def preturn_def component_def get_cfg_def change_cfg_def
  set_log_def with_uid_def

text \<open>The process after it has given up its privileges, and its server.\<close>

definition ng_sample_user :: "string process" where
  "ng_sample_user = ng_sample_ready\<lparr>pr_uid := 100, pr_gid := 200, pr_groups := Some ''nagios'',
     pr_trace := pr_trace ng_sample_ready @ [(0, InitGroups ''nagios''), (0, SetGid 200), (0, SetUid 100)]\<rparr>"

lemma ng_sample_privileges: "give_up_privileges ng_sample ng_sample_ready = Ran () ng_sample_user"
  by (simp add: give_up_privileges_def drop_privileges_def sys_initgroups_def sys_setgid_def sys_setuid_def step_defs first_def
      ng_sample_def ng_sample_user_def ng_sample_ready_def ng_sample_config_def default_config_def ng_blank_def)

lemma ng_sample_serve:
  "\<exists>w p. ng_serve ng_sample 0 server_no_options ng_sample_user = Ran w p \<and> pr_pid_file p = Some ''/run/x.pid'' \<and>
     pr_pfh p = Handle \<lparr>pf_fd = 11, pf_path = ''/run/x.pid'', pf_id = (1, 2)\<rparr> \<and>
     pr_atexit p = [RemovePidfile, ForgetConfig, LogClose] \<and> pr_uid p = 100 \<and> pr_signals p \<and> \<not> pr_keep_alive p \<and> \<not> pr_restart p \<and>
     (\<exists>cfg. pr_cfg p = Cfg cfg \<and> c_user cfg = [''nagios''] \<and> c_chroot cfg = [] \<and> c_listen cfg = ''*:5668'' \<and> c_timeout cfg = 0)"
proof -
  let ?h = "\<lparr>pf_fd = 11, pf_path = ''/run/x.pid'', pf_id = (1, 2)\<rparr>"
  obtain st1 where o: "pidfile_open pid_sample ''/run/x.pid'' pid_start = Some (Inr ?h, st1)"
    using pid_sample_opens by blast
  obtain st2 where w: "pidfile_write pid_sample (Handle ?h) st1 = Ret (None, Handle ?h, st2)"
    using pid_sample_writes by blast
  have c: "strchr ''*'' (CHR '':'') = None" by (simp add: strchr_def)
  obtain ctx fd g where g: "sample_started = (ctx, fd, g)" by (cases sample_started)
  have s: "server_start sample_openssl sample_os ''*:5668'' ciphers ''/run/nagios.cmd'' ''/tmp'' 0 1 0 = Ret (ctx, fd, g)"
    for ciphers
    using sample_server_start[of ciphers] g by simp
  show ?thesis
    by (simp add: ng_serve_def log_target_def open_pidfile_def start_server_def become_daemon_def write_pidfile_def
        notify_systemd_def step_defs ng_sample_def ng_sample_user_def ng_sample_ready_def ng_sample_config_def
        default_config_def ng_blank_def server_no_options_def override_config_def resolve_listen_def SERVER_PORT_def
        first_def o [simplified] w [simplified] s [simplified] c)
qed

lemma ng_sample_start:
  "\<exists>w t p cfg. ng_start ng_sample [] ng_blank = Ran (w, t) p \<and> pr_uid p = 100 \<and> pr_cfg p = Cfg cfg \<and> c_user cfg = [''nagios''] \<and>
     c_chroot cfg = []"
proof -
  obtain w p cfg where "ng_serve ng_sample 0 server_no_options ng_sample_user = Ran w p" "pr_uid p = 100"
    "pr_cfg p = Cfg cfg" "c_user cfg = [''nagios'']" "c_chroot cfg = []"
    using ng_sample_serve by blast
  then show ?thesis by (simp add: ng_start_def pbind_def ng_sample_configure ng_sample_privileges preturn_def)
qed

text \<open>Whether \<open>execvp\<close> will succeed is not known before.\<close>

lemma start_before_exec: "ng_start (env\<lparr>ng_execvp := b\<rparr>) args = ng_start env args"
proof -
  let ?env = "env\<lparr>ng_execvp := b\<rparr>"
  have e: "ng_pid ?env = ng_pid env" "ng_atexit ?env = ng_atexit env" "ng_users ?env = ng_users env"
    "ng_default_conf ?env = ng_default_conf env" by simp_all
  have "open_pidfile ?env = open_pidfile env" "write_pidfile ?env = write_pidfile env"
    unfolding fun_eq_iff open_pidfile_def write_pidfile_def e by simp_all
  moreover have "start_server ?env = start_server env" "become_daemon ?env = become_daemon env"
    "notify_systemd ?env = notify_systemd env" "log_target ?env = log_target env"
    unfolding fun_eq_iff start_server_def become_daemon_def notify_systemd_def log_target_def e by simp_all
  ultimately have "ng_serve ?env = ng_serve env" by (intro ext) (simp add: ng_serve_def)
  moreover have "receive_sockets ?env = receive_sockets env" "get_options_step ?env = get_options_step env"
    "parse_config ?env = parse_config env" "give_up_privileges ?env = give_up_privileges env"
    unfolding fun_eq_iff receive_sockets_def get_options_step_def parse_config_def give_up_privileges_def e by simp_all
  ultimately show ?thesis by (simp add: ng_start_def ng_configure_def)
qed

text \<open>The server is told to restart.\<close>

lemma ng_sample_restart:
  "\<exists>q cfg. ng_main ng_sample [] [Signal SIGHUP] ng_blank = Execed q \<and> pr_uid q = 100 \<and> pr_cfg q = FreedCfg cfg \<and>
     c_user cfg = [''nagios''] \<and> pr_pfh q = FreedHandle"
proof -
  obtain w p cfg where s: "ng_serve ng_sample 0 server_no_options ng_sample_user = Ran w p" "pr_pid_file p = Some ''/run/x.pid''"
    "pr_pfh p = Handle \<lparr>pf_fd = 11, pf_path = ''/run/x.pid'', pf_id = (1, 2)\<rparr>" "pr_uid p = 100" "pr_signals p"
    "\<not> pr_keep_alive p" "pr_cfg p = Cfg cfg" "c_user cfg = [''nagios'']"
    using ng_sample_serve by blast
  have e: "ng_pid ng_sample = pid_sample" "ng_execvp ng_sample" by (simp_all add: ng_sample_def)
  obtain st where r: "pidfile_remove pid_sample (Handle \<lparr>pf_fd = 11, pf_path = ''/run/x.pid'', pf_id = (1, 2)\<rparr>) (pr_pid p) =
      Ret (None, FreedHandle, st)"
    using pid_sample_removes by blast
  show ?thesis
    by (simp add: ng_main_def ng_start_def ng_finish_def stop_server_def step_defs ng_sample_configure ng_sample_privileges s [simplified]
        signal_cb_def run_now_def remove_pidfile_def forget_config_def stop_keep_alive_def r [simplified] e)
qed

section \<open>Properties\<close>



text \<open>
  Property C8. When the server is up, it runs as the user, with the group and the supplementary
  groups of the user, and in the root directory of its configuration. Only the descriptors
  were closed and the configuration was read before; then the groups were set, the root
  directory changed, and group and user ID given up, in this order; and whatever else was
  asked of the system, from the check of the temporary directory and the PID file to the
  listening socket and the command file, was asked with the user ID that was left.
\<close>

theorem privileges_dropped:
  assumes "ng_start env args p = Ran (w, t) q"
  shows "\<exists>cfg early late. pr_cfg q = Cfg cfg \<and> rights_of (ng_users env) cfg p q \<and>
    set early \<subseteq> insert CloseDescriptors (range ReadConfig) \<and>
    pr_trace q = pr_trace p @
      map (Pair (pr_uid p)) (early @ privilege_steps (first (c_user cfg)) (first (c_chroot cfg)) (pr_uid q) (pr_gid q)) @
      map (Pair (pr_uid q)) late"
proof -
  obtain sa opt p1 cfg p2 where s: "ng_configure env args p = Ran (sa, opt, t) p1" "pr_cfg p1 = Cfg cfg"
    "give_up_privileges env p1 = Ran () p2" "ng_serve env sa opt p2 = Ran w q"
    using ng_start_Ran[OF assms] .
  have a: "same_rights (insert CloseDescriptors (range ReadConfig)) p p1" by (rule movesD[OF configure_moves s(1)])
  have b: "pr_cfg p2 = Cfg cfg" "rights_of (ng_users env) cfg p1 p2"
    "pr_trace p2 = pr_trace p1 @
      map (Pair (pr_uid p1)) (privilege_steps (first (c_user cfg)) (first (c_chroot cfg)) (pr_uid p2) (pr_gid p2))"
    using give_up_privileges_Ran[OF s(3,2)] by simp_all
  have c: "serving_move p2 q" by (rule movesD[OF serve_moves s(4)])
  obtain cfg' where cfg': "pr_cfg q = Cfg cfg'" "c_user cfg' = c_user cfg" "c_chroot cfg' = c_chroot cfg"
    using c b(1) by (auto simp: serving_move_def same_user_def)
  obtain early where e: "set early \<subseteq> insert CloseDescriptors (range ReadConfig)"
    "pr_trace p1 = pr_trace p @ map (Pair (pr_uid p)) early" using a by (auto simp: same_rights_def)
  obtain late where l: "pr_trace q = pr_trace p2 @ map (Pair (pr_uid p2)) late"
    using c by (auto simp: serving_move_def same_rights_def)
  have "credentials p1 = credentials p" "credentials q = credentials p2"
    using a c by (simp_all add: same_rights_def serving_move_def)
  then have "rights_of (ng_users env) cfg' p q" "pr_uid p1 = pr_uid p" "pr_uid q = pr_uid p2" "pr_gid q = pr_gid p2"
    using b(2) cfg'(2,3) by (auto simp: rights_of_def credentials_def split: option.split)
  then show ?thesis using e l b(3) cfg' by (intro exI[of _ cfg'] exI[of _ early] exI[of _ late]) simp
qed

lemma privileges_dropped_witness:
  "\<exists>w t q early late. ng_start ng_sample [] ng_blank = Ran (w, t) q \<and> pr_trace q =
     map (Pair 0) (early @ [InitGroups ''nagios'', SetGid 200, SetUid 100]) @ map (Pair 100) late"
proof -
  obtain w t q cfg' where q: "ng_start ng_sample [] ng_blank = Ran (w, t) q" "pr_uid q = 100" "pr_cfg q = Cfg cfg'"
    "c_user cfg' = [''nagios'']" "c_chroot cfg' = []"
    using ng_sample_start by blast
  from privileges_dropped[OF q(1)] obtain cfg early late where c: "pr_cfg q = Cfg cfg" "rights_of (ng_users ng_sample) cfg ng_blank q"
    "pr_trace q = pr_trace ng_blank @ map (Pair (pr_uid ng_blank))
       (early @ privilege_steps (first (c_user cfg)) (first (c_chroot cfg)) (pr_uid q) (pr_gid q)) @ map (Pair (pr_uid q)) late"
    by blast
  have f: "first (c_user cfg) = Some ''nagios''" "first (c_chroot cfg) = None" using c(1) q(3-5) by (auto simp: first_def)
  have "pr_gid q = 200" using c(2) f by (simp add: rights_of_def ng_sample_def)
  then have "pr_trace q = map (Pair 0) (early @ [InitGroups ''nagios'', SetGid 200, SetUid 100]) @ map (Pair 100) late"
    using c(3) q(2) f by (simp add: privilege_steps_def ng_blank_def)
  with q(1) show ?thesis by blast
qed



text \<open>
  Property C21. If the server was told to restart and \<open>execvp\<close> fails, the process is at fault:
  the configuration has been freed by then, and \<open>die\<close> makes the exit functions use it again.
\<close>

theorem failed_restart_faults:
  assumes "new_process p" "ng_start env args p = Ran (w, t) q" "\<not> ng_execvp env"
  shows "\<exists>e. ng_main env args (Signal SIGHUP # evs) p = Fault e"
proof -
  obtain cfg where c: "using_cfg cfg 4 q"
    using safeD[OF safe_ng_start new_holding[OF assms(1)], of env args] assms(2) by auto
  obtain sa opt p2 where "ng_serve env sa opt p2 = Ran w q" using ng_start_Ran[OF assms(2)] .
  then have "pr_signals q" by (rule serve_signals)
  have m: "ng_main env args (Signal SIGHUP # evs) p = ng_finish env w (signal_cb SIGHUP q)"
    using assms(2) c \<open>pr_signals q\<close> by (simp add: ng_main_def pbind_def get_cfg_def using_cfg_def)
  let ?p = "(signal_cb SIGHUP q)\<lparr>pr_trace := pr_trace q @ [(pr_uid q, StopServer)], pr_writer := Some (server_stop (server_of w Ctx))\<rparr>"
  have f: "ForgetConfig \<in> set (pr_atexit q)" using c by (auto simp: using_cfg_def holding_def exits_ready_def)
  show ?thesis
  proof (cases "remove_pidfile (ng_pid env) ?p")
    case (Die e)
    then show ?thesis unfolding m
      by (simp add: ng_finish_def stop_server_def pbind_def perform_def modify_def run_now_def signal_cb_def Let_def)
  next
    case (Ret r)
    have r: "pr_cfg r = Cfg cfg \<and> pr_atexit r = pr_atexit q"
      using Ret c by (auto simp: remove_pidfile_def signal_cb_def Let_def obind_eq_Ret using_cfg_def split: if_splits)
    let ?r = "stop_keep_alive (r\<lparr>pr_cfg := FreedCfg (cfg\<lparr>c_authorize := map wipe_section (c_authorize cfg)\<rparr>)\<rparr>)"
    obtain e where "die (ng_pid env) (?r\<lparr>pr_trace := pr_trace ?r @ [(pr_uid r, Exec)]\<rparr>) = (Fault e :: (unit, 'a process) result)"
      using die_freed[of "?r\<lparr>pr_trace := pr_trace ?r @ [(pr_uid r, Exec)]\<rparr>"] r f by auto
    then show ?thesis using Ret r assms(3) unfolding m
      by (simp add: ng_finish_def stop_server_def pbind_def perform_def modify_def run_now_def signal_cb_def Let_def forget_config_def)
  qed
qed

lemma failed_restart_faults_witness:
  "\<exists>e. ng_main (ng_sample\<lparr>ng_execvp := False\<rparr>) [] [Signal SIGHUP] ng_blank = Fault e"
proof -
  let ?env = "ng_sample\<lparr>ng_execvp := False\<rparr>"
  obtain w t q where "ng_start ng_sample [] ng_blank = Ran (w, t) q" using ng_sample_start by blast
  then have "ng_start ?env [] ng_blank = Ran (w, t) q" unfolding start_before_exec .
  then show ?thesis by (rule failed_restart_faults[OF ng_blank_new]) simp
qed

text \<open>
  Property C20. A server that gave up root restarts for nothing: the new image reads the same
  configuration, is not allowed to set its groups any more, and ends before it listens.
\<close>

theorem restart_needs_privileges:
  assumes "new_process p" "ng_main env args evs p = Execed q" "pr_cfg q = FreedCfg cfg" "c_user cfg \<noteq> []" "pr_uid q \<noteq> 0"
    and "\<forall>uid name. uid \<noteq> 0 \<longrightarrow> \<not> uo_initgroups (ng_users env) uid name"
  shows "\<exists>q'. ng_main env args evs' (fresh_image q) = Exited EXIT_FAILURE q'"
proof -
  obtain w t p1 cfg1 w' p2 where s: "ng_start env args p = Ran (w, t) p1" "pr_cfg p1 = Cfg cfg1"
    "ev_run env t (c_timeout cfg1) evs w p1 = Ran w' p2" "ng_finish env w' p2 = Execed q"
  proof (cases "ng_start env args p")
    case (Ran r p1)
    obtain w t where r: "r = (w, t)" by (cases r)
    obtain cfg1 where c: "pr_cfg p1 = Cfg cfg1"
      using safeD[OF safe_ng_start new_holding[OF assms(1)], of env args] Ran r by (auto simp: using_cfg_def)
    show ?thesis
      using assms(2) that Ran r c ev_run_no_exec[of env t "c_timeout cfg1" evs w p1 q]
      by (cases "ev_run env t (c_timeout cfg1) evs w p1") (auto simp: ng_main_def pbind_def get_cfg_def)
  qed (use assms(2) start_no_exec[of env args] in \<open>auto simp: ng_main_def pbind_def no_exec_def\<close>)
  obtain sa opt p3 cfg3 p4 where b: "ng_configure env args p = Ran (sa, opt, t) p3" "pr_cfg p3 = Cfg cfg3"
    "give_up_privileges env p3 = Ran () p4" "ng_serve env sa opt p4 = Ran w p1"
    using ng_start_Ran[OF s(1)] .
  have "c_user cfg1 = c_user cfg3"
    using movesD[OF serve_moves b(4)] give_up_privileges_Ran[OF b(3,2)] s(2)
    by (auto simp: serving_move_def same_user_def)
  moreover have "c_user cfg = c_user cfg1"
    using ng_finish_Execed[OF s(4)] ev_run_keeps[OF s(3)] s(2) assms(3) by auto
  ultimately obtain name where n: "first (c_user cfg3) = Some name"
    using assms(4) by (cases "c_user cfg3") (auto simp: first_def)
  obtain r where r: "ng_configure env args (fresh_image q) = Ran (sa, opt, t) r" "pr_cfg r = Cfg cfg3" "pr_uid r = pr_uid q"
    using configure_again[OF b(1), of "fresh_image q"] b(2) by (auto simp: fresh_image_def)
  have h: "holding 2 r"
    using safeD[OF safe_ng_configure new_holding[OF new_image], of env args q] r(1) by (simp add: configured_def)
  have l: "length (c_user cfg3) > 0" using n by (cases "c_user cfg3") (simp_all add: first_def)
  have "\<not> uo_initgroups (ng_users env) (pr_uid r) name" using assms(5,6) r(3) by simp
  have "\<exists>r'. drop_privileges (ng_pid env) (ng_users env) (Some name) (first (c_chroot cfg3)) r = die (ng_pid env) r' \<and> holding 2 r'"
  proof (cases "uo_getpwnam (ng_users env) name")
    case None
    then show ?thesis using h by (auto simp: drop_privileges_def pbind_stops)
  next
    case (Some pw)
    let ?r = "r\<lparr>pr_trace := pr_trace r @ [(pr_uid r, InitGroups name)]\<rparr>"
    have "sys_initgroups (ng_pid env) (ng_users env) name r = die (ng_pid env) ?r"
      using \<open>\<not> uo_initgroups (ng_users env) (pr_uid r) name\<close>
      by (simp add: sys_initgroups_def with_uid_def pbind_perform check_def pbind_stops)
    then have "pbind (pbind (sys_initgroups (ng_pid env) (ng_users env) name) (\<lambda>_. preturn (Some pw))) f r = die (ng_pid env) ?r"
      for f :: "_ \<Rightarrow> (unit, 'a) step"
      by (intro pbind_stops)
    then show ?thesis using h Some by (auto simp: drop_privileges_def)
  qed
  then have "\<exists>r'. give_up_privileges env r = die (ng_pid env) r' \<and> holding 2 r'"
    using l n r(2) by (simp add: give_up_privileges_def pbind_def get_cfg_def)
  then have "\<exists>q'. give_up_privileges env r = Exited EXIT_FAILURE q'" using die_exits by metis
  then show ?thesis using r(1) by (auto simp: ng_main_def ng_start_def pbind_def)
qed

lemma restart_needs_privileges_witness:
  "\<exists>q q'. ng_main ng_sample [] [Signal SIGHUP] ng_blank = Execed q \<and> ng_main ng_sample [] [] (fresh_image q) = Exited EXIT_FAILURE q'"
proof -
  obtain q cfg where q: "ng_main ng_sample [] [Signal SIGHUP] ng_blank = Execed q" "pr_uid q = 100" "pr_cfg q = FreedCfg cfg"
    "c_user cfg = [''nagios'']"
    using ng_sample_restart by blast
  have "\<forall>uid name. uid \<noteq> 0 \<longrightarrow> \<not> uo_initgroups (ng_users ng_sample) uid name" by (simp add: ng_sample_def)
  with restart_needs_privileges[OF ng_blank_new q(1,3)] q(2,4) have "\<exists>q'. ng_main ng_sample [] [] (fresh_image q) = Exited EXIT_FAILURE q'"
    by simp
  with q(1) show ?thesis by blast
qed

text \<open>
  Once the server is up it logs to the targets the command line has chosen, or
  else to the one that fits the way it was started; and it writes to the standard error
  output only if it was asked to stay in the foreground.
\<close>

theorem ng_log_target:
  assumes "ng_start env args p = Ran (w, t) q"
  shows "\<exists>opt. server_get_options args = Ret (Inr opt) \<and> lg_target (pr_log q) = chosen_target env opt \<and>
    (has_target (lg_target (pr_log q)) LOG_TARGET_STDERR \<longrightarrow> so_foreground opt)"
proof -
  obtain sa opt p1 cfg p2 where s: "ng_configure env args p = Ran (sa, opt, t) p1" "ng_serve env sa opt p2 = Ran w q"
    using ng_start_Ran[OF assms] by metis
  from configure_options[OF s(1)] serve_log[OF s(2)] server_options_target show ?thesis by auto
qed

lemma ng_log_target_witness:
  "\<exists>w t q. ng_start ng_sample [] ng_blank = Ran (w, t) q \<and> lg_target (pr_log q) = LOG_TARGET_SYSLOG"
proof -
  obtain w t q where q: "ng_start ng_sample [] ng_blank = Ran (w, t) q" using ng_sample_start by blast
  have "chosen_target ng_sample server_no_options = LOG_TARGET_SYSLOG"
    by (simp add: chosen_target_def server_no_options_def ng_sample_def)
  with ng_log_target[OF q] q show ?thesis by (auto simp: ng_sample_options)
qed

end
