(* ===== verification/Xprintf.thy ===== *)
theory Xprintf
  imports Numbers "HOL-Library.Word"
begin

text \<open>
  The replacement of the \<open>printf\<close> family, \<open>src/lib/xprintf.c\<close>, on a machine with 32-bit \<open>int\<close>
  and 64-bit \<open>long\<close>, \<open>intmax_t\<close> and \<open>size_t\<close>. The arithmetic of \<open>long double\<close> and the separator
  characters of the locale are parameters. A write outside the buffer is noted in the state,
  a read outside a string and a signed overflow end the run, and an argument of another type
  than the conversion asks for is undefined as well.
\<close>

section \<open>State\<close>

datatype pstate = S_DEFAULT | S_FLAGS | S_WIDTH | S_DOT | S_PRECISION | S_MOD | S_CONV

datatype pflag =
    F_MINUS | F_PLUS | F_SPACE | F_NUM | F_ZERO | F_QUOTE | F_UP | F_UNSIGNED | F_TYPE_G | F_TYPE_E

datatype pmod = C_NONE | C_CHAR | C_SHORT | C_LONG | C_LLONG | C_LDOUBLE | C_SIZE | C_PTRDIFF | C_INTMAX

text \<open>
  The arguments: integers and pointers as they are passed, floating-point numbers, strings as
  the memory object they point into, and the targets of \<open>%n\<close>.
\<close>

datatype 'f va =
    IntVal "64 word"
  | DoubleVal 'f
  | StrVal "bytes option"
  | PtrVal "64 word"
  | NPtr nat

record out =
  o_str :: bytes
  o_len :: nat
  o_wild :: bool

record 'f ld_ops =
  ld_le :: "'f \<Rightarrow> 'f \<Rightarrow> bool"
  ld_lt :: "'f \<Rightarrow> 'f \<Rightarrow> bool"
  ld_eq :: "'f \<Rightarrow> 'f \<Rightarrow> bool"
  ld_neg :: "'f \<Rightarrow> 'f"
  ld_add :: "'f \<Rightarrow> 'f \<Rightarrow> 'f"
  ld_sub :: "'f \<Rightarrow> 'f \<Rightarrow> 'f"
  ld_mul :: "'f \<Rightarrow> 'f \<Rightarrow> 'f"
  ld_div :: "'f \<Rightarrow> 'f \<Rightarrow> 'f"
  ld_of_nat :: "nat \<Rightarrow> 'f"
  ld_half :: 'f
  ld_trunc :: "'f \<Rightarrow> nat"

record 'f print_env =
  thousands_sep :: "string option"
  decimal_point :: "string option"
  ld_ops_of :: "'f ld_ops"

definition INT_MAX :: int where "INT_MAX = 2 ^ 31 - 1"
definition UINTMAX_MAX :: nat where "UINTMAX_MAX = 2 ^ 64 - 1"
definition MAX_CONVERT_LENGTH :: nat where "MAX_CONVERT_LENGTH = 43"

text \<open>The result of an operation on \<open>int\<close>.\<close>

definition as_int :: "int \<Rightarrow> int outcome" where
  "as_int i = (if - (2 ^ 31) \<le> i \<and> i \<le> INT_MAX then Ret i else Die ''signed overflow'')"

section \<open>Output\<close>

definition outchar :: "nat \<Rightarrow> byte \<Rightarrow> out \<Rightarrow> out" where
  "outchar bufsz ch o1 =
     (let o2 = (if o_len o1 + 1 < bufsz
                then (if o_len o1 < length (o_str o1) then o1\<lparr>o_str := (o_str o1)[o_len o1 := ch]\<rparr>
                      else o1\<lparr>o_wild := True\<rparr>)
                else o1)
      in o2\<lparr>o_len := o_len o1 + 1\<rparr>)"

text \<open>The loops that print one character a number of times, and those that print a string.\<close>

primrec out_many :: "nat \<Rightarrow> nat \<Rightarrow> byte \<Rightarrow> out \<Rightarrow> out" where
  "out_many bufsz 0 ch o1 = o1"
| "out_many bufsz (Suc n) ch o1 = out_many bufsz n ch (outchar bufsz ch o1)"

primrec out_string :: "nat \<Rightarrow> string \<Rightarrow> out \<Rightarrow> out" where
  "out_string bufsz [] o1 = o1"
| "out_string bufsz (c # s) o1 = out_string bufsz s (outchar bufsz c o1)"

section \<open>Strings\<close>

text \<open>The length of the string; the byte is read before the precision is looked at.\<close>

fun scan_string :: "bytes \<Rightarrow> bool \<Rightarrow> int \<Rightarrow> nat \<Rightarrow> nat outcome" where
  "scan_string [] noprecision precision strln = Die ''read outside an object''"
| "scan_string (c # m) noprecision precision strln =
     (if c \<noteq> NUL \<and> (noprecision \<or> int strln < precision)
      then if int strln = INT_MAX then Die ''signed overflow'' else scan_string m noprecision precision (strln + 1)
      else Ret strln)"

fun put_string :: "nat \<Rightarrow> bytes \<Rightarrow> bool \<Rightarrow> int \<Rightarrow> out \<Rightarrow> out outcome" where
  "put_string bufsz [] noprecision precision o1 = Die ''read outside an object''"
| "put_string bufsz (c # m) noprecision precision o1 =
     (if c \<noteq> NUL \<and> (noprecision \<or> precision > 0)
      then put_string bufsz m noprecision (if noprecision then precision else precision - 1) (outchar bufsz c o1)
      else Ret o1)"

definition fmtstr :: "nat \<Rightarrow> bytes option \<Rightarrow> int \<Rightarrow> int \<Rightarrow> pflag set \<Rightarrow> out \<Rightarrow> out outcome" where
  "fmtstr bufsz value width precision flags o1 =
     (let noprecision = (precision = - 1);
          value = (case value of None \<Rightarrow> ''(null)'' @ [NUL] | Some m \<Rightarrow> m)
      in obind (scan_string value noprecision precision 0) (\<lambda>strln.
           let padlen = nat (width - int strln);
               o2 = (if F_MINUS \<in> flags then o1 else out_many bufsz padlen SPACE o1)
           in obind (put_string bufsz value noprecision precision o2) (\<lambda>o3.
                Ret (if F_MINUS \<in> flags then out_many bufsz padlen SPACE o3 else o3))))"

section \<open>Integers\<close>

text \<open>The digits, the last one first, as far as the buffer goes.\<close>

definition digit_table :: "bool \<Rightarrow> string" where
  "digit_table caps = (if caps then ''0123456789ABCDEF'' else ''0123456789abcdef'')"

primrec convert_loop :: "nat \<Rightarrow> nat \<Rightarrow> nat \<Rightarrow> bool \<Rightarrow> string" where
  "convert_loop 0 value base caps = [digit_table caps ! (value mod base)]"
| "convert_loop (Suc left) value base caps =
     digit_table caps ! (value mod base) #
       (if value div base \<noteq> 0 then convert_loop left (value div base) base caps else [])"

definition convert :: "nat \<Rightarrow> nat \<Rightarrow> nat \<Rightarrow> bool \<Rightarrow> string" where
  "convert value bufsz base caps = convert_loop (bufsz - 1) value base caps"

definition printsep :: "'f print_env \<Rightarrow> nat \<Rightarrow> out \<Rightarrow> out" where
  "printsep env bufsz o1 =
     (case thousands_sep env of Some s \<Rightarrow> out_string bufsz s o1 | None \<Rightarrow> outchar bufsz (CHR '','') o1)"

definition getnumsep :: "'f print_env \<Rightarrow> int \<Rightarrow> int" where
  "getnumsep env digits =
     (let separators = (digits - (if digits mod 3 = 0 then 1 else 0)) div 3
      in case thousands_sep env of Some s \<Rightarrow> separators * int (length s) | None \<Rightarrow> separators)"

text \<open>The digits are stored backwards: what is left of the buffer is the position.\<close>

fun put_digits :: "'f print_env \<Rightarrow> nat \<Rightarrow> int \<Rightarrow> string \<Rightarrow> out \<Rightarrow> out" where
  "put_digits env bufsz separators [] o1 = o1"
| "put_digits env bufsz separators (d # ds) o1 =
     (let o2 = outchar bufsz d o1;
          o3 = (if separators > 0 \<and> length ds > 0 \<and> length ds mod 3 = 0 then printsep env bufsz o2 else o2)
      in put_digits env bufsz separators ds o3)"

text \<open>The sign of a number; none is an empty string.\<close>

definition sign_text :: "bool \<Rightarrow> pflag set \<Rightarrow> string" where
  "sign_text negative flags =
     (if negative then ''-'' else if F_PLUS \<in> flags then ''+'' else if F_SPACE \<in> flags then [SPACE] else [])"

definition fmtint ::
  "'f print_env \<Rightarrow> nat \<Rightarrow> 64 word \<Rightarrow> nat \<Rightarrow> int \<Rightarrow> int \<Rightarrow> pflag set \<Rightarrow> out \<Rightarrow> out outcome" where
  "fmtint env bufsz value base width precision flags o1 =
     (let noprecision = (precision = - 1) in
      obind
        (if F_UNSIGNED \<in> flags then Ret (unat value)
         else if sint value \<ge> 0 then Ret (unat value)
         else if sint value = - (2 ^ 63) then Die ''signed overflow''
         else Ret (nat (- sint value))) (\<lambda>uvalue.
      let sign = (if F_UNSIGNED \<in> flags then [] else sign_text (sint value < 0) flags);
          iconvert = convert uvalue MAX_CONVERT_LENGTH base (F_UP \<in> flags);
          pos = int (length iconvert);
          alternative = (F_NUM \<in> flags \<and> uvalue \<noteq> 0);
          precision = (if alternative \<and> base = 8 \<and> precision \<le> pos then pos + 1 else precision);
          hexprefix = (if alternative \<and> base = 16 then (if F_UP \<in> flags then ''0X'' else ''0x'') else []);
          separators = (if F_QUOTE \<in> flags then getnumsep env pos else 0);
          zpadlen = max 0 (precision - pos - separators)
      in obind (as_int (width - separators - max precision pos - int (length sign) - int (length hexprefix))) (\<lambda>spadlen.
      let spadlen = max 0 spadlen;
          zeros = (F_MINUS \<notin> flags \<and> F_ZERO \<in> flags \<and> noprecision);
          zpadlen = (if zeros then zpadlen + spadlen else zpadlen);
          leading = (if F_MINUS \<in> flags \<or> zeros then 0 else spadlen);
          trailing = (if F_MINUS \<in> flags then spadlen else 0);
          o2 = out_many bufsz (nat leading) SPACE o1;
          o3 = out_string bufsz sign o2;
          o4 = out_string bufsz hexprefix o3;
          o5 = out_many bufsz (nat zpadlen) (CHR ''0'') o4;
          o6 = put_digits env bufsz separators (rev iconvert) o5
      in Ret (out_many bufsz (nat trailing) SPACE o6))))"

section \<open>Floating-point numbers\<close>

text \<open>The auxiliary functions; both loops of \<open>getexponent\<close> stop at two digits.\<close>

function down_loop :: "'f ld_ops \<Rightarrow> 'f \<Rightarrow> int \<Rightarrow> 'f \<times> int" where
  "down_loop ops tmp exponent =
     (if ld_lt ops tmp (ld_of_nat ops 1) \<and> ld_lt ops (ld_of_nat ops 0) tmp then
        (if exponent - 1 > - 99 then down_loop ops (ld_mul ops tmp (ld_of_nat ops 10)) (exponent - 1)
         else (tmp, exponent - 1))
      else (tmp, exponent))"
  by pat_completeness auto
termination by (relation "measure (\<lambda>(ops, tmp, exponent). nat (exponent + 99))") auto

function up_loop :: "'f ld_ops \<Rightarrow> 'f \<Rightarrow> int \<Rightarrow> 'f \<times> int" where
  "up_loop ops tmp exponent =
     (if ld_le ops (ld_of_nat ops 10) tmp then
        (if exponent + 1 < 99 then up_loop ops (ld_div ops tmp (ld_of_nat ops 10)) (exponent + 1)
         else (tmp, exponent + 1))
      else (tmp, exponent))"
  by pat_completeness auto
termination by (relation "measure (\<lambda>(ops, tmp, exponent). nat (99 - exponent))") auto

declare down_loop.simps [simp del] up_loop.simps [simp del]

definition ld_abs :: "'f ld_ops \<Rightarrow> 'f \<Rightarrow> 'f" where
  "ld_abs ops value = (if ld_le ops (ld_of_nat ops 0) value then value else ld_neg ops value)"

definition getexponent :: "'f ld_ops \<Rightarrow> 'f \<Rightarrow> int" where
  "getexponent ops value =
     (let (tmp, exponent) = down_loop ops (ld_abs ops value) 0 in snd (up_loop ops tmp exponent))"

definition cast :: "'f ld_ops \<Rightarrow> 'f \<Rightarrow> nat" where
  "cast ops value =
     (if ld_le ops (ld_of_nat ops UINTMAX_MAX) value then UINTMAX_MAX
      else let result = ld_trunc ops value
           in if ld_le ops (ld_of_nat ops result) value then result else (result + UINTMAX_MAX) mod 2 ^ 64)"

definition myround :: "'f ld_ops \<Rightarrow> 'f \<Rightarrow> nat" where
  "myround ops value =
     (let intpart = cast ops value
      in if ld_lt ops (ld_sub ops value (ld_of_nat ops intpart)) (ld_half ops) then intpart
         else (intpart + 1) mod 2 ^ 64)"

definition mypow10 :: "'f ld_ops \<Rightarrow> int \<Rightarrow> 'f" where
  "mypow10 ops exponent =
     (if exponent > 0 then ((\<lambda>r. ld_mul ops r (ld_of_nat ops 10)) ^^ nat exponent) (ld_of_nat ops 1)
      else ((\<lambda>r. ld_div ops r (ld_of_nat ops 10)) ^^ nat (- exponent)) (ld_of_nat ops 1))"

text \<open>What is behind the label \<open>again\<close>; without a result the integer part is too large.\<close>

record flt_parts =
  fp_int :: nat
  fp_frac :: nat
  fp_exponent :: int
  fp_precision :: int

definition flt_pass :: "'f ld_ops \<Rightarrow> 'f \<Rightarrow> bool \<Rightarrow> int \<Rightarrow> int \<Rightarrow> flt_parts option" where
  "flt_pass ops fvalue estyle exponent precision =
     (let precision = (if precision > 19 then 19 else precision);
          ufvalue = ld_abs ops fvalue;
          ufvalue = (if estyle then ld_div ops ufvalue (mypow10 ops exponent) else ufvalue);
          intpart = cast ops ufvalue
      in if intpart = UINTMAX_MAX then None
         else
           let mask = ld_trunc ops (mypow10 ops precision);
               fracpart = myround ops (ld_mul ops (ld_of_nat ops mask) (ld_sub ops ufvalue (ld_of_nat ops intpart)))
           in if fracpart \<ge> mask then
                (if estyle \<and> intpart + 1 = 10
                 then Some \<lparr>fp_int = 1, fp_frac = 0, fp_exponent = exponent + 1, fp_precision = precision\<rparr>
                 else Some \<lparr>fp_int = intpart + 1, fp_frac = 0, fp_exponent = exponent, fp_precision = precision\<rparr>)
              else Some \<lparr>fp_int = intpart, fp_frac = fracpart, fp_exponent = exponent, fp_precision = precision\<rparr>)"

text \<open>The passes, at most two, and whether the result is in the style of \<open>%e\<close>.\<close>

definition flt_passes :: "'f ld_ops \<Rightarrow> 'f \<Rightarrow> pflag set \<Rightarrow> int \<Rightarrow> (flt_parts \<times> bool) option" where
  "flt_passes ops fvalue flags precision =
     (let estyle = (F_TYPE_E \<in> flags \<or> F_TYPE_G \<in> flags);
          precision = (if F_TYPE_G \<in> flags then precision - 1 else precision);
          exponent = (if estyle then getexponent ops fvalue else 0)
      in case flt_pass ops fvalue estyle exponent precision of
           None \<Rightarrow> None
         | Some r \<Rightarrow>
             if F_TYPE_G \<in> flags \<and> estyle \<and> fp_precision r + 1 > fp_exponent r \<and> fp_exponent r \<ge> - 4
             then map_option (\<lambda>r. (r, False)) (flt_pass ops fvalue False (fp_exponent r) (fp_precision r - fp_exponent r))
             else Some (r, estyle))"

definition exponent_text :: "int \<Rightarrow> pflag set \<Rightarrow> string" where
  "exponent_text exponent flags =
     (let digits = convert (nat \<bar>exponent\<bar>) 2 10 False;
          digits = (if length digits = 1 then digits @ ''0'' else digits)
      in digits @ (if exponent < 0 then ''-'' else ''+'') @ (if F_UP \<in> flags then ''E'' else ''e''))"

definition point_char :: "'f print_env \<Rightarrow> byte" where
  "point_char env = (case decimal_point env of Some (c # s) \<Rightarrow> c | _ \<Rightarrow> CHR ''.'')"

definition infnan_text :: "'f ld_ops \<Rightarrow> 'f \<Rightarrow> pflag set \<Rightarrow> string option" where
  "infnan_text ops fvalue flags =
     (if \<not> ld_eq ops fvalue fvalue then Some (if F_UP \<in> flags then ''NAN'' else ''nan'')
      else if \<not> ld_eq ops fvalue (ld_of_nat ops 0) \<and> ld_eq ops (ld_add ops fvalue fvalue) fvalue
      then Some (if F_UP \<in> flags then ''INF'' else ''inf'')
      else None)"

text \<open>How many trailing zeros of the fractional part are left out.\<close>

definition omitted_zeros :: "pflag set \<Rightarrow> string \<Rightarrow> int \<Rightarrow> int" where
  "omitted_zeros flags fconvert precision =
     (if F_TYPE_G \<in> flags \<and> F_NUM \<notin> flags then
        (if length fconvert > 0 then int (length (takeWhile (\<lambda>c. c = CHR ''0'') fconvert)) else precision)
      else 0)"

definition leading_zeros :: "pflag set \<Rightarrow> string \<Rightarrow> int \<Rightarrow> int" where
  "leading_zeros flags fconvert precision =
     (if F_TYPE_G \<in> flags \<and> F_NUM \<notin> flags \<and> length fconvert = 0 then 0 else precision - int (length fconvert))"

text \<open>Printing the parts of a number.\<close>

definition put_parts :: "'f print_env \<Rightarrow> nat \<Rightarrow> flt_parts \<Rightarrow> bool \<Rightarrow> string \<Rightarrow> int \<Rightarrow> pflag set \<Rightarrow> out \<Rightarrow> out" where
  "put_parts env bufsz r estyle sign width flags o1 =
     (let econvert = (if estyle then exponent_text (fp_exponent r) flags else []);
          iconvert = convert (fp_int r) MAX_CONVERT_LENGTH 10 False;
          fconvert = (if fp_frac r \<noteq> 0 then convert (fp_frac r) MAX_CONVERT_LENGTH 10 False else []);
          leadfraczeros = leading_zeros flags fconvert (fp_precision r);
          omitcount = omitted_zeros flags fconvert (fp_precision r);
          precision = fp_precision r - omitcount;
          emitpoint = (precision > 0 \<or> F_NUM \<in> flags);
          separators = (if F_QUOTE \<in> flags then getnumsep env (int (length iconvert)) else 0);
          padlen = nat (width - int (length iconvert) - int (length econvert) - precision - separators
                     - (if emitpoint then 1 else 0) - int (length sign));
          zeros = (F_MINUS \<notin> flags \<and> F_ZERO \<in> flags \<and> padlen > 0);
          o2 = (if F_MINUS \<in> flags then o1
                else if zeros then out_many bufsz padlen (CHR ''0'') (out_string bufsz sign o1)
                else out_many bufsz padlen SPACE o1);
          o3 = (if zeros then o2 else out_string bufsz sign o2);
          o4 = put_digits env bufsz separators (rev iconvert) o3;
          o5 = (if emitpoint then outchar bufsz (point_char env) o4 else o4);
          o6 = out_many bufsz (nat leadfraczeros) (CHR ''0'') o5;
          o7 = out_string bufsz (rev (drop (nat omitcount) fconvert)) o6;
          o8 = out_string bufsz (rev econvert) o7
      in if F_MINUS \<in> flags then out_many bufsz padlen SPACE o8 else o8)"

text \<open>The result says whether the value was too large; then nothing is printed.\<close>

definition fmtflt ::
  "'f print_env \<Rightarrow> nat \<Rightarrow> 'f \<Rightarrow> int \<Rightarrow> int \<Rightarrow> pflag set \<Rightarrow> out \<Rightarrow> (out \<times> bool) outcome" where
  "fmtflt env bufsz fvalue width precision flags o1 =
     (let ops = ld_ops_of env;
          precision = (if precision = - 1 then 6 else precision);
          sign = sign_text (ld_lt ops fvalue (ld_of_nat ops 0)) flags
      in case infnan_text ops fvalue flags of
           Some infnan \<Rightarrow>
             let text = sign @ infnan
             in obind (fmtstr bufsz (Some (text @ replicate (MAX_CONVERT_LENGTH - length text) undefined)) width
                  (int (length text)) flags o1) (\<lambda>o2. Ret (o2, False))
         | None \<Rightarrow>
             (case flt_passes ops fvalue flags precision of
                None \<Rightarrow> Ret (o1, True)
              | Some (r, estyle) \<Rightarrow> Ret (put_parts env bufsz r estyle sign width flags o1, False)))"

section \<open>The format\<close>

text \<open>What is known of a conversion while its specification is read.\<close>

record pconv =
  pc_state :: pstate
  pc_mod :: pmod
  pc_flags :: "pflag set"
  pc_width :: int
  pc_precision :: int

definition pconv_init :: pconv where
  "pconv_init = \<lparr>pc_state = S_DEFAULT, pc_mod = C_NONE, pc_flags = {}, pc_width = 0, pc_precision = - 1\<rparr>"

definition flag_of :: "byte \<Rightarrow> pflag option" where
  "flag_of ch =
     (if ch = CHR ''-'' then Some F_MINUS
      else if ch = CHR ''+'' then Some F_PLUS
      else if ch = SPACE then Some F_SPACE
      else if ch = CHR ''#'' then Some F_NUM
      else if ch = CHR ''0'' then Some F_ZERO
      else if ch = CHR 0x27 then Some F_QUOTE
      else None)"

definition char_to_int :: "byte \<Rightarrow> int option" where
  "char_to_int ch = (if 48 \<le> (of_char ch :: int) \<and> (of_char ch :: int) \<le> 57 then Some (of_char ch - 48) else None)"

text \<open>The length modifier, and what follows it.\<close>

definition length_modifier :: "byte \<Rightarrow> string \<Rightarrow> (pmod \<times> string) option" where
  "length_modifier ch format =
     (if ch = CHR ''h'' then Some (if deref format = CHR ''h'' then (C_CHAR, tl format) else (C_SHORT, format))
      else if ch = CHR ''l'' then Some (if deref format = CHR ''l'' then (C_LLONG, tl format) else (C_LONG, format))
      else if ch = CHR ''L'' then Some (C_LDOUBLE, format)
      else if ch = CHR ''j'' then Some (C_INTMAX, format)
      else if ch = CHR ''t'' then Some (C_PTRDIFF, format)
      else if ch = CHR ''z'' then Some (C_SIZE, format)
      else None)"

fun va_int :: "'f va list \<Rightarrow> (64 word \<times> 'f va list) outcome" where
  "va_int (IntVal w # args) = Ret (w, args)"
| "va_int args = Die ''no such argument''"

fun va_double :: "'f va list \<Rightarrow> ('f \<times> 'f va list) outcome" where
  "va_double (DoubleVal x # args) = Ret (x, args)"
| "va_double args = Die ''no such argument''"

fun va_string :: "'f va list \<Rightarrow> (bytes option \<times> 'f va list) outcome" where
  "va_string (StrVal m # args) = Ret (m, args)"
| "va_string args = Die ''no such argument''"

fun va_pointer :: "'f va list \<Rightarrow> (64 word \<times> 'f va list) outcome" where
  "va_pointer (PtrVal p # args) = Ret (p, args)"
| "va_pointer args = Die ''no such argument''"

fun va_target :: "'f va list \<Rightarrow> (nat \<times> 'f va list) outcome" where
  "va_target (NPtr p # args) = Ret (p, args)"
| "va_target args = Die ''no such argument''"

definition signed_value :: "pmod \<Rightarrow> 64 word \<Rightarrow> 64 word" where
  "signed_value m w =
     (case m of
        C_CHAR \<Rightarrow> scast (ucast w :: 8 word)
      | C_SHORT \<Rightarrow> scast (ucast w :: 16 word)
      | C_LONG \<Rightarrow> w | C_LLONG \<Rightarrow> w | C_SIZE \<Rightarrow> w | C_INTMAX \<Rightarrow> w | C_PTRDIFF \<Rightarrow> w
      | _ \<Rightarrow> scast (ucast w :: 32 word))"

definition unsigned_value :: "pmod \<Rightarrow> 64 word \<Rightarrow> 64 word" where
  "unsigned_value m w =
     (case m of
        C_CHAR \<Rightarrow> ucast (ucast w :: 8 word)
      | C_SHORT \<Rightarrow> ucast (ucast w :: 16 word)
      | C_LONG \<Rightarrow> w | C_LLONG \<Rightarrow> w | C_SIZE \<Rightarrow> w | C_INTMAX \<Rightarrow> w | C_PTRDIFF \<Rightarrow> w
      | _ \<Rightarrow> ucast (ucast w :: 32 word))"

text \<open>What \<open>%n\<close> stores.\<close>

definition stored_length :: "pmod \<Rightarrow> nat \<Rightarrow> int" where
  "stored_length m len = sint (signed_value m (of_nat len))"

type_synonym 'f conv_result = "(bool \<times> 'f va list \<times> out \<times> (nat \<times> int) list) outcome"

definition conv_signed :: "'f print_env \<Rightarrow> nat \<Rightarrow> pconv \<Rightarrow> 'f va list \<Rightarrow> out \<Rightarrow> (nat \<times> int) list \<Rightarrow> 'f conv_result" where
  "conv_signed env bufsz c args o1 stores =
     obind (va_int args) (\<lambda>(w, args).
     obind (fmtint env bufsz (signed_value (pc_mod c) w) 10 (pc_width c) (pc_precision c) (pc_flags c) o1) (\<lambda>o2.
       Ret (False, args, o2, stores)))"

definition conv_unsigned ::
  "'f print_env \<Rightarrow> nat \<Rightarrow> nat \<Rightarrow> pflag set \<Rightarrow> pconv \<Rightarrow> 'f va list \<Rightarrow> out \<Rightarrow> (nat \<times> int) list \<Rightarrow> 'f conv_result" where
  "conv_unsigned env bufsz base up c args o1 stores =
     obind (va_int args) (\<lambda>(w, args).
     obind (fmtint env bufsz (unsigned_value (pc_mod c) w) base (pc_width c) (pc_precision c)
         (pc_flags c \<union> up \<union> {F_UNSIGNED}) o1) (\<lambda>o2.
       Ret (False, args, o2, stores)))"

definition conv_float ::
  "'f print_env \<Rightarrow> nat \<Rightarrow> pflag set \<Rightarrow> int \<Rightarrow> pconv \<Rightarrow> 'f va list \<Rightarrow> out \<Rightarrow> (nat \<times> int) list \<Rightarrow> 'f conv_result" where
  "conv_float env bufsz extra precision c args o1 stores =
     obind (va_double args) (\<lambda>(x, args).
     obind (fmtflt env bufsz x (pc_width c) precision (pc_flags c \<union> extra) o1) (\<lambda>(o2, overflow).
       Ret (overflow, args, o2, stores)))"

text \<open>The pointer is NULL if it is 0.\<close>

definition conv_pointer :: "'f print_env \<Rightarrow> nat \<Rightarrow> pconv \<Rightarrow> 'f va list \<Rightarrow> out \<Rightarrow> (nat \<times> int) list \<Rightarrow> 'f conv_result" where
  "conv_pointer env bufsz c args o1 stores =
     obind (va_pointer args) (\<lambda>(p, args).
     obind
       (if p = 0 then fmtstr bufsz (Some (''(nil)'' @ [NUL])) (pc_width c) (- 1) (pc_flags c) o1
        else fmtint env bufsz p 16 (pc_width c) (pc_precision c) (pc_flags c \<union> {F_NUM, F_UNSIGNED}) o1) (\<lambda>o2.
       Ret (False, args, o2, stores)))"

text \<open>The conversion with the character \<open>ch\<close>.\<close>

definition print_conv ::
  "'f print_env \<Rightarrow> nat \<Rightarrow> byte \<Rightarrow> pconv \<Rightarrow> 'f va list \<Rightarrow> out \<Rightarrow> (nat \<times> int) list \<Rightarrow> 'f conv_result" where
  "print_conv env bufsz ch c args o1 stores =
     (if ch = CHR ''d'' \<or> ch = CHR ''i'' then conv_signed env bufsz c args o1 stores
      else if ch = CHR ''X'' then conv_unsigned env bufsz 16 {F_UP} c args o1 stores
      else if ch = CHR ''x'' then conv_unsigned env bufsz 16 {} c args o1 stores
      else if ch = CHR ''o'' then conv_unsigned env bufsz 8 {} c args o1 stores
      else if ch = CHR ''u'' then conv_unsigned env bufsz 10 {} c args o1 stores
      else if ch = CHR ''A'' \<or> ch = CHR ''F'' then conv_float env bufsz {F_UP} (pc_precision c) c args o1 stores
      else if ch = CHR ''a'' \<or> ch = CHR ''f'' then conv_float env bufsz {} (pc_precision c) c args o1 stores
      else if ch = CHR ''E'' then conv_float env bufsz {F_UP, F_TYPE_E} (pc_precision c) c args o1 stores
      else if ch = CHR ''e'' then conv_float env bufsz {F_TYPE_E} (pc_precision c) c args o1 stores
      else if ch = CHR ''G'' then
        conv_float env bufsz {F_UP, F_TYPE_G} (if pc_precision c = 0 then 1 else pc_precision c) c args o1 stores
      else if ch = CHR ''g'' then
        conv_float env bufsz {F_TYPE_G} (if pc_precision c = 0 then 1 else pc_precision c) c args o1 stores
      else if ch = CHR ''c'' then
        obind (va_int args) (\<lambda>(w, args). Ret (False, args, outchar bufsz (char_of (unat w mod 256)) o1, stores))
      else if ch = CHR ''s'' then
        obind (va_string args) (\<lambda>(m, args).
        obind (fmtstr bufsz m (pc_width c) (pc_precision c) (pc_flags c) o1) (\<lambda>o2. Ret (False, args, o2, stores)))
      else if ch = CHR ''p'' then conv_pointer env bufsz c args o1 stores
      else if ch = CHR ''n'' then
        obind (va_target args) (\<lambda>(p, args). Ret (False, args, o1, stores @ [(p, stored_length (pc_mod c) (o_len o1))]))
      else if ch = CHR ''%'' then Ret (False, args, outchar bufsz ch o1, stores)
      else Ret (False, args, o1, stores))"

fun state_rank :: "pstate \<Rightarrow> nat" where
  "state_rank S_DEFAULT = 6"
| "state_rank S_FLAGS = 5"
| "state_rank S_WIDTH = 4"
| "state_rank S_DOT = 3"
| "state_rank S_PRECISION = 2"
| "state_rank S_MOD = 1"
| "state_rank S_CONV = 0"

text \<open>The loop of \<open>rpl_vsnprintf\<close>: one case for each state; a state may pass a character on.\<close>

function vsn_loop ::
  "'f print_env \<Rightarrow> nat \<Rightarrow> string \<Rightarrow> pconv \<Rightarrow> 'f va list \<Rightarrow> out \<Rightarrow> (nat \<times> int) list
    \<Rightarrow> (bool \<times> out \<times> (nat \<times> int) list) outcome" where
  "vsn_loop env bufsz [] c args o1 stores = Ret (False, o1, stores)"
| "vsn_loop env bufsz (ch # format) c args o1 stores =
     (case pc_state c of
        S_DEFAULT \<Rightarrow>
          if ch = CHR ''%'' then vsn_loop env bufsz format (c\<lparr>pc_state := S_FLAGS\<rparr>) args o1 stores
          else vsn_loop env bufsz format c args (outchar bufsz ch o1) stores
      | S_FLAGS \<Rightarrow>
          (case flag_of ch of
             Some f \<Rightarrow> vsn_loop env bufsz format (c\<lparr>pc_flags := insert f (pc_flags c)\<rparr>) args o1 stores
           | None \<Rightarrow> vsn_loop env bufsz (ch # format) (c\<lparr>pc_state := S_WIDTH\<rparr>) args o1 stores)
      | S_WIDTH \<Rightarrow>
          (case char_to_int ch of
             Some d \<Rightarrow>
               if pc_width c > (INT_MAX - d) div 10 then Ret (True, o1, stores)
               else vsn_loop env bufsz format (c\<lparr>pc_width := 10 * pc_width c + d\<rparr>) args o1 stores
           | None \<Rightarrow>
               if ch = CHR ''*'' then
                 obind (va_int args) (\<lambda>(w, args).
                   let width = sint (ucast w :: 32 word) in
                   if width < 0 then
                     obind (as_int (- width)) (\<lambda>width.
                       vsn_loop env bufsz format
                         (c\<lparr>pc_flags := insert F_MINUS (pc_flags c), pc_width := width, pc_state := S_DOT\<rparr>) args o1 stores)
                   else vsn_loop env bufsz format (c\<lparr>pc_width := width, pc_state := S_DOT\<rparr>) args o1 stores)
               else vsn_loop env bufsz (ch # format) (c\<lparr>pc_state := S_DOT\<rparr>) args o1 stores)
      | S_DOT \<Rightarrow>
          if ch = CHR ''.'' then vsn_loop env bufsz format (c\<lparr>pc_state := S_PRECISION\<rparr>) args o1 stores
          else vsn_loop env bufsz (ch # format) (c\<lparr>pc_state := S_MOD\<rparr>) args o1 stores
      | S_PRECISION \<Rightarrow>
          let c = (if pc_precision c = - 1 then c\<lparr>pc_precision := 0\<rparr> else c) in
          (case char_to_int ch of
             Some d \<Rightarrow>
               if pc_precision c > (INT_MAX - d) div 10 then Ret (True, o1, stores)
               else vsn_loop env bufsz format (c\<lparr>pc_precision := 10 * pc_precision c + d\<rparr>) args o1 stores
           | None \<Rightarrow>
               if ch = CHR ''*'' then
                 obind (va_int args) (\<lambda>(w, args).
                   let precision = sint (ucast w :: 32 word) in
                   vsn_loop env bufsz format
                     (c\<lparr>pc_precision := (if precision < 0 then - 1 else precision), pc_state := S_MOD\<rparr>) args o1 stores)
               else vsn_loop env bufsz (ch # format) (c\<lparr>pc_state := S_MOD\<rparr>) args o1 stores)
      | S_MOD \<Rightarrow>
          (case length_modifier ch format of
             Some (m, rest) \<Rightarrow> vsn_loop env bufsz rest (c\<lparr>pc_mod := m, pc_state := S_CONV\<rparr>) args o1 stores
           | None \<Rightarrow> vsn_loop env bufsz (ch # format) (c\<lparr>pc_state := S_CONV\<rparr>) args o1 stores)
      | S_CONV \<Rightarrow>
          obind (print_conv env bufsz ch c args o1 stores) (\<lambda>(overflow, args, o2, stores).
            if overflow then Ret (True, o2, stores)
            else vsn_loop env bufsz format pconv_init args o2 stores))"
  by pat_completeness auto
termination
proof (relation "measures [\<lambda>(env, bufsz, format, c, args, o1, stores). length format,
    \<lambda>(env, bufsz, format, c, args, o1, stores). state_rank (pc_state c)]", goal_cases)
  case 1
  show ?case by simp
qed (auto simp: length_modifier_def split: if_splits)

declare vsn_loop.simps [simp del]

section \<open>The functions\<close>

text \<open>The buffer, the result, and what was stored by \<open>%n\<close>. A NULL buffer has no bufsz.\<close>

definition rpl_vsnprintf ::
  "'f print_env \<Rightarrow> bytes option \<Rightarrow> nat \<Rightarrow> string \<Rightarrow> 'f va list \<Rightarrow> (bytes \<times> int \<times> (nat \<times> int) list) outcome" where
  "rpl_vsnprintf env str bufsz format args =
     (let bufsz = (if str = None then 0 else bufsz);
          m = (case str of None \<Rightarrow> [] | Some m \<Rightarrow> m)
      in obind (vsn_loop env bufsz format pconv_init args \<lparr>o_str = m, o_len = 0, o_wild = False\<rparr> []) (\<lambda>(overflow, o1, stores).
         obind (if o_len o1 < bufsz then store (o_str o1) (o_len o1) NUL
                else if bufsz > 0 then store (o_str o1) (bufsz - 1) NUL
                else Ret (o_str o1)) (\<lambda>m.
         if o_wild o1 then Die ''write outside an object''
         else Ret (m, if overflow \<or> int (o_len o1) \<ge> INT_MAX then - 1 else int (o_len o1), stores))))"

text \<open>\<open>*ret\<close> and the result; the memory that \<open>malloc\<close> returns has not been written.\<close>

definition rpl_vasprintf ::
  "'f print_env \<Rightarrow> bool \<Rightarrow> string \<Rightarrow> 'f va list \<Rightarrow> (bytes option \<times> int \<times> (nat \<times> int) list) outcome" where
  "rpl_vasprintf env allocated format args =
     obind (rpl_vsnprintf env None 0 format args) (\<lambda>(_, len, stores).
       if len < 0 \<or> \<not> allocated then Ret (None, - 1, stores)
       else
         obind (rpl_vsnprintf env (Some (replicate (nat (len + 1)) undefined)) (nat (len + 1)) format args)
           (\<lambda>(str, len, extra). Ret (Some str, len, stores @ extra)))"

definition rpl_snprintf ::
  "'f print_env \<Rightarrow> bytes option \<Rightarrow> nat \<Rightarrow> string \<Rightarrow> 'f va list \<Rightarrow> (bytes \<times> int \<times> (nat \<times> int) list) outcome" where
  "rpl_snprintf env str bufsz format args = rpl_vsnprintf env str bufsz format args"

definition rpl_asprintf ::
  "'f print_env \<Rightarrow> bool \<Rightarrow> string \<Rightarrow> 'f va list \<Rightarrow> (bytes option \<times> int \<times> (nat \<times> int) list) outcome" where
  "rpl_asprintf env allocated format args = rpl_vasprintf env allocated format args"

end
