(* ===== verification/XprintfRun.thy ===== *)
theory XprintfRun
  imports Xprintf
begin

text \<open>
  What the \<open>printf\<close> replacement prints does not depend on the buffer it prints into: every
  conversion appends a text, and of the whole text the buffer gets as much as fits.
\<close>

section \<open>Text\<close>

lemma out_string_append [simp]: "out_string bufsz (s @ t) o1 = out_string bufsz t (out_string bufsz s o1)"
  by (induction s arbitrary: o1) simp_all

lemma out_many_string: "out_many bufsz n ch o1 = out_string bufsz (replicate n ch) o1"
  by (induction n arbitrary: o1) simp_all

lemma outchar_string: "outchar bufsz ch o1 = out_string bufsz [ch] o1"
  by simp

lemma out_string_len [simp]: "o_len (out_string bufsz t o1) = o_len o1 + length t"
  by (induction t arbitrary: o1) (simp_all add: outchar_def Let_def)

text \<open>A printer that appends a text, or fails, whatever the buffer is.\<close>

definition prints :: "(nat \<Rightarrow> out \<Rightarrow> out outcome) \<Rightarrow> string outcome \<Rightarrow> bool" where
  "prints f r \<longleftrightarrow> (\<forall>bufsz o1. f bufsz o1 = obind r (\<lambda>t. Ret (out_string bufsz t o1)))"

lemma prints_eq: "prints f r \<Longrightarrow> f bufsz o1 = obind r (\<lambda>t. Ret (out_string bufsz t o1))"
  by (simp add: prints_def)

text \<open>The characters of a string conversion.\<close>

fun string_text :: "bytes \<Rightarrow> bool \<Rightarrow> int \<Rightarrow> string outcome" where
  "string_text [] noprecision precision = Die ''read outside an object''"
| "string_text (c # m) noprecision precision =
     (if c \<noteq> NUL \<and> (noprecision \<or> precision > 0)
      then obind (string_text m noprecision (if noprecision then precision else precision - 1)) (\<lambda>t. Ret (c # t))
      else Ret [])"

lemma put_string_text:
  "put_string bufsz m noprecision precision o1 = obind (string_text m noprecision precision) (\<lambda>t. Ret (out_string bufsz t o1))"
  by (induction m noprecision precision arbitrary: o1 rule: string_text.induct) (simp_all add: obind_assoc)

definition padded_text :: "bool \<Rightarrow> nat \<Rightarrow> string \<Rightarrow> string" where
  "padded_text left padlen t = (if left then t @ replicate padlen SPACE else replicate padlen SPACE @ t)"

definition str_text :: "bytes option \<Rightarrow> int \<Rightarrow> int \<Rightarrow> pflag set \<Rightarrow> string outcome" where
  "str_text value width precision flags =
     (let m = (case value of None \<Rightarrow> ''(null)'' @ [NUL] | Some m \<Rightarrow> m)
      in obind (scan_string m (precision = - 1) precision 0) (\<lambda>strln.
         obind (string_text m (precision = - 1) precision) (\<lambda>t.
           Ret (padded_text (F_MINUS \<in> flags) (nat (width - int strln)) t))))"

lemma fmtstr_prints: "prints (\<lambda>bufsz. fmtstr bufsz value width precision flags) (str_text value width precision flags)"
  unfolding prints_def fmtstr_def str_text_def Let_def
  by (auto simp: obind_assoc put_string_text out_many_string padded_text_def intro!: obind_cong)

text \<open>The digits of an integer, in groups if there are separators.\<close>

definition sep_text :: "'f print_env \<Rightarrow> string" where
  "sep_text env = (case thousands_sep env of Some s \<Rightarrow> s | None \<Rightarrow> '','')"

fun digits_text :: "'f print_env \<Rightarrow> int \<Rightarrow> string \<Rightarrow> string" where
  "digits_text env separators [] = []"
| "digits_text env separators (d # ds) =
     d # (if separators > 0 \<and> length ds > 0 \<and> length ds mod 3 = 0 then sep_text env else []) @ digits_text env separators ds"

lemma printsep_text: "printsep env bufsz o1 = out_string bufsz (sep_text env) o1"
  by (simp add: printsep_def sep_text_def split: option.split)

lemma put_digits_text: "put_digits env bufsz separators ds o1 = out_string bufsz (digits_text env separators ds) o1"
  by (induction env separators ds arbitrary: o1 rule: digits_text.induct) (simp_all add: Let_def printsep_text)

definition int_text :: "'f print_env \<Rightarrow> 64 word \<Rightarrow> nat \<Rightarrow> int \<Rightarrow> int \<Rightarrow> pflag set \<Rightarrow> string outcome" where
  "int_text env value base width precision flags =
     obind
       (if F_UNSIGNED \<in> flags then Ret (unat value)
        else if sint value \<ge> 0 then Ret (unat value)
        else if sint value = - (2 ^ 63) then Die ''signed overflow''
        else Ret (nat (- sint value))) (\<lambda>u.
     let sign = (if F_UNSIGNED \<in> flags then [] else sign_text (sint value < 0) flags);
         digits = convert u MAX_CONVERT_LENGTH base (F_UP \<in> flags);
         n = int (length digits);
         alternative = (F_NUM \<in> flags \<and> u \<noteq> 0);
         least = (if alternative \<and> base = 8 \<and> precision \<le> n then n + 1 else precision);
         prefix = (if alternative \<and> base = 16 then (if F_UP \<in> flags then ''0X'' else ''0x'') else []);
         separators = (if F_QUOTE \<in> flags then getnumsep env n else 0);
         fill = max 0 (least - n - separators)
     in obind (as_int (width - separators - max least n - int (length sign) - int (length prefix))) (\<lambda>pad.
     let pad = max 0 pad;
         zeros = (F_MINUS \<notin> flags \<and> F_ZERO \<in> flags \<and> precision = - 1)
     in Ret (replicate (nat (if F_MINUS \<in> flags \<or> zeros then 0 else pad)) SPACE @ sign @ prefix @
          replicate (nat (if zeros then fill + pad else fill)) (CHR ''0'') @
          digits_text env separators (rev digits) @
          replicate (nat (if F_MINUS \<in> flags then pad else 0)) SPACE)))"

lemma fmtint_prints:
  "prints (\<lambda>bufsz. fmtint env bufsz value base width precision flags) (int_text env value base width precision flags)"
  unfolding prints_def fmtint_def int_text_def Let_def obind_assoc
  by (simp only: obind_simps out_string_append out_many_string put_digits_text simp_thms)

text \<open>Floating-point numbers: the text of the parts.\<close>

lemma put_parts_text: "\<exists>t. \<forall>bufsz o1. put_parts env bufsz r estyle sign width flags o1 = out_string bufsz t o1"
proof -
  have c: "\<exists>t. \<forall>bufsz o1. (if b then f bufsz o1 else g bufsz o1) = out_string bufsz t o1"
    if "\<exists>t. \<forall>bufsz o1. f bufsz o1 = out_string bufsz t o1" "\<exists>t. \<forall>bufsz o1. g bufsz o1 = out_string bufsz t o1"
    for b and f g :: "nat \<Rightarrow> out \<Rightarrow> out"
    using that by (cases b) auto
  have s: "\<exists>t. \<forall>bufsz o1. out_string bufsz u (f bufsz o1) = out_string bufsz t o1"
    if "\<exists>t. \<forall>bufsz o1. f bufsz o1 = out_string bufsz t o1" for u and f :: "nat \<Rightarrow> out \<Rightarrow> out"
    using that by (metis out_string_append)
  have i: "\<exists>t. \<forall>bufsz o1. o1 = out_string bufsz t o1" by (rule exI[of _ "[]"]) simp
  show ?thesis unfolding put_parts_def Let_def out_many_string put_digits_text outchar_string
    by (intro c s i)
qed

lemma fmtflt_prints:
  "\<exists>r overflow. \<forall>bufsz o1. fmtflt env bufsz fvalue width precision flags o1 =
     obind r (\<lambda>t. Ret (out_string bufsz t o1, overflow))"
proof (cases "infnan_text (ld_ops_of env) fvalue flags")
  case (Some x)
  show ?thesis
    by (auto simp: fmtflt_def Let_def Some prints_eq[OF fmtstr_prints] obind_assoc)
next
  case None
  let ?p = "if precision = - 1 then 6 else precision"
  show ?thesis
  proof (cases "flt_passes (ld_ops_of env) fvalue flags ?p")
    case f: None
    then show ?thesis by (intro exI[of _ "Ret []"] exI[of _ True]) (simp add: fmtflt_def Let_def None)
  next
    case (Some x)
    obtain r estyle where x: "x = (r, estyle)" by (cases x)
    let ?sign = "sign_text (ld_lt (ld_ops_of env) fvalue (ld_of_nat (ld_ops_of env) 0)) flags"
    obtain t where "\<forall>bufsz o1. put_parts env bufsz r estyle ?sign width flags o1 = out_string bufsz t o1"
      using put_parts_text by blast
    then show ?thesis
      by (intro exI[of _ "Ret t"] exI[of _ False]) (simp add: fmtflt_def Let_def None Some x)
  qed
qed

section \<open>Conversions and the loop\<close>

text \<open>
  The same for what also takes arguments: the result depends on the length of what was printed
  before (because of \<open>%n\<close>), and on nothing else of the output.
\<close>

definition converts :: "nat \<Rightarrow> (nat \<Rightarrow> out \<Rightarrow> 'f conv_result) \<Rightarrow> bool" where
  "converts n f \<longleftrightarrow> (\<exists>r. \<forall>bufsz o1. o_len o1 = n \<longrightarrow>
     f bufsz o1 = obind r (\<lambda>(t, ov, args, stores). Ret (ov, args, out_string bufsz t o1, stores)))"

lemma converts_text: "converts n (\<lambda>bufsz o1. Ret (ov, args, out_string bufsz t o1, stores))"
  unfolding converts_def by (rule exI[of _ "Ret (t, ov, args, stores)"]) simp

lemma converts_prints:
  assumes "prints f r"
  shows "converts n (\<lambda>bufsz o1. obind (f bufsz o1) (\<lambda>o2. Ret (ov, args, o2, stores)))"
  unfolding converts_def
  by (rule exI[of _ "obind r (\<lambda>t. Ret (t, ov, args, stores))"]) (simp add: prints_eq[OF assms] obind_assoc)

lemma converts_bind:
  assumes "\<And>x. converts n (\<lambda>bufsz. f x bufsz)"
  shows "converts n (\<lambda>bufsz o1. obind m (\<lambda>x. f x bufsz o1))"
proof (cases m)
  case (Die e)
  then show ?thesis unfolding converts_def by (intro exI[of _ "Die e"]) simp
qed (use assms in simp)

lemma converts_if: "converts n f \<Longrightarrow> converts n g \<Longrightarrow> converts n (\<lambda>bufsz o1. if b then f bufsz o1 else g bufsz o1)"
  by (cases b) simp_all

lemma converts_flt:
  "converts n (\<lambda>bufsz o1. obind (fmtflt env bufsz x width precision flags o1) (\<lambda>(o2, overflow). Ret (overflow, args, o2, stores)))"
proof -
  obtain r ov where "\<forall>bufsz o1. fmtflt env bufsz x width precision flags o1 = obind r (\<lambda>t. Ret (out_string bufsz t o1, ov))"
    using fmtflt_prints[of env x width precision flags] by (elim exE) (rule that)
  then show ?thesis unfolding converts_def
    by (intro exI[of _ "obind r (\<lambda>t. Ret (t, ov, args, stores))"]) (simp add: obind_assoc)
qed

lemma converts_pair: "(\<And>a b. converts n (\<lambda>bufsz. f a b bufsz)) \<Longrightarrow> converts n (\<lambda>bufsz. case x of (a, b) \<Rightarrow> f a b bufsz)"
  by (cases x) simp

lemma print_conv_converts: "converts n (\<lambda>bufsz o1. print_conv env bufsz ch c args o1 stores)"
proof -
  have i: "converts n (\<lambda>bufsz o1. conv_signed env bufsz c args o1 stores)"
    unfolding conv_signed_def by (intro converts_bind) (auto simp: split_beta intro!: converts_prints[OF fmtint_prints])
  have u: "converts n (\<lambda>bufsz o1. conv_unsigned env bufsz base up c args o1 stores)" for base up
    unfolding conv_unsigned_def by (intro converts_bind) (auto simp: split_beta intro!: converts_prints[OF fmtint_prints])
  have f: "converts n (\<lambda>bufsz o1. conv_float env bufsz extra precision c args o1 stores)" for extra precision
    unfolding conv_float_def by (intro converts_bind) (simp add: split_paired_all converts_flt)
  have p: "converts n (\<lambda>bufsz o1. conv_pointer env bufsz c args o1 stores)"
    unfolding conv_pointer_def
  proof (intro converts_bind)
    fix x :: "64 word \<times> 'a va list"
    obtain q as where x: "x = (q, as)" by (cases x)
    show "converts n (\<lambda>bufsz o1. case x of (p, args) \<Rightarrow> obind (if p = 0
        then fmtstr bufsz (Some (''(nil)'' @ [NUL])) (pc_width c) (- 1) (pc_flags c) o1
        else fmtint env bufsz p 16 (pc_width c) (pc_precision c) (pc_flags c \<union> {F_NUM, F_UNSIGNED}) o1)
        (\<lambda>o2. Ret (False, args, o2, stores)))"
      using converts_prints[OF fmtstr_prints] converts_prints[OF fmtint_prints] by (cases "q = 0") (simp_all add: x)
  qed
  have c: "converts n (\<lambda>bufsz o1. obind (va_int args) (\<lambda>(w, args). Ret (False, args, outchar bufsz (char_of (unat w mod 256)) o1, stores)))"
    by (intro converts_bind) (auto simp: split_beta outchar_string simp del: out_string.simps intro!: converts_text)
  have s: "converts n (\<lambda>bufsz o1. obind (va_string args) (\<lambda>(m, args).
      obind (fmtstr bufsz m (pc_width c) (pc_precision c) (pc_flags c) o1) (\<lambda>o2. Ret (False, args, o2, stores))))"
    by (intro converts_bind) (auto simp: split_beta intro!: converts_prints[OF fmtstr_prints])
  have t: "converts n (\<lambda>bufsz o1. obind (va_target args) (\<lambda>(p, args). Ret (False, args, o1, stores @ [(p, stored_length (pc_mod c) (o_len o1))])))"
    unfolding converts_def
    by (rule exI[of _ "obind (va_target args) (\<lambda>(p, args). Ret ([], False, args, stores @ [(p, stored_length (pc_mod c) n)]))"])
      (cases "va_target args"; auto)
  have v: "converts n (\<lambda>bufsz o1. Ret (False, args, outchar bufsz ch o1, stores))" "converts n (\<lambda>bufsz o1. Ret (False, args, o1, stores))"
    using converts_text[of n False args "[ch]" stores] converts_text[of n False args "[]" stores] by simp_all
  show ?thesis unfolding print_conv_def by (intro converts_if i u f p c s t v)
qed

definition loops :: "nat \<Rightarrow> (nat \<Rightarrow> out \<Rightarrow> (bool \<times> out \<times> (nat \<times> int) list) outcome) \<Rightarrow> bool" where
  "loops n f \<longleftrightarrow> (\<exists>r. \<forall>bufsz o1. o_len o1 = n \<longrightarrow>
     f bufsz o1 = obind r (\<lambda>(ov, t, stores). Ret (ov, out_string bufsz t o1, stores)))"

lemma loops_stop: "loops n (\<lambda>bufsz o1. Ret (ov, o1, stores))"
  unfolding loops_def by (rule exI[of _ "Ret (ov, [], stores)"]) simp

lemma loops_die: "loops n (\<lambda>bufsz o1. Die e)"
  unfolding loops_def by (rule exI[of _ "Die e"]) simp

lemma loops_outchar:
  assumes "loops (Suc n) f"
  shows "loops n (\<lambda>bufsz o1. f bufsz (outchar bufsz ch o1))"
proof -
  obtain r where r: "\<And>bufsz o1. o_len o1 = Suc n \<Longrightarrow>
      f bufsz o1 = obind r (\<lambda>(ov, t, stores). Ret (ov, out_string bufsz t o1, stores))"
    using assms unfolding loops_def by blast
  have "o_len (outchar bufsz ch o1) = Suc n" if "o_len o1 = n" for bufsz o1
    using that by (simp add: outchar_def Let_def)
  then show ?thesis unfolding loops_def using r
    by (intro exI[of _ "obind r (\<lambda>(ov, t, stores). Ret (ov, ch # t, stores))"]) (cases r; auto)
qed

lemma loops_if:
  "(b \<Longrightarrow> loops n f) \<Longrightarrow> (\<not> b \<Longrightarrow> loops n g) \<Longrightarrow> loops n (\<lambda>bufsz o1. if b then f bufsz o1 else g bufsz o1)"
  by (cases b) simp_all

lemma loops_bind:
  assumes "\<And>x. m = Ret x \<Longrightarrow> loops n (\<lambda>bufsz. f x bufsz)"
  shows "loops n (\<lambda>bufsz o1. obind m (\<lambda>x. f x bufsz o1))"
  using assms by (cases m) (simp_all add: loops_die)

lemma loops_conv:
  assumes "converts n f"
    and "\<And>args (t :: string) stores. loops (n + length t) (\<lambda>bufsz o2. g args stores bufsz o2)"
  shows "loops n (\<lambda>bufsz o1. obind (f bufsz o1) (\<lambda>(ov, args, o2, stores).
    if ov then Ret (True, o2, stores) else g args stores bufsz o2))"
proof -
  obtain r where r: "\<And>bufsz o1. o_len o1 = n \<Longrightarrow>
      f bufsz o1 = obind r (\<lambda>(t, ov, args, stores). Ret (ov, args, out_string bufsz t o1, stores))"
    using assms(1) unfolding converts_def by blast
  show ?thesis
  proof (cases r)
    case (Die e)
    then show ?thesis unfolding loops_def using r by (intro exI[of _ "Die e"]) simp
  next
    case (Ret x)
    obtain t ov args stores where x: "x = (t, ov, args, stores)" by (cases x)
    show ?thesis
    proof (cases ov)
      case True
      then show ?thesis unfolding loops_def using r Ret x by (intro exI[of _ "Ret (True, t, stores)"]) simp
    next
      case False
      obtain q where q: "\<And>bufsz o1. o_len o1 = n + length t \<Longrightarrow>
          g args stores bufsz o1 = obind q (\<lambda>(ov, t, stores). Ret (ov, out_string bufsz t o1, stores))"
        using assms(2)[of t args stores] unfolding loops_def by blast
      then show ?thesis unfolding loops_def using r Ret x False
        by (intro exI[of _ "obind q (\<lambda>(ov, u, stores). Ret (ov, t @ u, stores))"]) (cases q; auto)
    qed
  qed
qed

text \<open>By induction on what is left of the format and the states a character can still pass.\<close>

lemma vsn_loop_loops: "loops n (\<lambda>bufsz o1. vsn_loop env bufsz format c args o1 stores)"
proof (induction "(format, c)" arbitrary: format c args stores n
    rule: wf_induct_rule[OF wf_measures[of "[\<lambda>(format :: string, c :: pconv). length format, \<lambda>(format, c). state_rank (pc_state c)]"]])
  case (1 format c args stores n)
  show ?case
  proof (cases format)
    case Nil
    then show ?thesis by (simp add: vsn_loop.simps(1) loops_stop)
  next
    case (Cons ch rest)
    have shorter: "loops k (\<lambda>bufsz o1. vsn_loop env bufsz f d as o1 st)" if "length f \<le> length rest" for f d as st k
      by (rule 1) (use that Cons in simp)
    have later: "loops k (\<lambda>bufsz o1. vsn_loop env bufsz format d as o1 st)"
      if "state_rank (pc_state d) < state_rank (pc_state c)" for d as st k
      by (rule 1) (use that in simp)
    note step = vsn_loop.simps(2)[of env _ ch rest c args _ stores]
    note next_char = shorter[OF order.refl]
    note same_char = later[unfolded Cons]
    show ?thesis
    proof (cases "pc_state c")
      case S_DEFAULT
      have "loops n (\<lambda>bufsz o1. vsn_loop env bufsz rest c args (outchar bufsz ch o1) stores)"
        by (rule loops_outchar) (rule next_char)
      then show ?thesis by (auto simp: Cons step S_DEFAULT intro!: loops_if next_char)
    next
      case S_FLAGS
      then show ?thesis using next_char same_char by (cases "flag_of ch") (simp_all add: Cons step)
    next
      case S_WIDTH
      show ?thesis
      proof (cases "char_to_int ch")
        case (Some d)
        then show ?thesis by (auto simp: Cons step S_WIDTH intro!: loops_if next_char loops_stop)
      next
        case None
        have "loops n (\<lambda>bufsz o1. obind (va_int args) (\<lambda>(w, args).
            let width = sint (ucast w :: 32 word) in
            if width < 0 then
              obind (as_int (- width)) (\<lambda>width. vsn_loop env bufsz rest
                (c\<lparr>pc_flags := insert F_MINUS (pc_flags c), pc_width := width, pc_state := S_DOT\<rparr>) args o1 stores)
            else vsn_loop env bufsz rest (c\<lparr>pc_width := width, pc_state := S_DOT\<rparr>) args o1 stores))"
          unfolding Let_def
        proof (rule loops_bind)
          fix x :: "64 word \<times> 'a va list"
          obtain w as where x: "x = (w, as)" by (cases x)
          show "loops n (\<lambda>bufsz o1. case x of (w, args) \<Rightarrow>
              if sint (ucast w :: 32 word) < 0 then
                obind (as_int (- sint (ucast w :: 32 word))) (\<lambda>width. vsn_loop env bufsz rest
                  (c\<lparr>pc_flags := insert F_MINUS (pc_flags c), pc_width := width, pc_state := S_DOT\<rparr>) args o1 stores)
              else vsn_loop env bufsz rest (c\<lparr>pc_width := sint (ucast w :: 32 word), pc_state := S_DOT\<rparr>) args o1 stores)"
            using next_char by (cases "sint (ucast w :: 32 word) < 0") (auto simp: x intro!: loops_bind)
        qed
        then show ?thesis using None by (auto simp: Cons step S_WIDTH intro!: loops_if same_char)
      qed
    next
      case S_DOT
      then show ?thesis by (auto simp: Cons step intro!: loops_if next_char same_char)
    next
      case S_PRECISION
      let ?c = "if pc_precision c = - 1 then c\<lparr>pc_precision := 0\<rparr> else c"
      show ?thesis
      proof (cases "char_to_int ch")
        case (Some d)
        then show ?thesis by (auto simp: Cons step S_PRECISION Let_def intro!: loops_if next_char loops_stop)
      next
        case None
        have "loops n (\<lambda>bufsz o1. obind (va_int args) (\<lambda>(w, args). vsn_loop env bufsz rest
            (?c\<lparr>pc_precision := (if sint (ucast w :: 32 word) < 0 then - 1 else sint (ucast w :: 32 word)), pc_state := S_MOD\<rparr>)
            args o1 stores))"
          using next_char by (intro loops_bind) (simp add: split_paired_all)
        moreover have "loops n (\<lambda>bufsz o1. vsn_loop env bufsz (ch # rest) (?c\<lparr>pc_state := S_MOD\<rparr>) args o1 stores)"
          by (rule same_char) (simp add: S_PRECISION)
        ultimately show ?thesis using None unfolding Cons step S_PRECISION Let_def by (simp only: pstate.case option.case) (rule loops_if)
      qed
    next
      case S_MOD
      show ?thesis
      proof (cases "length_modifier ch rest")
        case None
        then show ?thesis using same_char by (simp add: Cons step S_MOD)
      next
        case (Some x)
        obtain m f where x: "x = (m, f)" by (cases x)
        then have "length f \<le> length rest" using Some by (auto simp: length_modifier_def split: if_splits)
        then show ?thesis using shorter Some x by (simp add: Cons step S_MOD)
      qed
    next
      case S_CONV
      have "loops n (\<lambda>bufsz o1. obind (print_conv env bufsz ch c args o1 stores) (\<lambda>(ov, args, o2, stores).
          if ov then Ret (True, o2, stores) else vsn_loop env bufsz rest pconv_init args o2 stores))"
        by (rule loops_conv[OF print_conv_converts]) (rule next_char)
      then show ?thesis by (simp add: Cons step S_CONV)
    qed
  qed
qed

section \<open>The buffer\<close>

lemma out_string_snoc: "out_string bufsz (t @ [c]) o1 = outchar bufsz c (out_string bufsz t o1)"
  by simp

lemma out_string_buffer:
  assumes "bufsz \<le> length m"
  shows "out_string bufsz t \<lparr>o_str = m, o_len = 0, o_wild = False\<rparr> =
    \<lparr>o_str = take (bufsz - 1) t @ drop (length (take (bufsz - 1) t)) m, o_len = length t, o_wild = False\<rparr>"
proof (induction t rule: rev_induct)
  case (snoc c t)
  show ?case
  proof (cases "Suc (length t) < bufsz")
    case True
    then have l: "length t < length m" using assms by simp
    then have "(t @ drop (length t) m)[length t := c] = t @ [c] @ drop (Suc (length t)) m"
      by (simp add: list_update_append Cons_nth_drop_Suc [symmetric])
    then show ?thesis using True l unfolding out_string_snoc snoc by (simp add: outchar_def Let_def)
  next
    case False
    then show ?thesis unfolding out_string_snoc snoc by (auto simp: outchar_def Let_def take_Cons')
  qed
qed simp

text \<open>What a buffer of \<open>bufsz\<close> bytes holds after a text has been printed into it.\<close>

definition buffer_after :: "nat \<Rightarrow> string \<Rightarrow> bytes \<Rightarrow> bytes" where
  "buffer_after bufsz t m =
     (if bufsz = 0 then m else take (bufsz - 1) t @ NUL # drop (Suc (length (take (bufsz - 1) t))) m)"

lemma terminated:
  assumes "0 < bufsz" "bufsz \<le> length m"
  shows "(take (bufsz - 1) t @ drop (length (take (bufsz - 1) t)) m)[min (length t) (bufsz - 1) := NUL] = buffer_after bufsz t m"
proof -
  let ?k = "length (take (bufsz - 1) t)"
  have k: "min (length t) (bufsz - 1) = ?k" "?k < length m" using assms by auto
  then show ?thesis using assms(1) unfolding k(1) buffer_after_def
    by (simp add: list_update_append Cons_nth_drop_Suc [symmetric] del: length_take)
qed

lemma vsnprintf_text:
  "\<exists>r. (\<forall>m bufsz. bufsz \<le> length m \<longrightarrow> rpl_vsnprintf env (Some m) bufsz format args =
      obind r (\<lambda>(t, ret, stores). Ret (buffer_after bufsz t m, ret, stores))) \<and>
    (\<forall>bufsz. rpl_vsnprintf env None bufsz format args = obind r (\<lambda>(t, ret, stores). Ret ([], ret, stores))) \<and>
    (\<forall>t ret stores. r = Ret (t, ret, stores) \<longrightarrow> ret = - 1 \<or> ret = int (length t) \<and> ret < INT_MAX)"
proof -
  obtain r where r: "\<And>bufsz o1. o_len o1 = 0 \<Longrightarrow> vsn_loop env bufsz format pconv_init args o1 [] =
      obind r (\<lambda>(ov, t, stores). Ret (ov, out_string bufsz t o1, stores))"
    using vsn_loop_loops[of 0 env format pconv_init args "[]"] unfolding loops_def by blast
  let ?ret = "\<lambda>ov (t :: string). if ov \<or> int (length t) \<ge> INT_MAX then - 1 else int (length t)"
  let ?r = "obind r (\<lambda>(ov, t, stores). Ret (t, ?ret ov t, stores))"
  have "rpl_vsnprintf env (Some m) bufsz format args = obind ?r (\<lambda>(t, ret, stores). Ret (buffer_after bufsz t m, ret, stores))"
    if b: "bufsz \<le> length m" for m bufsz
  proof (cases r)
    case (Ret x)
    obtain ov t stores where x: "x = (ov, t, stores)" by (cases x)
    have o: "out_string bufsz t \<lparr>o_str = m, o_len = 0, o_wild = False\<rparr> =
        \<lparr>o_str = take (bufsz - 1) t @ drop (length (take (bufsz - 1) t)) m, o_len = length t, o_wild = False\<rparr>"
      by (rule out_string_buffer[OF b])
    show ?thesis
    proof (cases "bufsz = 0")
      case True
      then show ?thesis by (simp add: rpl_vsnprintf_def r Ret x o [unfolded True, simplified] buffer_after_def True)
    next
      case False
      then have s: "store (take (bufsz - 1) t @ drop (length (take (bufsz - 1) t)) m) (min (length t) (bufsz - 1)) NUL =
          Ret (buffer_after bufsz t m)"
        using terminated[of bufsz m t] b by (simp add: store_def)
      show ?thesis
      proof (cases "length t < bufsz")
        case True
        then have "min (length t) (bufsz - 1) = length t" using False by simp
        then show ?thesis using s True by (simp add: rpl_vsnprintf_def r Ret x o del: length_take)
      next
        case f: False
        then have "min (length t) (bufsz - 1) = bufsz - 1" by simp
        then show ?thesis using s f False by (simp add: rpl_vsnprintf_def r Ret x o del: length_take)
      qed
    qed
  qed (simp add: rpl_vsnprintf_def r)
  moreover have "rpl_vsnprintf env None bufsz format args = obind ?r (\<lambda>(t, ret, stores). Ret ([], ret, stores))" for bufsz
  proof (cases r)
    case (Ret x)
    obtain ov t stores where x: "x = (ov, t, stores)" by (cases x)
    show ?thesis using out_string_buffer[of 0 "[]" t] by (simp add: rpl_vsnprintf_def r Ret x)
  qed (simp add: rpl_vsnprintf_def r)
  moreover have "ret = - 1 \<or> ret = int (length t) \<and> ret < INT_MAX" if "?r = Ret (t, ret, stores)" for t ret stores
    using that by (cases r) (auto simp: INT_MAX_def split: if_splits prod.splits)
  ultimately show ?thesis by (intro exI[of _ ?r]) blast
qed

section \<open>Digits\<close>

lemma digit_table_base:
  assumes "d < 16"
  shows "digit_val (digit_table caps ! d) = Some d" "digit_table False ! d = base_digit d"
    "digit_table caps ! d \<noteq> CHR ''-''"
proof -
  have "d \<in> set [0..<16]" using assms by simp
  moreover have "\<forall>d \<in> set [0..<16]. digit_val (digit_table True ! d) = Some d \<and> digit_val (digit_table False ! d) = Some d \<and>
      digit_table False ! d = base_digit d \<and> digit_table True ! d \<noteq> CHR ''-'' \<and> digit_table False ! d \<noteq> CHR ''-''"
    by code_simp
  ultimately show "digit_val (digit_table caps ! d) = Some d" "digit_table False ! d = base_digit d"
    "digit_table caps ! d \<noteq> CHR ''-''"
    by (cases caps; simp)+
qed

lemma convert_length: "length (convert_loop left v base caps) \<le> Suc left"
  by (induction left arbitrary: v) simp_all

lemma convert_scan:
  assumes "1 < base" "base \<le> 16" "v < base ^ Suc left"
  shows "scan_digits base (rev (convert_loop left v base caps) @ r) acc =
    scan_digits base r (acc * base ^ length (convert_loop left v base caps) + v)"
  using assms(3)
proof (induction left arbitrary: v r)
  case 0
  then have "v < base" "v < 16" using assms(2) by simp_all
  then show ?case using digit_table_base(1)[of v caps] by (simp add: is_digit_in_def)
next
  case (Suc left)
  have m: "v mod base < base" "v mod base < 16" using assms mod_less_divisor[of base v] by linarith+
  have d: "is_digit_in base (digit_table caps ! (v mod base))" "the (digit_val (digit_table caps ! (v mod base))) = v mod base"
    using m digit_table_base(1)[of "v mod base" caps] by (simp_all add: is_digit_in_def)
  show ?case
  proof (cases "v div base = 0")
    case True
    then have "v mod base = v" by (metis add.left_neutral div_mult_mod_eq mult_zero_left)
    then show ?thesis using True d by simp
  next
    case False
    have "v div base < base ^ Suc left" using Suc.prems assms(1) by (simp add: less_mult_imp_div_less mult.commute)
    from Suc.IH[OF this, of "digit_table caps ! (v mod base) # r"] show ?thesis
      using False d by (simp add: algebra_simps)
  qed
qed

lemma convert_show:
  assumes "1 < base" "base \<le> 16" "v < base ^ Suc left"
  shows "rev (convert_loop left v base False) = show_base base v"
  using assms(3)
proof (induction left arbitrary: v)
  case 0
  then have "v < base" "v < 16" using assms(2) by simp_all
  then show ?case using digit_table_base(2)[of v] assms(1) by (simp add: show_base.simps)
next
  case (Suc left)
  have m: "v mod base < 16" using assms mod_less_divisor[of base v] by linarith
  show ?case
  proof (cases "v < base")
    case True
    then show ?thesis using digit_table_base(2)[OF m] assms(1) by (simp add: show_base.simps)
  next
    case False
    have "v div base < base ^ Suc left" using Suc.prems assms(1) by (simp add: less_mult_imp_div_less mult.commute)
    moreover have "v div base \<noteq> 0" using False assms(1) by (simp add: div_eq_0_iff)
    ultimately show ?thesis using Suc.IH digit_table_base(2)[OF m] False assms(1) by (subst show_base.simps) simp
  qed
qed

lemma show_base_10: "show_base 10 n = show_nat n"
proof (induction n rule: show_nat.induct)
  case (1 n)
  have d: "base_digit d = digit_char d" if "d < 10" for d using that by (simp add: base_digit_def digit_char_def)
  show ?case
  proof (cases "n < 10")
    case True
    then show ?thesis using d by (simp add: show_base.simps show_nat.simps[of n])
  next
    case False
    then show ?thesis using 1 d by (subst show_base.simps, subst show_nat.simps) simp
  qed
qed

text \<open>The buffer for the digits is large enough for every base.\<close>

lemma convert_fits:
  fixes v base :: nat
  assumes "8 \<le> base" "v < 2 ^ 64"
  shows "v < base ^ Suc (MAX_CONVERT_LENGTH - 1)"
proof -
  have "(2 :: nat) ^ 64 \<le> 8 ^ 43" by simp
  also have "\<dots> \<le> base ^ 43" using assms(1) by (rule power_mono) simp
  finally show ?thesis using assms(2) by (simp add: MAX_CONVERT_LENGTH_def)
qed

lemma convert_facts:
  assumes "8 \<le> base" "base \<le> 16" "v < 2 ^ 64"
  shows "scan_digits base (rev (convert v MAX_CONVERT_LENGTH base caps)) 0 = (v, [])"
    "rev (convert v MAX_CONVERT_LENGTH base False) = show_base base v"
    "length (convert v MAX_CONVERT_LENGTH base caps) \<le> MAX_CONVERT_LENGTH"
    "0 < length (convert v MAX_CONVERT_LENGTH base caps)"
proof -
  have f: "v < base ^ Suc (MAX_CONVERT_LENGTH - 1)" "1 < base" using convert_fits[OF assms(1,3)] assms(1) by simp_all
  show "scan_digits base (rev (convert v MAX_CONVERT_LENGTH base caps)) 0 = (v, [])"
    using convert_scan[OF f(2) assms(2) f(1), of caps "[]" 0] unfolding convert_def append_Nil2 by simp
  show "rev (convert v MAX_CONVERT_LENGTH base False) = show_base base v"
    unfolding convert_def by (rule convert_show[OF f(2) assms(2) f(1)])
  have "Suc (MAX_CONVERT_LENGTH - 1) = MAX_CONVERT_LENGTH" by (simp add: MAX_CONVERT_LENGTH_def)
  then show "length (convert v MAX_CONVERT_LENGTH base caps) \<le> MAX_CONVERT_LENGTH"
    using convert_length[of "MAX_CONVERT_LENGTH - 1" v base caps] by (simp only: convert_def)
  show "0 < length (convert v MAX_CONVERT_LENGTH base caps)"
    by (cases "MAX_CONVERT_LENGTH - 1") (simp_all add: convert_def)
qed

lemma digits_text_plain: "digits_text env 0 ds = ds"
  by (induction env "0 :: int" ds rule: digits_text.induct) simp_all


section \<open>Whole calls\<close>

lemma buffer_after_all:
  assumes "length m = Suc (length t)" "bufsz = Suc (length t)"
  shows "buffer_after bufsz t m = t @ [NUL]"
  using assms by (simp add: buffer_after_def)

lemma asprintf_loop:
  assumes "\<And>bufsz o1. o_len o1 = 0 \<Longrightarrow> vsn_loop env bufsz format pconv_init args o1 [] = Ret (False, out_string bufsz t o1, [])"
    and "int (length t) < INT_MAX"
  shows "rpl_asprintf env True format args = Ret (Some (t @ [NUL]), int (length t), [])"
proof -
  have n: "rpl_vsnprintf env None 0 format args = Ret ([], int (length t), [])"
    using assms out_string_buffer[of 0 "[]" t] by (simp add: rpl_vsnprintf_def)
  have "rpl_vsnprintf env (Some m) (Suc (length t)) format args = Ret (t @ [NUL], int (length t), [])"
    if m: "length m = Suc (length t)" for m
  proof -
    have "store (t @ drop (length t) m) (length t) NUL = Ret (t @ [NUL])"
      using m terminated[of "Suc (length t)" m t] buffer_after_all[OF m refl] by (simp add: store_def)
    then show ?thesis
      using assms out_string_buffer[of "Suc (length t)" m t] m by (simp add: rpl_vsnprintf_def)
  qed
  then show ?thesis by (simp add: rpl_asprintf_def rpl_vasprintf_def n nat_add_distrib)
qed

section \<open>Integer conversions\<close>

text \<open>The magnitude that is printed, if there is one.\<close>

definition magnitude :: "64 word \<Rightarrow> pflag set \<Rightarrow> nat" where
  "magnitude w flags = (if F_UNSIGNED \<in> flags then unat w else nat \<bar>sint w\<bar>)"


lemma unat_sint: "0 \<le> sint (w :: 64 word) \<Longrightarrow> unat w = nat (sint w)"
proof -
  assume p: "0 \<le> sint w"
  have "sint w < 2 ^ 63" using sint_lt[of w] by simp
  moreover have "uint w = uint (word_of_int (sint w) :: 64 word)" by simp
  then have "uint w = take_bit 64 (sint w)" by (simp only: uint_word_of_int_eq len_num1 len_bit0 len_num0) simp
  ultimately have "uint w = sint w" using p by (simp add: take_bit_eq_mod)
  then show ?thesis by (simp add: unat_eq_nat_uint)
qed

lemma magnitude_bound: "magnitude w flags < 2 ^ 64"
proof -
  have "unat w < 2 ^ 64" using unsigned_less[of w] by simp
  moreover have "\<bar>sint w\<bar> \<le> 2 ^ 63" using sint_lt[of w] sint_greater_eq[of w] by simp
  then have "nat \<bar>sint w\<bar> < 2 ^ 64" by simp
  ultimately show ?thesis by (simp add: magnitude_def)
qed





section \<open>Sample\<close>

text \<open>An environment with the usual separators, and whole numbers for floating-point numbers.\<close>

definition whole_numbers :: "int ld_ops" where
  "whole_numbers = \<lparr>ld_le = (\<le>), ld_lt = (<), ld_eq = (=), ld_neg = uminus, ld_add = (+), ld_sub = (-),
     ld_mul = (*), ld_div = (div), ld_of_nat = int, ld_half = 1, ld_trunc = nat\<rparr>"

definition plain_env :: "int print_env" where
  "plain_env = \<lparr>thousands_sep = None, decimal_point = None, ld_ops_of = whole_numbers\<rparr>"

text \<open>
  Property C32.
  The length that \<open>rpl_vsnprintf\<close> computes without a buffer is the length of one text, and
  every buffer gets a prefix of that text, as long as it fits, with a terminating NUL; nothing
  behind it is touched, and the result is the full length again.
\<close>

theorem vsnprintf_truncates:
  assumes "rpl_vsnprintf env None 0 format args = Ret (x, n, stores)" "0 \<le> n"
  shows "\<exists>t. int (length t) = n \<and> n < INT_MAX \<and>
    (\<forall>m bufsz. bufsz \<le> length m \<longrightarrow>
       rpl_vsnprintf env (Some m) bufsz format args =
         Ret (if bufsz = 0 then m else take (bufsz - 1) t @ NUL # drop (Suc (min (length t) (bufsz - 1))) m, n, stores))"
proof -
  from vsnprintf_text[of env format args] obtain r where
    r: "\<And>m bufsz. bufsz \<le> length m \<Longrightarrow> rpl_vsnprintf env (Some m) bufsz format args =
        obind r (\<lambda>(t, ret, stores). Ret (buffer_after bufsz t m, ret, stores))"
      "rpl_vsnprintf env None 0 format args = obind r (\<lambda>(t, ret, stores). Ret ([], ret, stores))"
      "\<And>t ret stores. r = Ret (t, ret, stores) \<Longrightarrow> ret = - 1 \<or> ret = int (length t) \<and> ret < INT_MAX"
    by blast
  obtain t where t: "r = Ret (t, n, stores)" using assms(1) r(2) by (cases r) auto
  then show ?thesis using r(1,3) assms(2) by (intro exI[of _ t]) (auto simp: buffer_after_def min.commute)
qed

lemma plain_text: "rpl_vsnprintf plain_env None 0 ''ok'' [] = Ret ([], 2, [])"
  by (simp add: rpl_vsnprintf_def vsn_loop.simps pconv_init_def outchar_def INT_MAX_def)

theorem vsnprintf_truncates_witness:
  "\<exists>t. int (length t) = 2 \<and> (2 :: int) < INT_MAX \<and>
    (\<forall>m bufsz. bufsz \<le> length m \<longrightarrow>
       rpl_vsnprintf plain_env (Some m) bufsz ''ok'' [] =
         Ret (if bufsz = 0 then m else take (bufsz - 1) t @ NUL # drop (Suc (min (length t) (bufsz - 1))) m, 2, []))"
  by (rule vsnprintf_truncates[OF plain_text]) simp

lemma show_int_fits: "int (length (show_int (sint (w :: 64 word)))) < INT_MAX"
proof -
  have "nat \<bar>sint w\<bar> < 10 ^ 20" using sint_lt[of w] sint_greater_eq[of w] by simp
  then have "length (show_nat (nat \<bar>sint w\<bar>)) \<le> 20"
    using show_base_length[of 10 "nat \<bar>sint w\<bar>" 20] by (simp add: show_base_10)
  then show ?thesis by (auto simp: show_int_def INT_MAX_def)
qed

lemma int_text_decimal:
  assumes "sint w \<noteq> - (2 ^ 63)"
  shows "int_text env w 10 0 (- 1) {} = Ret (show_int (sint w))"
proof -
  define n where "n = nat \<bar>sint w\<bar>"
  have "n < 2 ^ 64" using magnitude_bound[of w "{}"] by (simp add: magnitude_def n_def)
  then have t: "rev (convert n MAX_CONVERT_LENGTH 10 False) = show_nat n"
    using convert_facts(2)[of 10 n] by (simp add: show_base_10)
  then have l: "length (convert n MAX_CONVERT_LENGTH 10 False) = length (show_nat n)" by (metis length_rev)
  have f: "int (length (show_nat n)) < INT_MAX"
    using show_int_fits[of w] by (auto simp: show_int_def INT_MAX_def n_def split: if_splits)
  show ?thesis
  proof (cases "sint w < 0")
    case True
    then have "nat (- sint w) = n" by (simp add: n_def)
    then show ?thesis using True assms t l f
      by (simp add: int_text_def sign_text_def as_int_def digits_text_plain show_int_def INT_MAX_def)
  next
    case False
    then have "unat w = n" "nat (sint w) = n" using unat_sint[of w] by (simp_all add: n_def)
    then show ?thesis using False assms t l f
      by (simp add: int_text_def sign_text_def as_int_def digits_text_plain show_int_def INT_MAX_def)
  qed
qed

lemma strtol_show_int:
  assumes "- (2 ^ 63) \<le> i" "i < 2 ^ 63"
  shows "strtol (show_int i) 10 = (i, [])"
proof (cases "i < 0")
  case True
  obtain d r where d: "show_nat (nat (- i)) = digit_char d # r" "d < 10" using show_nat_Cons by blast
  have "scan_digits 10 (show_nat (nat (- i))) 0 = (nat (- i), [])" using scan_digits_show[of "nat (- i)" "[]" 0] by simp
  moreover have "\<not> is_space (CHR ''-'')" by code_simp
  ultimately show ?thesis using True d assms by (simp add: strtol_def show_int_def clamp_long_def)
next
  case False
  then show ?thesis using strtol_show[of "[]" "nat i"] assms by (simp add: show_int_def clamp_long_def)
qed

lemma ld_loop:
  assumes "sint w \<noteq> - (2 ^ 63)"
  shows "vsn_loop env bufsz ''%ld'' pconv_init [IntVal w] o1 [] = Ret (False, out_string bufsz (show_int (sint w)) o1, [])"
  using prints_eq[OF fmtint_prints, of env bufsz w 10 0 "- 1" "{}" o1] int_text_decimal[OF assms, of env]
  by (simp add: vsn_loop.simps pconv_init_def flag_of_def char_to_int_def length_modifier_def
      print_conv_def conv_signed_def signed_value_def)

text \<open>
  Property C34.
  A \<open>long\<close> that is printed with \<open>%ld\<close> is read back by \<open>strtol\<close>: \<open>rpl_asprintf\<close> returns the
  decimal digits, preceded by a minus sign if there is one. The smallest \<open>long\<close> is left out,
  since its negation overflows.
\<close>

theorem long_roundtrip:
  assumes "sint w \<noteq> - (2 ^ 63)"
  shows "\<exists>s. rpl_asprintf env True ''%ld'' [IntVal w] = Ret (Some (s @ [NUL]), int (length s), []) \<and>
    NUL \<notin> set s \<and> strtol s 10 = (sint w, [])"
  using asprintf_loop[OF ld_loop[OF assms] show_int_fits, of env] strtol_show_int[of "sint w"] sint_lt[of w] sint_greater_eq[of w]
  by (intro exI[of _ "show_int (sint w)"]) (simp add: show_int_def)

theorem long_roundtrip_witness:
  "\<exists>s. rpl_asprintf plain_env True ''%ld'' [IntVal (- 42)] = Ret (Some (s @ [NUL]), int (length s), []) \<and>
    NUL \<notin> set s \<and> strtol s 10 = (- 42, [])"
  using long_roundtrip[of "- 42" plain_env] by simp

text \<open>
  Property C35.
  Although the comment promises not to read a string past the precision, the byte behind it is
  read: a string of exactly as many bytes as the precision, without a NUL, is overrun.
\<close>

theorem fmtstr_reads_past:
  assumes "NUL \<notin> set m" "precision = int (length m)" "int (length m) < INT_MAX"
  shows "fmtstr bufsz (Some m) width precision flags o1 = Die ''read outside an object''"
proof -
  have "scan_string m' False precision (length m - length m') = Die ''read outside an object''"
    if "set m' \<subseteq> set m" "length m' \<le> length m" for m'
    using that by (induction m') (use assms in \<open>auto simp: Suc_diff_le [symmetric] of_nat_diff\<close>)
  from this[of m] show ?thesis using assms(2) by (simp add: fmtstr_def)
qed

theorem fmtstr_reads_past_witness:
  "fmtstr 10 (Some ''abc'') 0 3 {} \<lparr>o_str = replicate 10 NUL, o_len = 0, o_wild = False\<rparr> = Die ''read outside an object''"
  by (rule fmtstr_reads_past) (simp_all add: INT_MAX_def)



end
