(* ===== verification/ModuleClient.thy ===== *)
theory ModuleClient
  imports XprintfRun
begin

text \<open>
  The clients of the Python and Perl modules, \<open>src/python/client.c\<close> and \<open>src/perl/client.c\<close>: one
  connection that greets the server and pushes check results. They share their text but for
  the lock around the table of clients, for how a command is put together, and for the error
  messages. OpenSSL and the clock answer from a record, as functions of a call counter.
\<close>

section \<open>Runs\<close>

text \<open>\<open>None\<close> is a run that does not return; \<open>Die\<close> is undefined behaviour.\<close>

type_synonym 'a run = "'a outcome option"

definition rreturn :: "'a \<Rightarrow> 'a run" where "rreturn x = Some (Ret x)"

definition rbind :: "'a run \<Rightarrow> ('a \<Rightarrow> 'b run) \<Rightarrow> 'b run" where
  "rbind m f = (case m of None \<Rightarrow> None | Some (Die e) \<Rightarrow> Some (Die e) | Some (Ret x) \<Rightarrow> f x)"

definition lift_outcome :: "'a outcome \<Rightarrow> 'a run" where "lift_outcome m = Some m"

section \<open>State\<close>

datatype nscang_state = STATE_NONE | STATE_NEW | STATE_MOIN

datatype nscang_response = RESP_NONE | RESP_MOIN | RESP_OKAY

datatype nscang_error =
    ERROR_NONE | ERROR_MALLOC | ERROR_TIMEOUT | ERROR_TOO_LONG_RESPONSE | ERROR_BAD_PROTO_VERSION
  | ERROR_PROTOCOL_MISMATCH | ERROR_UNKNOWN_RESPONSE | ERROR_BAIL | ERROR_FAIL | ERROR_BAD_STATE
  | ERROR_LOCKING | ERROR_SSL_CTX_CREATE | ERROR_SSL_CIPHERS | ERROR_SSL_BIO_CREATE | ERROR_SSL_CREATE
  | ERROR_SSL

text \<open>
  The structure, with the \<open>SSL\<close> object as the key it has in the table of clients; in addition
  the number of calls made so far and what was sent over the present connection.
\<close>

record nscang =
  nc_ctx :: bool
  nc_bio :: bool
  nc_ssl :: "nat option"
  nc_state :: nscang_state
  nc_identity :: "string option"
  nc_psk :: "string option"
  nc_errno :: nscang_error
  nc_errstr :: bytes
  nc_calls :: nat
  nc_sent :: bytes

text \<open>An empty answer of \<open>SSL_read\<close> is a result that is not positive.\<close>

record nscang_env =
  ne_write :: "nat \<Rightarrow> bytes \<Rightarrow> int"
  ne_read :: "nat \<Rightarrow> nat \<Rightarrow> bytes"
  ne_retry :: "nat \<Rightarrow> bool"
  ne_shutdown :: "nat \<Rightarrow> int"
  ne_time :: "nat \<Rightarrow> int"
  ne_random :: "nat \<Rightarrow> nat"

definition nc_tick :: "nscang \<Rightarrow> nscang" where "nc_tick c = c\<lparr>nc_calls := Suc (nc_calls c)\<rparr>"

definition ERRSTR_SIZE :: nat where "ERRSTR_SIZE = 1024"
definition COMMAND_SIZE :: nat where "COMMAND_SIZE = 1024"

section \<open>Memory\<close>

text \<open>\<open>strncpy\<close> into a memory object, and \<open>snprintf\<close> of a text into a fresh one.\<close>

definition strncpy :: "bytes \<Rightarrow> bytes \<Rightarrow> nat \<Rightarrow> bytes outcome" where
  "strncpy m src n =
     (if length m < n then Die ''write outside an object''
      else if NUL \<in> set (take n src) then Ret (memcpy_at 0 (cstr src @ replicate (n - length (cstr src)) NUL) m)
      else if length src < n then Die ''read outside an object''
      else Ret (memcpy_at 0 (take n src) m))"

definition snprintf_new :: "nat \<Rightarrow> nat \<Rightarrow> string \<Rightarrow> bytes" where
  "snprintf_new object bufsz t = buffer_after bufsz t (replicate object undefined)"

definition set_errstr :: "bytes \<Rightarrow> nscang \<Rightarrow> nscang outcome" where
  "set_errstr src c =
     obind (strncpy (nc_errstr c) src (ERRSTR_SIZE - 1)) (\<lambda>m.
     obind (store m (ERRSTR_SIZE - 1) NUL) (\<lambda>m. Ret (c\<lparr>nc_errstr := m\<rparr>)))"

definition nc_fail :: "nscang_error \<Rightarrow> nscang \<Rightarrow> nscang" where
  "nc_fail e c = c\<lparr>nc_errno := e\<rparr>"

section \<open>Writing\<close>

partial_function (option) write_turns :: "nscang_env \<Rightarrow> bytes \<Rightarrow> int \<Rightarrow> nscang \<Rightarrow> (bool \<times> nscang) option" where
  "write_turns env buf endtime c =
     (let k = nc_calls c; rc = ne_write env k buf; c = nc_tick c
      in if rc > 0 then Some (True, c\<lparr>nc_sent := nc_sent c @ take (nat rc) buf\<rparr>)
         else if \<not> ne_retry env k then Some (False, nc_fail ERROR_SSL c)
         else if ne_time env k > endtime then Some (False, nc_fail ERROR_TIMEOUT c)
         else write_turns env buf endtime c)"

definition nscang_client_write :: "nscang_env \<Rightarrow> bytes \<Rightarrow> int \<Rightarrow> nscang \<Rightarrow> (bool \<times> nscang) run" where
  "nscang_client_write env buf timeout c =
     (if nc_ssl c = None then Some (Die ''NULL pointer'')
      else map_option Ret (write_turns env buf (ne_time env (nc_calls c) + timeout) (nc_tick c)))"

text \<open>A write of the first \<open>len\<close> bytes of an object.\<close>

definition write_object :: "nscang_env \<Rightarrow> bytes \<Rightarrow> nat \<Rightarrow> int \<Rightarrow> nscang \<Rightarrow> (bool \<times> nscang) run" where
  "write_object env m len timeout c =
     (if length m < len then Some (Die ''read outside an object'')
      else nscang_client_write env (take len m) timeout c)"

definition nscang_client_send_quit :: "nscang_env \<Rightarrow> nscang \<Rightarrow> (bool \<times> nscang) run" where
  "nscang_client_send_quit env c =
     (if nc_state c \<noteq> STATE_MOIN then rreturn (False, nc_fail ERROR_BAD_STATE c)
      else nscang_client_write env (''QUIT'' @ [LF]) 0 c)"

text \<open>A new connection is made when the client next writes.\<close>

definition nscang_client_disconnect :: "nscang_env \<Rightarrow> nscang \<Rightarrow> nscang run" where
  "nscang_client_disconnect env c =
     rbind (if nc_state c = STATE_MOIN then nscang_client_send_quit env c else rreturn (False, c)) (\<lambda>(_, c).
       if nc_ssl c = None then Some (Die ''NULL pointer'')
       else
         let k = nc_calls c;
             c = nc_tick c;
             c = (if ne_shutdown env k = - 1 \<and> ne_retry env k then nc_tick c else c)
         in rreturn (c\<lparr>nc_sent := [], nc_state := STATE_NEW\<rparr>))"

section \<open>Responses\<close>

definition RESPONSE_SIZE :: nat where "RESPONSE_SIZE = 1024"

text \<open>The line in the buffer: the newline, or the carriage return before it, becomes a NUL.\<close>

definition end_line :: "bytes \<Rightarrow> bytes outcome" where
  "end_line d =
     (let m = d @ replicate (RESPONSE_SIZE - length d) undefined
      in if length d < 2 then Die ''read outside an object''
         else if d ! (length d - 2) = CR then store m (length d - 2) NUL
         else store m (length d - 1) NUL)"

partial_function (option) response_turns ::
  "nscang_env \<Rightarrow> int \<Rightarrow> bytes \<Rightarrow> nscang \<Rightarrow> (bytes option \<times> nscang) outcome option" where
  "response_turns env endtime d c =
     (let k = nc_calls c;
          new = take (RESPONSE_SIZE - length d) (ne_read env k (RESPONSE_SIZE - length d));
          c = nc_tick c;
          d' = d @ new
      in if new \<noteq> [] \<and> last d' = LF then Some (obind (end_line d') (\<lambda>m. Ret (Some m, c)))
         else if new \<noteq> [] \<and> length d' = RESPONSE_SIZE then Some (Ret (None, nc_fail ERROR_TOO_LONG_RESPONSE c))
         else if new = [] \<and> \<not> ne_retry env k then Some (Ret (None, nc_fail ERROR_SSL c))
         else if ne_time env k > endtime then Some (Ret (None, nc_fail ERROR_TIMEOUT c))
         else response_turns env endtime d' c)"

text \<open>The size of a pointer, which \<open>sizeof(msg)\<close> gives.\<close>

definition SIZEOF_POINTER :: nat where "SIZEOF_POINTER = 8"

definition judge_response :: "nscang_env \<Rightarrow> bytes \<Rightarrow> nscang \<Rightarrow> (nscang_response \<times> nscang) run" where
  "judge_response env m c =
     (let line = cstr m;
          refuse = (\<lambda>e src c. lift_outcome (obind (set_errstr src (nc_fail e c)) (\<lambda>c. Ret (RESP_NONE, c))))
      in if take 4 line = ''MOIN'' then
           if line = ''MOIN 1'' then rreturn (RESP_MOIN, c) else refuse ERROR_BAD_PROTO_VERSION (drop 5 m) c
         else if take 4 line = ''OKAY'' then rreturn (RESP_OKAY, c)
         else if take 4 line = ''FAIL'' then refuse ERROR_FAIL (drop 5 m) c
         else if take 4 line = ''BAIL'' then
           rbind (nscang_client_disconnect env c) (\<lambda>c. refuse ERROR_BAIL (drop 5 m) c)
         else
           rbind (write_object env (''BAIL Unknown response!'' @ [NUL]) SIZEOF_POINTER 0 c) (\<lambda>(_, c).
           rbind (nscang_client_disconnect env c) (\<lambda>c. refuse ERROR_UNKNOWN_RESPONSE m c)))"

definition nscang_client_response :: "nscang_env \<Rightarrow> int \<Rightarrow> nscang \<Rightarrow> (nscang_response \<times> nscang) run" where
  "nscang_client_response env timeout c =
     (if nc_ssl c = None then Some (Die ''NULL pointer'')
      else
        rbind (response_turns env (ne_time env (nc_calls c) + timeout) [] (nc_tick c)) (\<lambda>(m, c).
          case m of None \<Rightarrow> rreturn (RESP_NONE, c) | Some m \<Rightarrow> judge_response env m c))"

section \<open>Requests\<close>

text \<open>\<open>%08ld\<close> of a number that \<open>random\<close> returns.\<close>

definition random_digits :: "nat \<Rightarrow> string" where
  "random_digits n = (let s = show_nat (n mod 2 ^ 31) in replicate (8 - length s) (CHR ''0'') @ s)"

definition moin_text :: "nat \<Rightarrow> nat \<Rightarrow> string" where
  "moin_text a b = ''MOIN 1 '' @ random_digits a @ random_digits b @ [CR, LF]"

text \<open>Waiting for a response of the right kind.\<close>

definition expect :: "nscang_env \<Rightarrow> nscang_response \<Rightarrow> int \<Rightarrow> nscang \<Rightarrow> (bool \<times> nscang) run" where
  "expect env wanted timeout c =
     rbind (nscang_client_response env timeout c) (\<lambda>(rc, c).
       if rc = RESP_NONE then rreturn (False, c)
       else if rc \<noteq> wanted then rreturn (False, nc_fail ERROR_PROTOCOL_MISMATCH c)
       else rreturn (True, c))"

definition nscang_client_send_moin :: "nscang_env \<Rightarrow> int \<Rightarrow> nscang \<Rightarrow> (bool \<times> nscang) run" where
  "nscang_client_send_moin env timeout c =
     (if nc_state c = STATE_MOIN then rreturn (True, c)
      else if nc_state c \<noteq> STATE_NEW then rreturn (False, nc_fail ERROR_BAD_STATE c)
      else
        let t = moin_text (ne_random env (nc_calls c)) (ne_random env (Suc (nc_calls c)));
            c = nc_tick (nc_tick c)
        in rbind (write_object env (snprintf_new 64 64 t) (length t) timeout c) (\<lambda>(ok, c).
             if \<not> ok then rreturn (False, c)
             else
               rbind (expect env RESP_MOIN timeout c) (\<lambda>(ok, c).
                 if \<not> ok then rreturn (False, c) else rreturn (True, c\<lparr>nc_state := STATE_MOIN\<rparr>))))"

text \<open>A command of \<open>len\<close> bytes in a buffer is announced, in a line made in another buffer, and sent.\<close>

definition push_command :: "nscang_env \<Rightarrow> nat \<Rightarrow> string \<Rightarrow> bytes \<Rightarrow> nat \<Rightarrow> int \<Rightarrow> nscang \<Rightarrow> (bool \<times> nscang) run" where
  "push_command env cmdsize eol command len timeout c =
     rbind (nscang_client_write env (cstr (snprintf_new cmdsize cmdsize (''PUSH '' @ show_nat len @ eol))) timeout c) (\<lambda>(ok, c).
       if \<not> ok then rreturn (False, c)
       else
         rbind (expect env RESP_OKAY timeout c) (\<lambda>(ok, c).
           if \<not> ok then rreturn (False, c)
           else
             rbind (write_object env command len timeout c) (\<lambda>(ok, c).
               if \<not> ok then rreturn (False, c) else expect env RESP_OKAY timeout c)))"

section \<open>Python\<close>

definition result_text :: "string \<Rightarrow> string option \<Rightarrow> int \<Rightarrow> string \<Rightarrow> string" where
  "result_text host service status message =
     (case service of
        None \<Rightarrow> ''PROCESS_HOST_CHECK_RESULT;'' @ host @ '';'' @ show_int status @ '';'' @ message
      | Some s \<Rightarrow> ''PROCESS_SERVICE_CHECK_RESULT;'' @ host @ '';'' @ s @ '';'' @ show_int status @ '';'' @ message)"

definition stamped :: "int \<Rightarrow> string \<Rightarrow> string" where
  "stamped now t = ''['' @ show_nat (nat (now mod 2 ^ 32)) @ ''] '' @ t"

text \<open>\<open>snprintf\<close> returns the length of the whole text, also if the buffer is too small for it.\<close>

definition py_client_send_push ::
  "nscang_env \<Rightarrow> string \<Rightarrow> string option \<Rightarrow> int \<Rightarrow> string \<Rightarrow> int \<Rightarrow> nscang \<Rightarrow> (bool \<times> nscang) run" where
  "py_client_send_push env host service status message timeout c =
     rbind (nscang_client_send_moin env timeout c) (\<lambda>(ok, c).
       if \<not> ok then rreturn (False, c)
       else
         let t = stamped (ne_time env (nc_calls c)) (result_text host service status message);
             c = nc_tick c
         in rbind (lift_outcome (store (snprintf_new COMMAND_SIZE (COMMAND_SIZE - 1) t) (length t) LF)) (\<lambda>m.
              push_command env 64 [LF] m (length t + 1) timeout c))"

text \<open>The methods of the module: after a failure everything is done once more.\<close>

definition py_result ::
  "nscang_env \<Rightarrow> string \<Rightarrow> string option \<Rightarrow> int \<Rightarrow> string \<Rightarrow> int \<Rightarrow> nscang \<Rightarrow> (bool \<times> nscang) run" where
  "py_result env host service rc output timeout c =
     rbind (py_client_send_push env host service rc output timeout c) (\<lambda>(ok, c).
       if ok then rreturn (True, c)
       else
         rbind (nscang_client_disconnect env c) (\<lambda>c.
           py_client_send_push env host service rc output timeout c))"

section \<open>Perl\<close>

text \<open>Whether \<open>errno\<close> was set before; a number that does not fit sets it.\<close>

definition has_timestamp_prefix :: "bool \<Rightarrow> string \<Rightarrow> int" where
  "has_timestamp_prefix errno_set s =
     (if deref s \<noteq> CHR ''['' then 0
      else
        let s = tl s in
        if \<not> is_digit_in 10 (deref s) then - 1
        else
          let (n, rest) = scan_digits 10 s 0 in
          if errno_set \<or> int n > 2 ^ 63 - 1 then - 1
          else if deref rest = CHR '']'' then 1
          else - 1)"

text \<open>The command with a newline at its end.\<close>

definition end_command :: "bytes \<Rightarrow> (bytes \<times> nat) outcome" where
  "end_command m =
     (let len = length (cstr m)
      in if m ! (len - 1) \<noteq> LF then
           obind (store m len LF) (\<lambda>m. obind (store m (len + 1) NUL) (\<lambda>m. Ret (m, len + 1)))
         else Ret (m, len))"

definition perl_client_send_command ::
  "nscang_env \<Rightarrow> bool \<Rightarrow> string \<Rightarrow> int \<Rightarrow> nscang \<Rightarrow> (bool \<times> nscang) run" where
  "perl_client_send_command env errno_set command timeout c =
     (let r = has_timestamp_prefix errno_set command;
          send = (\<lambda>m c.
            rbind (lift_outcome (end_command m)) (\<lambda>(m, len).
            rbind (nscang_client_send_moin env timeout c) (\<lambda>(ok, c).
              if \<not> ok then rreturn (False, c) else push_command env 32 [CR, LF] m len timeout c)))
      in if r = 0 then
           send (snprintf_new COMMAND_SIZE (COMMAND_SIZE - 1) (stamped (ne_time env (nc_calls c)) command)) (nc_tick c)
         else if r = 1 then
           rbind (lift_outcome
             (obind (strncpy (replicate COMMAND_SIZE undefined) (command @ [NUL]) (COMMAND_SIZE - 1)) (\<lambda>m.
              store m (COMMAND_SIZE - 1) NUL))) (\<lambda>m. send m c)
         else
           rreturn (False, (nc_fail ERROR_FAIL c)\<lparr>nc_errstr :=
             buffer_after ERRSTR_SIZE (''invalid time stamp format in command `'' @ command @ [CHR 0x27]) (nc_errstr c)\<rparr>))"

definition perl_client_send_push ::
  "nscang_env \<Rightarrow> bool \<Rightarrow> string \<Rightarrow> string option \<Rightarrow> int \<Rightarrow> string \<Rightarrow> int \<Rightarrow> nscang \<Rightarrow> (bool \<times> nscang) run" where
  "perl_client_send_push env errno_set host service status message timeout c =
     perl_client_send_command env errno_set
       (cstr (snprintf_new COMMAND_SIZE (COMMAND_SIZE - 1) (result_text host service status message))) timeout c"

section \<open>The table of clients\<close>

text \<open>
  The table maps the \<open>SSL\<close> object of a client to what \<open>set_psk\<close> reads of the client. To remove
  a structure that is not in the table is undefined.
\<close>

type_synonym nscang_table = "nat \<Rightarrow> (string \<times> string) option"

definition hash_add :: "nscang \<Rightarrow> nscang_table \<Rightarrow> nscang_table" where
  "hash_add c tbl = tbl(the (nc_ssl c) \<mapsto> (the (nc_identity c), the (nc_psk c)))"

definition hash_del :: "nscang \<Rightarrow> nscang_table \<Rightarrow> nscang_table outcome" where
  "hash_del c tbl = (if tbl (the (nc_ssl c)) = None then Die ''not in the table'' else Ret (tbl(the (nc_ssl c) := None)))"

text \<open>The loop for the lock, whose calls answer 0 or an error number.\<close>

definition LOCK_EBUSY :: int where "LOCK_EBUSY = 16"
definition LOCK_EAGAIN :: int where "LOCK_EAGAIN = 11"

partial_function (option) lock_turns :: "(nat \<Rightarrow> int) \<Rightarrow> int set \<Rightarrow> nat \<Rightarrow> int option" where
  "lock_turns answers again k = (if answers k \<in> again then lock_turns answers again (Suc k) else Some (answers k))"

text \<open>The identity and the key, as written into the buffers, and the length returned.\<close>

definition psk_answer ::
  "(string \<times> string) option \<Rightarrow> bytes \<Rightarrow> nat \<Rightarrow> bytes \<Rightarrow> nat \<Rightarrow> (bytes \<times> bytes \<times> nat) outcome" where
  "psk_answer found identity max_identity psk max_psk =
     (case found of
        Some (i, p) \<Rightarrow>
          obind (strncpy identity (i @ [NUL]) max_identity) (\<lambda>identity.
          obind (store identity (max_identity - 1) NUL) (\<lambda>identity.
          obind (strncpy psk (p @ [NUL]) max_psk) (\<lambda>psk.
          obind (store psk (max_psk - 1) NUL) (\<lambda>psk. Ret (identity, psk, length (cstr psk))))))
      | None \<Rightarrow>
          obind (store identity 0 NUL) (\<lambda>identity.
          obind (store psk 0 NUL) (\<lambda>psk. Ret (identity, psk, 0))))"

definition py_set_psk ::
  "(nat \<Rightarrow> int) \<Rightarrow> nscang_table \<Rightarrow> nat \<Rightarrow> bytes \<Rightarrow> nat \<Rightarrow> bytes \<Rightarrow> nat \<Rightarrow> (bytes \<times> bytes \<times> nat) run" where
  "py_set_psk lock tbl ssl identity max_identity psk max_psk =
     (case lock_turns lock {LOCK_EBUSY, LOCK_EAGAIN} 0 of
        None \<Rightarrow> None
      | Some rc \<Rightarrow> lift_outcome (psk_answer (if rc = 0 then tbl ssl else None) identity max_identity psk max_psk))"

definition perl_set_psk ::
  "nscang_table \<Rightarrow> nat \<Rightarrow> bytes \<Rightarrow> nat \<Rightarrow> bytes \<Rightarrow> nat \<Rightarrow> (bytes \<times> bytes \<times> nat) outcome" where
  "perl_set_psk tbl ssl identity max_identity psk max_psk = psk_answer (tbl ssl) identity max_identity psk max_psk"

section \<open>Releasing a client\<close>

definition nc_released :: "nscang \<Rightarrow> nscang" where
  "nc_released c =
     (let c = (if nc_ssl c \<noteq> None then c\<lparr>nc_ssl := None, nc_bio := False\<rparr> else c)
      in c\<lparr>nc_ctx := False, nc_identity := None, nc_psk := None, nc_state := STATE_NONE\<rparr>)"

definition py_client_free :: "nscang_env \<Rightarrow> (nat \<Rightarrow> int) \<Rightarrow> nscang_table \<Rightarrow> nscang \<Rightarrow> (nscang_table \<times> nscang) run" where
  "py_client_free env lock tbl c =
     rbind (if nc_state c \<noteq> STATE_NONE then nscang_client_disconnect env c else rreturn c) (\<lambda>c.
     rbind
       (if nc_ssl c = None then rreturn tbl
        else case lock_turns lock {LOCK_EBUSY} 0 of
               None \<Rightarrow> None
             | Some rc \<Rightarrow> if rc = 0 then lift_outcome (hash_del c tbl) else rreturn tbl) (\<lambda>tbl.
       rreturn (tbl, nc_released c)))"

definition perl_client_free :: "nscang_env \<Rightarrow> nscang_table \<Rightarrow> nscang \<Rightarrow> (nscang_table \<times> nscang) run" where
  "perl_client_free env tbl c =
     rbind (if nc_state c \<noteq> STATE_NONE then nscang_client_disconnect env c else rreturn c) (\<lambda>c.
     rbind (if nc_ssl c = None then rreturn tbl else lift_outcome (hash_del c tbl)) (\<lambda>tbl.
       rreturn (tbl, nc_released c)))"

section \<open>Making a client\<close>

text \<open>What the libraries answer while a client is made.\<close>

record nscang_make =
  nm_ctx :: bool
  nm_ciphers :: "string \<Rightarrow> bool"
  nm_bio :: bool
  nm_ssl :: "nat option"
  nm_identity :: bool
  nm_psk :: bool

definition nscang_zero :: nscang where
  "nscang_zero =
     \<lparr>nc_ctx = False, nc_bio = False, nc_ssl = None, nc_state = STATE_NONE, nc_identity = None, nc_psk = None,
      nc_errno = ERROR_NONE, nc_errstr = replicate ERRSTR_SIZE NUL, nc_calls = 0, nc_sent = []\<rparr>"

text \<open>
  The steps up to the entry in the table: the client so far, and whether it got there. The
  names of the host and the port are only handed on.
\<close>

definition client_made :: "nscang_make \<Rightarrow> string option \<Rightarrow> string \<Rightarrow> string \<Rightarrow> bool \<times> nscang" where
  "client_made env ciphers identity psk =
     (let c = nscang_zero in
      if \<not> nm_ctx env then (False, nc_fail ERROR_SSL_CTX_CREATE c)
      else
        let c = c\<lparr>nc_ctx := True\<rparr> in
        if (case ciphers of None \<Rightarrow> False | Some l \<Rightarrow> \<not> nm_ciphers env l) then (False, nc_fail ERROR_SSL_CIPHERS c)
        else if \<not> nm_bio env then (False, nc_fail ERROR_SSL_BIO_CREATE c)
        else
          let c = c\<lparr>nc_bio := True\<rparr> in
          if nm_ssl env = None then (False, nc_fail ERROR_SSL_CREATE (nc_released c))
          else
            let c = c\<lparr>nc_ssl := nm_ssl env,
                       nc_identity := (if nm_identity env then Some identity else None),
                       nc_psk := (if nm_psk env then Some psk else None)\<rparr> in
            if nc_identity c = None \<or> nc_psk c = None then (False, nc_fail ERROR_MALLOC c)
            else (True, c))"

definition py_client_init ::
  "nscang_make \<Rightarrow> (nat \<Rightarrow> int) \<Rightarrow> nscang_table \<Rightarrow> string option \<Rightarrow> string \<Rightarrow> string
    \<Rightarrow> (bool \<times> nscang_table \<times> nscang) option" where
  "py_client_init env lock tbl ciphers identity psk =
     (let (ok, c) = client_made env ciphers identity psk
      in if \<not> ok then Some (False, tbl, c)
         else
           case lock_turns lock {LOCK_EBUSY} 0 of
             None \<Rightarrow> None
           | Some rc \<Rightarrow>
               if rc \<noteq> 0 then Some (False, tbl, nc_fail ERROR_LOCKING c)
               else Some (True, hash_add c tbl, c\<lparr>nc_state := STATE_NEW\<rparr>))"

definition perl_client_init ::
  "nscang_make \<Rightarrow> nscang_table \<Rightarrow> string option \<Rightarrow> string \<Rightarrow> string \<Rightarrow> bool \<times> nscang_table \<times> nscang" where
  "perl_client_init env tbl ciphers identity psk =
     (let (ok, c) = client_made env ciphers identity psk
      in if \<not> ok then (False, tbl, c) else (True, hash_add c tbl, c\<lparr>nc_state := STATE_NEW\<rparr>))"

section \<open>Error messages\<close>

text \<open>What \<open>c->errstr\<close> and the number of the state add to a message.\<close>

definition state_number :: "nscang_state \<Rightarrow> nat" where
  "state_number st = (case st of STATE_NONE \<Rightarrow> 0 | STATE_NEW \<Rightarrow> 1 | STATE_MOIN \<Rightarrow> 2)"

definition plain_message :: "nscang_error \<Rightarrow> string option" where
  "plain_message e =
     (case e of
        ERROR_MALLOC \<Rightarrow> Some ''Can't allocate memory''
      | ERROR_TIMEOUT \<Rightarrow> Some ''Timeout was reached''
      | ERROR_TOO_LONG_RESPONSE \<Rightarrow> Some ''Protocol mismatch - too long response''
      | ERROR_PROTOCOL_MISMATCH \<Rightarrow> Some ''Protocol mismatch - unexpected server response''
      | ERROR_UNKNOWN_RESPONSE \<Rightarrow> Some ''Protocol mismatch - unknown server response''
      | _ \<Rightarrow> None)"

definition detailed_message :: "nscang \<Rightarrow> string option" where
  "detailed_message c =
     (case nc_errno c of
        ERROR_BAD_PROTO_VERSION \<Rightarrow> Some (''Protocol mismatch - bad version '' @ [CHR 0x27] @ cstr (nc_errstr c) @ [CHR 0x27])
      | ERROR_BAIL \<Rightarrow> Some (''BAIL: '' @ cstr (nc_errstr c))
      | ERROR_FAIL \<Rightarrow> Some (''FAIL: '' @ cstr (nc_errstr c))
      | ERROR_BAD_STATE \<Rightarrow> Some (''Operation not permitted in state '' @ show_nat (state_number (nc_state c)))
      | _ \<Rightarrow> None)"

definition ssl_message :: "nscang_error \<Rightarrow> string option" where
  "ssl_message e =
     (case e of
        ERROR_SSL_CTX_CREATE \<Rightarrow> Some ''Can't create SSL context''
      | ERROR_SSL_CIPHERS \<Rightarrow> Some ''Bad ciphers list''
      | ERROR_SSL_BIO_CREATE \<Rightarrow> Some ''Can't create BIO socket''
      | ERROR_SSL_CREATE \<Rightarrow> Some ''Can't create SSL''
      | _ \<Rightarrow> None)"

text \<open>\<open>strncat\<close> appends at most \<open>n\<close> bytes and a NUL to the string in a memory object.\<close>

definition strncat :: "bytes \<Rightarrow> string \<Rightarrow> nat \<Rightarrow> bytes outcome" where
  "strncat m src n =
     (let k = length (cstr m); t = take n src
      in if length m \<le> k then Die ''read outside an object''
         else if length m \<le> k + length t then Die ''write outside an object''
         else Ret (memcpy_at k (t @ [NUL]) m))"

text \<open>The two reasons that OpenSSL gives, the last and the first in its queue.\<close>

definition py_client_errstr :: "string \<Rightarrow> string \<Rightarrow> nscang \<Rightarrow> bytes \<Rightarrow> nat \<Rightarrow> bytes outcome" where
  "py_client_errstr last_reason reason c buf buf_size =
     obind
       (if nc_errno c = ERROR_SSL then
          Ret (buffer_after buf_size (''SSL error - '' @ last_reason @ '' - '' @ reason) buf)
        else
          case detailed_message c of
            Some t \<Rightarrow> Ret (buffer_after buf_size t buf)
          | None \<Rightarrow>
              (case (if nc_errno c = ERROR_LOCKING then Some ''Can't obtain lock for instances list''
                     else case ssl_message (nc_errno c) of Some t \<Rightarrow> Some t | None \<Rightarrow> plain_message (nc_errno c)) of
                 Some t \<Rightarrow> strncpy buf (t @ [NUL]) buf_size
               | None \<Rightarrow> store buf 0 NUL)) (\<lambda>buf.
     store buf (buf_size - 1) NUL)"

text \<open>The Perl module adds the reason of OpenSSL, if there is one.\<close>

definition nscang_client_ssl_error :: "string option \<Rightarrow> bytes \<Rightarrow> nat \<Rightarrow> string \<Rightarrow> bytes outcome" where
  "nscang_client_ssl_error reason buf buf_size msg =
     obind (strncpy buf (msg @ [NUL]) buf_size) (\<lambda>buf.
       case reason of
         None \<Rightarrow> Ret buf
       | Some r \<Rightarrow> obind (strncat buf '':'' (buf_size - 1)) (\<lambda>buf. strncat buf r (buf_size - 1)))"

definition perl_client_errstr :: "string option \<Rightarrow> nscang \<Rightarrow> bytes \<Rightarrow> nat \<Rightarrow> bytes outcome" where
  "perl_client_errstr reason c buf buf_size =
     obind
       (if nc_errno c = ERROR_SSL then nscang_client_ssl_error reason buf buf_size ''SSL error''
        else
          case ssl_message (nc_errno c) of
            Some t \<Rightarrow> nscang_client_ssl_error reason buf buf_size t
          | None \<Rightarrow>
              (case detailed_message c of
                 Some t \<Rightarrow> Ret (buffer_after buf_size t buf)
               | None \<Rightarrow>
                   (case plain_message (nc_errno c) of
                      Some t \<Rightarrow> strncpy buf (t @ [NUL]) buf_size
                    | None \<Rightarrow> store buf 0 NUL))) (\<lambda>buf.
     store buf (buf_size - 1) NUL)"

end
