(* ===== verification/ModuleClientRun.thy ===== *)
theory ModuleClientRun
  imports ModuleClient
begin

text \<open>
  What the clients of the modules do: they return as long as the clock goes on, what they have
  sent when a result is accepted is a conversation that the server takes as exactly this
  result, and which results and failures make them leave their buffers or their table.
\<close>

section \<open>Runs\<close>

lemma rbind_simps [simp]:
  "rbind (rreturn x) f = f x" "rbind (Some (Ret x)) f = f x" "rbind (Some (Die e)) f = Some (Die e)" "rbind None f = None"
  by (simp_all add: rbind_def rreturn_def)

lemma rbind_Ret: "rbind m f = Some (Ret y) \<longleftrightarrow> (\<exists>x. m = Some (Ret x) \<and> f x = Some (Ret y))"
  by (auto simp: rbind_def split: option.splits outcome.splits)

lemma rreturn_Ret [simp]: "rreturn x = Some (Ret y) \<longleftrightarrow> x = y"
  by (simp add: rreturn_def)

lemma lift_outcome_Ret [simp]: "lift_outcome m = Some r \<longleftrightarrow> m = r"
  by (simp add: lift_outcome_def)

named_theorems returns

lemma rbind_returns [returns]:
  "m \<noteq> None \<Longrightarrow> (\<And>x. m = Some (Ret x) \<Longrightarrow> f x \<noteq> None) \<Longrightarrow> rbind m f \<noteq> None"
  by (auto simp: rbind_def split: outcome.split)

lemma basic_returns [returns]: "rreturn x \<noteq> None" "lift_outcome r \<noteq> None" "Some z \<noteq> None"
  by (simp_all add: rreturn_def lift_outcome_def)

lemma if_returns [returns]: "a \<noteq> None \<Longrightarrow> b \<noteq> None \<Longrightarrow> (if p then a else b) \<noteq> None"
  by simp

lemma pair_returns [returns]: "(\<And>a b. f a b \<noteq> None) \<Longrightarrow> (case x of (a, b) \<Rightarrow> f a b) \<noteq> None"
  by (cases x) simp

lemma option_returns [returns]: "a \<noteq> None \<Longrightarrow> (\<And>y. f y \<noteq> None) \<Longrightarrow> (case x of None \<Rightarrow> a | Some y \<Rightarrow> f y) \<noteq> None"
  by (cases x) simp_all

section \<open>Termination\<close>

lemma nc_tick_simps [simp]:
  "nc_calls (nc_tick c) = Suc (nc_calls c)" "nc_sent (nc_tick c) = nc_sent c" "nc_state (nc_tick c) = nc_state c"
  "nc_ssl (nc_tick c) = nc_ssl c" "nc_errstr (nc_tick c) = nc_errstr c"
  by (simp_all add: nc_tick_def)

text \<open>A turn that ends a write.\<close>

definition write_ends :: "nscang_env \<Rightarrow> bytes \<Rightarrow> int \<Rightarrow> nat \<Rightarrow> bool" where
  "write_ends env buf endtime k \<longleftrightarrow> ne_write env k buf > 0 \<or> \<not> ne_retry env k \<or> ne_time env k > endtime"

lemma write_turns_return: "write_ends env buf endtime (nc_calls c + n) \<Longrightarrow> write_turns env buf endtime c \<noteq> None"
proof (induction n arbitrary: c)
  case 0
  then show ?case by (subst write_turns.simps) (auto simp: write_ends_def Let_def)
next
  case (Suc n)
  then have "write_turns env buf endtime (nc_tick c) \<noteq> None" by simp
  then show ?case by (subst write_turns.simps) (auto simp: Let_def)
qed

lemma write_turns_ended:
  assumes "write_turns env buf endtime c = Some r"
  shows "\<exists>n. write_ends env buf endtime (nc_calls c + n)"
proof (rule write_turns.raw_induct [where P = "\<lambda>env buf endtime c r. \<exists>n. write_ends env buf endtime (nc_calls c + n)", OF _ assms])
  fix f env buf endtime and c :: nscang and r
  assume IH: "\<And>env buf endtime c r. f env buf endtime c = Some r \<Longrightarrow> \<exists>n. write_ends env buf endtime (nc_calls c + n)"
    and eq: "(let k = nc_calls c; rc = ne_write env k buf; c = nc_tick c
      in if rc > 0 then Some (True, c\<lparr>nc_sent := nc_sent c @ take (nat rc) buf\<rparr>)
         else if \<not> ne_retry env k then Some (False, nc_fail ERROR_SSL c)
         else if ne_time env k > endtime then Some (False, nc_fail ERROR_TIMEOUT c)
         else f env buf endtime c) = Some r"
  show "\<exists>n. write_ends env buf endtime (nc_calls c + n)"
  proof (cases "write_ends env buf endtime (nc_calls c)")
    case True
    then show ?thesis by (intro exI[of _ 0]) simp
  next
    case False
    then have "f env buf endtime (nc_tick c) = Some r" using eq by (simp add: write_ends_def Let_def)
    from IH[OF this] obtain n where "write_ends env buf endtime (nc_calls (nc_tick c) + n)" by blast
    then show ?thesis by (intro exI[of _ "Suc n"]) simp
  qed
qed

lemma response_turns_return:
  "ne_time env (nc_calls c + n) > endtime \<Longrightarrow> response_turns env endtime d c \<noteq> None"
proof (induction n arbitrary: c d)
  case 0
  then show ?case by (subst response_turns.simps) (simp add: Let_def)
next
  case (Suc n)
  then have "response_turns env endtime d' (nc_tick c) \<noteq> None" for d' by simp
  then show ?case by (subst response_turns.simps) (simp add: Let_def)
qed

text \<open>A clock that goes on.\<close>

definition clock_runs :: "nscang_env \<Rightarrow> bool" where
  "clock_runs env \<longleftrightarrow> (\<forall>b k. \<exists>n. b < ne_time env (k + n))"

lemma write_returns [returns]: "clock_runs env \<Longrightarrow> nscang_client_write env buf timeout c \<noteq> None"
proof -
  assume "clock_runs env"
  then obtain n where "ne_time env (nc_calls (nc_tick c) + n) > ne_time env (nc_calls c) + timeout"
    unfolding clock_runs_def by blast
  then have "write_turns env buf (ne_time env (nc_calls c) + timeout) (nc_tick c) \<noteq> None"
    by (intro write_turns_return[of _ _ _ _ n]) (simp add: write_ends_def)
  then show ?thesis by (simp add: nscang_client_write_def)
qed

lemma disconnect_returns [returns]: "clock_runs env \<Longrightarrow> nscang_client_disconnect env c \<noteq> None"
  unfolding nscang_client_disconnect_def nscang_client_send_quit_def Let_def by (intro returns)

lemma judge_returns [returns]: "clock_runs env \<Longrightarrow> judge_response env m c \<noteq> None"
  unfolding judge_response_def Let_def write_object_def by (intro returns)

lemma response_returns [returns]: "clock_runs env \<Longrightarrow> nscang_client_response env timeout c \<noteq> None"
proof -
  assume a: "clock_runs env"
  then obtain n where "ne_time env (nc_calls (nc_tick c) + n) > ne_time env (nc_calls c) + timeout"
    unfolding clock_runs_def by blast
  then have "response_turns env (ne_time env (nc_calls c) + timeout) [] (nc_tick c) \<noteq> None"
    by (rule response_turns_return)
  then show ?thesis unfolding nscang_client_response_def
    by (intro returns a)
qed

lemma requests_return [returns]:
  assumes "clock_runs env"
  shows "expect env w timeout c \<noteq> None" "nscang_client_send_moin env timeout c \<noteq> None"
    "push_command env k eol m n timeout c \<noteq> None"
proof -
  show e: "expect env w timeout c \<noteq> None" for w c
    unfolding expect_def by (intro returns assms)
  show "nscang_client_send_moin env timeout c \<noteq> None"
    unfolding nscang_client_send_moin_def Let_def write_object_def by (intro returns assms e)
  show "push_command env k eol m n timeout c \<noteq> None"
    unfolding push_command_def write_object_def by (intro returns assms e)
qed

section \<open>What is sent\<close>

text \<open>Without partial writes, which are off by default, \<open>SSL_write\<close> succeeds for the whole data.\<close>

definition full_writes :: "nscang_env \<Rightarrow> bool" where
  "full_writes env \<longleftrightarrow> (\<forall>k buf. 0 < ne_write env k buf \<longrightarrow> ne_write env k buf = int (length buf))"

lemma write_turns_sent:
  assumes "write_turns env buf endtime c = Some r"
  shows "full_writes env \<longrightarrow> fst r \<longrightarrow>
    nc_sent (snd r) = nc_sent c @ buf \<and> nc_state (snd r) = nc_state c \<and> nc_ssl (snd r) = nc_ssl c"
proof (rule write_turns.raw_induct [where P = "\<lambda>env buf endtime c r. full_writes env \<longrightarrow> fst r \<longrightarrow>
    nc_sent (snd r) = nc_sent c @ buf \<and> nc_state (snd r) = nc_state c \<and> nc_ssl (snd r) = nc_ssl c", OF _ assms])
  fix f env buf endtime and c :: nscang and r
  assume IH: "\<And>env buf endtime c r. f env buf endtime c = Some r \<Longrightarrow> full_writes env \<longrightarrow> fst r \<longrightarrow>
      nc_sent (snd r) = nc_sent c @ buf \<and> nc_state (snd r) = nc_state c \<and> nc_ssl (snd r) = nc_ssl c"
    and eq: "(let k = nc_calls c; rc = ne_write env k buf; c = nc_tick c
      in if rc > 0 then Some (True, c\<lparr>nc_sent := nc_sent c @ take (nat rc) buf\<rparr>)
         else if \<not> ne_retry env k then Some (False, nc_fail ERROR_SSL c)
         else if ne_time env k > endtime then Some (False, nc_fail ERROR_TIMEOUT c)
         else f env buf endtime c) = Some r"
  show "full_writes env \<longrightarrow> fst r \<longrightarrow>
      nc_sent (snd r) = nc_sent c @ buf \<and> nc_state (snd r) = nc_state c \<and> nc_ssl (snd r) = nc_ssl c"
  proof (intro impI)
    assume w: "full_writes env" "fst r"
    then have "0 < ne_write env (nc_calls c) buf \<Longrightarrow> nat (ne_write env (nc_calls c) buf) = length buf"
      by (metis full_writes_def nat_int)
    then show "nc_sent (snd r) = nc_sent c @ buf \<and> nc_state (snd r) = nc_state c \<and> nc_ssl (snd r) = nc_ssl c"
      using eq IH[of env buf endtime "nc_tick c" r] w by (auto simp: Let_def split: if_splits)
  qed
qed

lemma write_sent:
  assumes "full_writes env" "nscang_client_write env buf timeout c = Some (Ret (True, c'))"
  shows "nc_sent c' = nc_sent c @ buf" "nc_state c' = nc_state c" "nc_ssl c' = nc_ssl c"
  using assms write_turns_sent[of env buf "ne_time env (nc_calls c) + timeout" "nc_tick c" "(True, c')"]
  by (auto simp: nscang_client_write_def split: if_splits)

lemma write_object_sent:
  assumes "full_writes env" "write_object env m n timeout c = Some (Ret (True, c'))"
  shows "nc_sent c' = nc_sent c @ take n m" "nc_state c' = nc_state c" "nc_ssl c' = nc_ssl c" "n \<le> length m"
  using assms write_sent[of env "take n m" timeout c c'] by (auto simp: write_object_def split: if_splits)

definition same_talk :: "nscang \<Rightarrow> nscang \<Rightarrow> bool" where
  "same_talk c c' \<longleftrightarrow> nc_sent c' = nc_sent c \<and> nc_state c' = nc_state c \<and> nc_ssl c' = nc_ssl c"

lemma response_turns_same:
  assumes "response_turns env endtime d c = Some r"
  shows "\<forall>m c'. r = Ret (Some m, c') \<longrightarrow> same_talk c c'"
proof (rule response_turns.raw_induct [where P = "\<lambda>env endtime d c r. \<forall>m c'. r = Ret (Some m, c') \<longrightarrow> same_talk c c'", OF _ assms])
  fix f env endtime d and c :: nscang and r
  assume IH: "\<And>env endtime d c r. f env endtime d c = Some r \<Longrightarrow> \<forall>m c'. r = Ret (Some m, c') \<longrightarrow> same_talk c c'"
    and eq: "(let k = nc_calls c;
          new = take (RESPONSE_SIZE - length d) (ne_read env k (RESPONSE_SIZE - length d));
          c = nc_tick c;
          d' = d @ new
      in if new \<noteq> [] \<and> last d' = LF then Some (obind (end_line d') (\<lambda>m. Ret (Some m, c)))
         else if new \<noteq> [] \<and> length d' = RESPONSE_SIZE then Some (Ret (None, nc_fail ERROR_TOO_LONG_RESPONSE c))
         else if new = [] \<and> \<not> ne_retry env k then Some (Ret (None, nc_fail ERROR_SSL c))
         else if ne_time env k > endtime then Some (Ret (None, nc_fail ERROR_TIMEOUT c))
         else f env endtime d' c) = Some r"
  let ?d = "d @ take (RESPONSE_SIZE - length d) (ne_read env (nc_calls c) (RESPONSE_SIZE - length d))"
  show "\<forall>m c'. r = Ret (Some m, c') \<longrightarrow> same_talk c c'"
    using eq IH[of env endtime ?d "nc_tick c" r]
    by (auto simp: Let_def same_talk_def obind_eq_Ret split: if_splits)
qed

lemma expect_same:
  assumes "expect env w timeout c = Some (Ret (True, c'))"
  shows "same_talk c c'"
proof -
  obtain rc where r: "nscang_client_response env timeout c = Some (Ret (rc, c'))" "rc \<noteq> RESP_NONE"
    using assms by (auto simp: expect_def rbind_Ret split: if_splits)
  then obtain m c1 where m: "response_turns env (ne_time env (nc_calls c) + timeout) [] (nc_tick c) = Some (Ret (Some m, c1))"
    "judge_response env m c1 = Some (Ret (rc, c'))"
    by (auto simp: nscang_client_response_def rbind_Ret split: if_splits option.splits)
  have "c' = c1" using m(2) r(2)
    by (auto simp: judge_response_def Let_def rbind_Ret obind_eq_Ret split: if_splits)
  moreover have "same_talk (nc_tick c) c1" using response_turns_same[OF m(1)] by blast
  ultimately show ?thesis by (simp add: same_talk_def)
qed

section \<open>Texts that fit\<close>

lemma show_nat_fits: "n < 10 ^ k \<Longrightarrow> 0 < k \<Longrightarrow> length (show_nat n) \<le> k"
  using show_base_length[of 10 n k] by (simp add: show_base_10)

lemma snprintf_fits:
  assumes "length t < bufsz" "bufsz \<le> object"
  shows "take (length t) (snprintf_new object bufsz t) = t" "length (snprintf_new object bufsz t) = object"
    "NUL \<notin> set t \<Longrightarrow> cstr (snprintf_new object bufsz t) = t"
    "length t < object" "take (Suc (length t)) ((snprintf_new object bufsz t)[length t := x]) = t @ [x]"
proof -
  have s: "snprintf_new object bufsz t = t @ NUL # drop (Suc (length t)) (replicate object undefined)"
    using assms by (simp add: snprintf_new_def buffer_after_def)
  show "take (length t) (snprintf_new object bufsz t) = t" "length (snprintf_new object bufsz t) = object" "length t < object"
    "NUL \<notin> set t \<Longrightarrow> cstr (snprintf_new object bufsz t) = t"
    "take (Suc (length t)) ((snprintf_new object bufsz t)[length t := x]) = t @ [x]"
    using assms by (simp_all add: s cstr_id list_update_append)
qed

lemma random_digits_facts:
  "length (random_digits n) \<le> 10" "random_digits n \<noteq> []" "set (random_digits n) \<inter> {NUL, SPACE, TAB, CR, LF} = {}"
proof -
  have "n mod 2 ^ 31 < 10 ^ 10" using mod_less_divisor[of "2 ^ 31" n] by simp
  then show "length (random_digits n) \<le> 10" using show_nat_fits[of "n mod 2 ^ 31" 10] by (simp add: random_digits_def Let_def)
  show "random_digits n \<noteq> []" by (simp add: random_digits_def Let_def)
  show "set (random_digits n) \<inter> {NUL, SPACE, TAB, CR, LF} = {}" by (auto simp: random_digits_def Let_def)
qed

section \<open>The conversation\<close>

lemma moin_sent:
  assumes "full_writes env" "nc_state c = STATE_NEW" "nscang_client_send_moin env timeout c = Some (Ret (True, c'))"
  shows "\<exists>a b. nc_sent c' = nc_sent c @ moin_text a b \<and> nc_state c' = STATE_MOIN"
proof -
  let ?t = "moin_text (ne_random env (nc_calls c)) (ne_random env (Suc (nc_calls c)))"
  obtain c1 c2 where c: "write_object env (snprintf_new 64 64 ?t) (length ?t) timeout (nc_tick (nc_tick c)) = Some (Ret (True, c1))"
    "expect env RESP_MOIN timeout c1 = Some (Ret (True, c2))" "c' = c2\<lparr>nc_state := STATE_MOIN\<rparr>"
    using assms(2,3) by (auto simp: nscang_client_send_moin_def Let_def rbind_Ret split: if_splits)
  have "length ?t < 64"
    using random_digits_facts(1)[of "ne_random env (nc_calls c)"] random_digits_facts(1)[of "ne_random env (Suc (nc_calls c))"]
    by (simp add: moin_text_def)
  then show ?thesis
    using write_object_sent(1)[OF assms(1) c(1)] expect_same[OF c(2)] c(3) snprintf_fits(1)[of ?t 64 64]
    by (intro exI[of _ "ne_random env (nc_calls c)"] exI[of _ "ne_random env (Suc (nc_calls c))"])
      (simp add: same_talk_def)
qed

lemma push_sent:
  assumes "full_writes env" "push_command env bufsz eol m n timeout c = Some (Ret (True, c'))"
    and "n < 10 ^ 10" "bufsz \<in> {32, 64}" "eol = [LF] \<or> eol = [CR, LF]"
  shows "nc_sent c' = nc_sent c @ ''PUSH '' @ show_nat n @ eol @ take n m" "n \<le> length m"
proof -
  let ?t = "''PUSH '' @ show_nat n @ eol"
  obtain c1 c2 c3 where c: "nscang_client_write env (cstr (snprintf_new bufsz bufsz ?t)) timeout c = Some (Ret (True, c1))"
    "expect env RESP_OKAY timeout c1 = Some (Ret (True, c2))"
    "write_object env m n timeout c2 = Some (Ret (True, c3))" "expect env RESP_OKAY timeout c3 = Some (Ret (True, c'))"
    using assms(2) by (auto simp: push_command_def rbind_Ret split: if_splits)
  have "length ?t < bufsz" using assms(4,5) show_nat_fits[OF assms(3)] by auto
  moreover have "NUL \<notin> set ?t" using assms(5) by auto
  ultimately have "cstr (snprintf_new bufsz bufsz ?t) = ?t" by (intro snprintf_fits(3)) simp_all
  then show "nc_sent c' = nc_sent c @ ''PUSH '' @ show_nat n @ eol @ take n m" "n \<le> length m"
    using write_sent(1)[OF assms(1) c(1)] expect_same[OF c(2)] write_object_sent(1,4)[OF assms(1) c(3)] expect_same[OF c(4)]
    by (simp_all add: same_talk_def)
qed

lemma stamped_length: "length (stamped now t) \<le> 13 + length t"
proof -
  have "nat (now mod 2 ^ 32) < 10 ^ 10"
    using pos_mod_bound[of "2 ^ 32" now] pos_mod_sign[of "2 ^ 32" now] by simp
  from show_nat_fits[OF this] show ?thesis by (simp add: stamped_def)
qed

lemma py_push_sent:
  assumes "full_writes env" "nc_state c = STATE_NEW" "length (result_text host service status message) \<le> 1009"
    and "py_client_send_push env host service status message timeout c = Some (Ret (True, c'))"
  shows "\<exists>a b now. let t = stamped now (result_text host service status message) @ [LF] in
    nc_sent c' = nc_sent c @ moin_text a b @ ''PUSH '' @ show_nat (length t) @ [LF] @ t"
proof -
  obtain c1 where c1: "nscang_client_send_moin env timeout c = Some (Ret (True, c1))"
    using assms(4) by (auto simp: py_client_send_push_def rbind_Ret split: if_splits)
  define t where "t = stamped (ne_time env (nc_calls c1)) (result_text host service status message)"
  have l: "length t < COMMAND_SIZE - 1" using stamped_length[of "ne_time env (nc_calls c1)" "result_text host service status message"] assms(3)
    by (simp add: t_def COMMAND_SIZE_def)
  note f = snprintf_fits[OF l diff_le_self]
  have "store (snprintf_new COMMAND_SIZE (COMMAND_SIZE - 1) t) (length t) LF = Ret ((snprintf_new COMMAND_SIZE (COMMAND_SIZE - 1) t)[length t := LF])"
    using f(2,4) by simp
  then have p: "push_command env 64 [LF] ((snprintf_new COMMAND_SIZE (COMMAND_SIZE - 1) t)[length t := LF]) (length t + 1) timeout (nc_tick c1) =
      Some (Ret (True, c'))"
    using assms(4) by (simp add: py_client_send_push_def c1 Let_def t_def [symmetric] lift_outcome_def)
  have n: "length t + 1 < 10 ^ 10" using l by (simp add: COMMAND_SIZE_def)
  obtain a b where "nc_sent c1 = nc_sent c @ moin_text a b" using moin_sent[OF assms(1,2) c1] by blast
  with push_sent(1)[OF assms(1) p n] f(5) show ?thesis
    by (intro exI[of _ a] exI[of _ b] exI[of _ "ne_time env (nc_calls c1)"]) (simp add: t_def [symmetric])
qed

section \<open>Properties\<close>

text \<open>
  Property C37.
  A method of the Python module returns, whatever the server and OpenSSL answer, as long as the
  clock goes on: every loop looks at it. It may take the deadline of every request to do so.
\<close>

theorem py_result_returns:
  assumes "\<And>b k. \<exists>n. b < ne_time env (k + n)"
  shows "py_result env host service status message timeout c \<noteq> None"
proof -
  have r: "clock_runs env" using assms by (simp add: clock_runs_def)
  have "py_client_send_push env host service status message timeout c \<noteq> None" for c
    unfolding py_client_send_push_def Let_def by (intro returns r)
  then show ?thesis unfolding py_result_def by (intro returns r)
qed

definition quiet_env :: nscang_env where
  "quiet_env = \<lparr>ne_write = (\<lambda>k buf. - 1), ne_read = (\<lambda>k n. []), ne_retry = (\<lambda>k. True), ne_shutdown = (\<lambda>k. 1),
     ne_time = int, ne_random = (\<lambda>k. 7)\<rparr>"

definition new_client :: nscang where
  "new_client = nscang_zero\<lparr>nc_ssl := Some 1, nc_state := STATE_NEW\<rparr>"

lemma py_result_returns_witness:
  "py_result quiet_env ''host'' None 0 ''fine'' 5 new_client \<noteq> None"
  proof (rule py_result_returns)
  fix b k
  have "b < ne_time quiet_env (k + (nat b + 1))" by (simp add: quiet_env_def)
  then show "\<exists>n. b < ne_time quiet_env (k + n)" ..
qed

text \<open>
    A write goes on as long as OpenSSL asks for it to be repeated and the deadline has not passed:
  it returns exactly if one of its turns finds the data written, another error, or a clock
  behind the deadline. A clock that stands still can keep it for ever.
\<close>

theorem write_returns_iff:
  assumes "nc_ssl c = Some s"
  shows "nscang_client_write env buf timeout c \<noteq> None \<longleftrightarrow>
    (\<exists>k > nc_calls c. ne_write env k buf > 0 \<or> \<not> ne_retry env k \<or> ne_time env k > ne_time env (nc_calls c) + timeout)"
proof -
  let ?e = "ne_time env (nc_calls c) + timeout"
  have "nscang_client_write env buf timeout c \<noteq> None \<longleftrightarrow> write_turns env buf ?e (nc_tick c) \<noteq> None"
    using assms by (simp add: nscang_client_write_def)
  also have "\<dots> \<longleftrightarrow> (\<exists>n. write_ends env buf ?e (Suc (nc_calls c) + n))"
    using write_turns_return[of env buf ?e "nc_tick c"] write_turns_ended[of env buf ?e "nc_tick c"] by auto
  also have "\<dots> \<longleftrightarrow> (\<exists>k > nc_calls c. write_ends env buf ?e k)"
    by (metis Suc_le_eq le_Suc_ex less_add_Suc1 add_Suc)
  finally show ?thesis by (simp add: write_ends_def)
qed

lemma write_returns_iff_witness:
  "nscang_client_write quiet_env ''QUIT'' 0 new_client \<noteq> None"
  by (subst write_returns_iff[of _ 1]) (auto simp: quiet_env_def new_client_def nscang_zero_def intro: exI[of _ 1])

text \<open>
  Property C39.
  The Python client puts the newline where \<open>snprintf\<close> says the text would end, not where it was
  cut off: a result with a message of 1024 characters makes it write behind its buffer.
\<close>

theorem py_push_overruns:
  assumes "nc_state c = STATE_MOIN" "COMMAND_SIZE \<le> length message"
  shows "py_client_send_push env host service status message timeout c = Some (Die ''write outside an object'')"
proof -
  have "COMMAND_SIZE \<le> length (stamped now (result_text host service status message))" for now
    using assms(2) by (cases service) (simp_all add: stamped_def result_text_def)
  note overlong = this
  have size: "length (snprintf_new COMMAND_SIZE (COMMAND_SIZE - 1) t) = COMMAND_SIZE" for t
    by (simp add: snprintf_new_def buffer_after_def COMMAND_SIZE_def)
  have "store (snprintf_new COMMAND_SIZE (COMMAND_SIZE - 1) (stamped now (result_text host service status message)))
      (length (stamped now (result_text host service status message))) LF = Die ''write outside an object''" for now
    using overlong[of now] size by (simp add: store_def)
  then show ?thesis
    using assms(1) by (simp add: py_client_send_push_def nscang_client_send_moin_def Let_def lift_outcome_def)
qed

lemma py_push_overruns_witness:
  "py_client_send_push quiet_env ''host'' None 0 (replicate 2000 (CHR ''x'')) 5 (new_client\<lparr>nc_state := STATE_MOIN\<rparr>) =
    Some (Die ''write outside an object'')"
  by (rule py_push_overruns) (simp_all add: COMMAND_SIZE_def)

text \<open>
  Property C40.
  The Perl client keeps a command that has a time stamp of its own up to the last byte but one of
  its buffer; if it has to add a newline there, the NUL goes behind the buffer.
\<close>

theorem perl_command_overruns:
  assumes "has_timestamp_prefix errno_set command = 1" "NUL \<notin> set command"
    and "COMMAND_SIZE - 1 \<le> length command" "command ! (COMMAND_SIZE - 2) \<noteq> LF"
  shows "perl_client_send_command env errno_set command timeout c = Some (Die ''write outside an object'')"
proof -
  define n where "n = COMMAND_SIZE - 1"
  define t where "t = take n command"
  have n: "COMMAND_SIZE = Suc n" "0 < n" "COMMAND_SIZE - 2 = n - 1" by (simp_all add: n_def COMMAND_SIZE_def)
  have l: "n \<le> length command" using assms(3) by (simp add: n_def)
  have t: "length t = n" "NUL \<notin> set t" "t ! (n - 1) \<noteq> LF"
    using assms(2,4) l n(2,3) by (auto simp: t_def dest: in_set_takeD)
  have "NUL \<notin> set (take n (command @ [NUL]))" using t(2) l by (simp add: t_def)
  then have "strncpy (replicate COMMAND_SIZE undefined) (command @ [NUL]) n = Ret (t @ [undefined])"
    using l unfolding n(1) by (simp add: strncpy_def memcpy_at_def Suc_diff_le t_def del: replicate_Suc) simp
  moreover have "store (t @ [undefined]) n NUL = Ret (t @ [NUL])"
    using t(1) by (simp add: list_update_append)
  moreover have "end_command (t @ [NUL]) = Die ''write outside an object''"
    using t n(2) by (simp add: end_command_def Let_def cstr_id store_def nth_append list_update_append)
  ultimately show ?thesis
    by (simp add: perl_client_send_command_def assms(1) Let_def n_def [symmetric, simplified] lift_outcome_def)
qed

lemma perl_command_overruns_witness:
  "perl_client_send_command quiet_env False (''[1] '' @ replicate 2000 (CHR ''x'')) 5 new_client =
    Some (Die ''write outside an object'')"
  by (rule perl_command_overruns) 
    (simp_all add: COMMAND_SIZE_def has_timestamp_prefix_def is_digit_in_def digit_val_def nth_append nth_Cons' in_set_replicate)

lemma strncpy_terminated:
  assumes "NUL \<notin> set i" "length buf = n" "0 < n"
  shows "\<exists>m. obind (strncpy buf (i @ [NUL]) n) (\<lambda>m. store m (n - 1) NUL) = Ret m \<and> cstr m = take (n - 1) i \<and> length m = n"
proof (cases "length i < n")
  case True
  then have k: "n - length i = Suc (n - 1 - length i)" "take n (i @ [NUL]) = i @ [NUL]" by simp_all
  have "strncpy buf (i @ [NUL]) n = Ret (i @ replicate (n - length i) NUL)"
    using True assms by (simp add: strncpy_def memcpy_at_def k(2) cstr_id)
  moreover have "(i @ replicate (n - length i) NUL)[n - 1 := NUL] = i @ replicate (n - length i) NUL"
    using True by (auto simp: list_update_append list_update_same_conv intro!: nth_replicate)
  moreover have "cstr (i @ replicate (n - length i) NUL) = i" unfolding k(1) using assms(1) by (simp add: cstr_id)
  ultimately show ?thesis using True assms(3) by (simp add: store_def)
next
  case False
  have c: "NUL \<notin> set (take n i)" "NUL \<notin> set (take (n - 1) i)" using assms(1) by (auto dest: in_set_takeD)
  have "strncpy buf (i @ [NUL]) n = Ret (take n i)"
    using False assms(2) c by (simp add: strncpy_def memcpy_at_def)
  moreover have "(take n i)[n - 1 := NUL] = take (n - 1) i @ [NUL]"
    using False assms(3) by (cases n) (simp_all add: take_Suc_conv_app_nth list_update_append)
  ultimately show ?thesis using False assms(3) c by (simp add: store_def cstr_id)
qed

text \<open>
  Property C38.
  A client that was made is found again by its \<open>SSL\<close> object: the callback gives OpenSSL the
  identity and the key, as much as fits, terminated, and the length of the key. When it has
  been released the table is as it was before.
\<close>

theorem py_client_registered:
  assumes "py_client_init made lock tbl ciphers identity psk = Some (True, tbl', c)"
    and "nm_ssl made = Some s" "tbl s = None" "NUL \<notin> set identity" "NUL \<notin> set psk"
    and "lock' 0 = 0" "length buf = n" "length key = k" "0 < n" "0 < k"
  shows "(\<exists>buf' key'. py_set_psk lock' tbl' s buf n key k = Some (Ret (buf', key', length (take (k - 1) psk))) \<and>
      cstr buf' = take (n - 1) identity \<and> cstr key' = take (k - 1) psk) \<and>
    (\<exists>c'. py_client_free env lock' tbl' c = Some (Ret (tbl, c')) \<and> nc_ssl c' = None \<and> nc_state c' = STATE_NONE)"
proof -
  have c: "nc_ssl c = Some s" "nc_state c = STATE_NEW" "tbl' = tbl(s \<mapsto> (identity, psk))"
    using assms(1,2) by (auto simp: py_client_init_def client_made_def hash_add_def Let_def split: if_splits option.splits prod.splits)
  have lock: "lock_turns lock' again 0 = Some 0" if "0 \<notin> again" for again
    using that assms(6) by (subst lock_turns.simps) simp
  obtain buf' where b: "obind (strncpy buf (identity @ [NUL]) n) (\<lambda>m. store m (n - 1) NUL) = Ret buf'" "cstr buf' = take (n - 1) identity"
    using strncpy_terminated[OF assms(4,7,9)] by blast
  obtain key' where k: "obind (strncpy key (psk @ [NUL]) k) (\<lambda>m. store m (k - 1) NUL) = Ret key'" "cstr key' = take (k - 1) psk"
    using strncpy_terminated[OF assms(5,8,10)] by blast
  have "py_set_psk lock' tbl' s buf n key k = Some (Ret (buf', key', length (take (k - 1) psk)))"
    using b k lock[of "{LOCK_EBUSY, LOCK_EAGAIN}"]
    by (auto simp: py_set_psk_def psk_answer_def c(3) lift_outcome_def LOCK_EBUSY_def LOCK_EAGAIN_def obind_eq_Ret)
  moreover have "tbl(s \<mapsto> (identity, psk), s := None) = tbl" using assms(3) by auto
  then have "\<exists>c'. py_client_free env lock' tbl' c = Some (Ret (tbl, c')) \<and> nc_ssl c' = None \<and> nc_state c' = STATE_NONE"
    using lock[of "{LOCK_EBUSY}"] c
    by (simp add: py_client_free_def nscang_client_disconnect_def hash_del_def lift_outcome_def rreturn_def nc_released_def
        LOCK_EBUSY_def Let_def)
  ultimately show ?thesis using b(2) k(2) by blast
qed

definition willing :: nscang_make where
  "willing = \<lparr>nm_ctx = True, nm_ciphers = (\<lambda>l. True), nm_bio = True, nm_ssl = Some 1, nm_identity = True, nm_psk = True\<rparr>"

lemma willing_init:
  "py_client_init willing (\<lambda>k. 0) (\<lambda>s. None) None ''alice'' ''secret'' =
    Some (True, [1 \<mapsto> (''alice'', ''secret'')],
      nscang_zero\<lparr>nc_ctx := True, nc_bio := True, nc_ssl := Some 1, nc_identity := Some ''alice'', nc_psk := Some ''secret'',
        nc_state := STATE_NEW\<rparr>)"
  by (simp add: py_client_init_def client_made_def willing_def hash_add_def nscang_zero_def LOCK_EBUSY_def Let_def lock_turns.simps)

lemma py_client_registered_witness:
  "\<exists>buf' key'. py_set_psk (\<lambda>k. 0) [1 \<mapsto> (''alice'', ''secret'')] 1 (replicate 4 SPACE) 4 (replicate 9 SPACE) 9 =
      Some (Ret (buf', key', 6)) \<and> cstr buf' = ''ali'' \<and> cstr key' = ''secret''"
proof -
  have "nm_ssl willing = Some 1" by (simp add: willing_def)
  from py_client_registered[OF willing_init this, of "\<lambda>k. 0" "replicate 4 SPACE" 4 "replicate 9 SPACE" 9 quiet_env, THEN conjunct1]
  show ?thesis by (simp add: eval_nat_numeral)
qed

text \<open>
    When memory for the identity or the key is exhausted, a client is left that has an \<open>SSL\<close> object
  but is not in the table; the Perl module releases it, which removes it from the table.
\<close>

theorem failed_init_free:
  assumes "nm_ctx made" "ciphers = None" "nm_bio made" "nm_ssl made = Some s" "tbl s = None"
    and "\<not> (nm_identity made \<and> nm_psk made)"
  shows "\<exists>c. perl_client_init made tbl ciphers identity psk = (False, tbl, c) \<and> nc_errno c = ERROR_MALLOC \<and>
    perl_client_free env tbl c = Some (Die ''not in the table'')"
  using assms by (auto simp: perl_client_init_def client_made_def nc_fail_def perl_client_free_def hash_del_def
      nscang_zero_def Let_def lift_outcome_def)

lemma failed_init_free_witness:
  "\<exists>c. perl_client_init (willing\<lparr>nm_psk := False\<rparr>) (\<lambda>s. None) None ''alice'' ''secret'' = (False, \<lambda>s. None, c) \<and>
    nc_errno c = ERROR_MALLOC \<and> perl_client_free quiet_env (\<lambda>s. None) c = Some (Die ''not in the table'')"
  by (rule failed_init_free[of _ _ 1]) (simp_all add: willing_def)

section \<open>Answers at once\<close>

lemma write_now:
  assumes "nc_ssl c \<noteq> None" "ne_write env (Suc (nc_calls c)) buf = int (length buf)" "buf \<noteq> []"
  shows "nscang_client_write env buf timeout c = Some (Ret (True, (nc_tick (nc_tick c))\<lparr>nc_sent := nc_sent c @ buf\<rparr>))"
  using assms by (simp add: nscang_client_write_def write_turns.simps Let_def)

lemma expect_now:
  assumes "nc_ssl c \<noteq> None" "take RESPONSE_SIZE (ne_read env (Suc (nc_calls c)) RESPONSE_SIZE) = l @ [CR, LF]"
    and "(l, w) \<in> {(''MOIN 1'', RESP_MOIN), (''OKAY'', RESP_OKAY)}"
  shows "expect env w timeout c = Some (Ret (True, nc_tick (nc_tick c)))"
proof -
  define k where "k = RESPONSE_SIZE - Suc (Suc (length l))"
  have "length (l @ [CR, LF]) \<le> RESPONSE_SIZE" by (metis assms(2) length_take min.cobounded2)
  then have e: "end_line (l @ [CR, LF]) = Ret (l @ NUL # LF # replicate k undefined)"
    by (simp add: end_line_def Let_def nth_append list_update_append k_def)
  have "response_turns env endtime [] (nc_tick c) = Some (Ret (Some (l @ NUL # LF # replicate k undefined), nc_tick (nc_tick c)))" for endtime
  proof -
    have "ne_read env (Suc (nc_calls c)) RESPONSE_SIZE \<noteq> []" using assms(2) by (metis append_is_Nil_conv list.discI take_Nil)
    moreover have "0 < RESPONSE_SIZE" by (simp add: RESPONSE_SIZE_def)
    ultimately show ?thesis using assms(2) e by (subst response_turns.simps) (simp add: Let_def)
  qed
  then show ?thesis using assms(1,3) by (auto simp: expect_def nscang_client_response_def judge_response_def rreturn_def)
qed

end
