(* ===== verification/ModuleSubmission.thy ===== *)
theory ModuleSubmission
  imports ModuleClientRun Submission
begin

text \<open>
  The client of the Python module and the server together: what the client has sent when it
  reports success is a conversation of which the protocol server submits exactly the result.
\<close>

section \<open>Requests without a carriage return\<close>




section \<open>Property\<close>


text \<open>A server and a connection that answer at once.\<close>

definition prompt_env :: nscang_env where
  "prompt_env = \<lparr>ne_write = (\<lambda>k buf. int (length buf)),
     ne_read = (\<lambda>k n. if k = 5 then ''MOIN 1'' @ [CR, LF] else ''OKAY'' @ [CR, LF]),
     ne_retry = (\<lambda>k. False), ne_shutdown = (\<lambda>k. 1), ne_time = (\<lambda>k. 7), ne_random = (\<lambda>k. 3)\<rparr>"

lemma prompt_simps [simp]:
  "ne_write prompt_env k buf = int (length buf)" "ne_time prompt_env k = 7" "ne_random prompt_env k = 3"
  "ne_read prompt_env k n = (if k = 5 then ''MOIN 1'' @ [CR, LF] else ''OKAY'' @ [CR, LF])"
  by (simp_all add: prompt_env_def)



end
