(* ===== verification/Spec2Isabelle.thy ===== *)
theory Spec2Isabelle
  imports SendNsca NscaNgRun ModuleSubmission
begin

text \<open>
  A model of NSCA-ng, a client and a server that submit monitoring results over TLS.

  The parts.  The program \<open>send_nsca\<close> (\<open>client/send_nsca.c\<close>, \<open>client/conf.c\<close>) reads check results
  or commands from its standard input (\<open>client/input.c\<close>), turns them into commands of the
  monitoring core (\<open>client/parse.c\<close>) and sends them over a TLS connection (\<open>client/client.c\<close>,
  \<open>client/auth.c\<close>, \<open>common/tls.c\<close>). The program \<open>nsca-ng\<close> (\<open>server/nsca-ng.c\<close>,
  \<open>lib/pidfile\<close>) accepts such connections (\<open>common/tls.c\<close>), talks a line protocol
  (\<open>server/server.c\<close>), checks the commands against regular expressions of its configuration
  (\<open>server/conf.c\<close>, \<open>server/auth.c\<close>, \<open>server/hash.c\<close>), and queues and writes them to the
  core's command file (\<open>server/fifo.c\<close>). Both sides use a chunked byte buffer
  (\<open>common/buffer.c\<close>), log messages (\<open>common/log.c\<close>) and string functions (\<open>common/util.c\<close>).

  Shared parts.
  \<^item> \<open>Prelude\<close>: bytes, memory and C strings, the \<open>outcome\<close> of an operation (a result, or
    the message of a \<open>die\<close>, a failed assertion or an undefined access), shared list lemmas.
  \<^item> \<open>Buffer\<close>: \<open>buffer.c\<close> block by block; the invariant of the chain; the contract of a byte
    queue as a locale, interpreted on the buffer; refinement of whole sequences of operations.
  \<^item> \<open>CString\<close>, \<open>Numbers\<close>: the string helpers of \<open>util.c\<close> and \<open>lib/\<close>, and the number
    conversions of the C library at their machine width.
  \<^item> \<open>Log\<close>: \<open>log.c\<close> and \<open>log.h\<close>; the bounds of its buffers and what a message becomes.
  \<^item> \<open>Getopt\<close>: the option loop of both programs over \<open>getopt\<close>, and that options written one by
    one are read back.
  \<^item> \<open>Xprintf\<close>, \<open>XprintfRun\<close>: \<open>lib/xprintf.c\<close>, the replacement of \<open>vsnprintf\<close> and its relatives
    character by character; that a call prints one text, of which every buffer gets as much as
    fits, what an integer conversion prints, and that \<open>strtol\<close> reads it back.
  \<^item> \<open>Tls\<close>, \<open>TlsEvents\<close>: \<open>tls.c\<close>, its watchers and requests; the locale \<open>tls_user\<close> has what the
    layer needs of the handlers of its user, and what its callbacks then guarantee. It is
    interpreted twice, on the server's handlers in \<open>Server\<close> and on the client's in \<open>ClientRun\<close>.

  The client.
  \<^item> \<open>ClientParse\<close>: \<open>parse.c\<close>, against a declarative description of check results.
  \<^item> \<open>Input\<close>: \<open>input.c\<close>, the standard input cut into chunks; the pieces do not depend on how
    \<open>read\<close> delivers them.
  \<^item> \<open>Client\<close>, \<open>ClientRun\<close>, \<open>ClientSession\<close>: the handlers of \<open>client.c\<close>; the step relation
    \<open>client_reaches\<close> and its invariant; what every run has written, confirmed and delivered.
  \<^item> \<open>ClientConf\<close>: \<open>conf.c\<close> and \<open>auth.c\<close>, the configuration file line by line.
  \<^item> \<open>ClientOptions\<close>, \<open>SendNsca\<close>: the options, the delay, and \<open>main\<close> of \<open>send_nsca.c\<close>.
  \<^item> \<open>ModuleClient\<close>, \<open>ModuleClientRun\<close>: the clients of the Python and Perl modules (\<open>python/client.c\<close>,
    \<open>perl/client.c\<close>), with their waiting loops and buffers; that they return, what they send,
    and where they leave their buffers or their table of clients.

  The server.
  \<^item> \<open>Hash\<close>, \<open>ServerConf\<close>, \<open>ServerAuth\<close>: the table of authorisations, its construction from a
    configuration with fallbacks, \<open>include\<close>, and the two checks made with it.
  \<^item> \<open>Fifo\<close>: \<open>fifo.c\<close> in both variants (POSIX AIO and synchronous dumps). A ghost trace notes
    what was submitted, written, dumped and lost; the step relation \<open>fifo_reaches\<close> lets the
    server submit and the event loop call back active watchers in any order.
  \<^item> \<open>Server\<close>, \<open>ServerProtocol\<close>: the handlers of \<open>server.c\<close>, and the protocol as a function from
    request lines to replies that they implement.
  \<^item> \<open>World\<close>, \<open>ServerRun\<close>: a writer and any number of connections under the event loop; the
    invariant of all reachable worlds, and sample runs.
  \<^item> \<open>Pidfile\<close>: \<open>pidfile.c\<close> and \<open>flopen.c\<close>, with the descriptors that stay open.
  \<^item> \<open>Process\<close>, \<open>ProcessSafety\<close>: the process around the server, what it holds and how it ends,
    its exit functions, privileges and options; triples for its steps, in which every end is a
    clean one.
  \<^item> \<open>NscaNg\<close>, \<open>NscaNgRun\<close>: \<open>main\<close> of \<open>nsca-ng.c\<close> from the start over the event loop to the end
    or restart; that it never uses freed memory, with which rights it acts, what is left of
    the writer, and what a restart meets.

  Both together.
  \<^item> \<open>Submission\<close>, \<open>ModuleSubmission\<close>: the protocol server on the whole conversation of a client, of
    either kind, submits exactly the client's commands.

  Conventions.  State is passed explicitly, as records with the fields of the C structures.
  What the system or a library answers is a function of a call counter in a record
  (\<open>fifo_os\<close>, \<open>ssl_env\<close>, \<open>openssl_env\<close>, \<open>pid_os\<close>), so every interleaving of answers is covered;
  loops that only repeat an interrupted call take its final answer. \<open>Die\<close> stands for the program
  ending, for a failed assertion and for undefined behaviour; \<open>Process\<close> tells the two apart, as
  \<open>Exited\<close> and \<open>Fault\<close>. Memory that is only released is not part of the state, except for
  flags that a connection, its data, the configuration or a handle has been freed.
  Loops are total functions: those that read or write more data have a measure on what is
  left. The loops that may run for ever, that of \<open>flopen\<close> and those of the modules' clients that
  wait for the connection or a lock, are \<open>partial_function\<close>s; no
  definition takes fuel, and event loops run over the list of events that happen. Sizes are
  natural numbers where the code's cannot wrap, and taken modulo 2^64 where they can
  (\<open>concat\<close>, \<open>max_queue_size\<close>); \<open>atoi\<close> is cut to 32 bits.

  Parameters.  OpenSSL, libev's readiness, the system calls, \<open>regcomp\<close>, \<open>regexec\<close>, libConfuse's
  parser and setter, \<open>hcreate\<close>, the \<open>vsnprintf\<close> of log messages, the arithmetic of
  \<open>long double\<close> and the locale are arguments. The hypotheses about them state
  documented behaviour: \<open>posix_ok\<close> (a write of at most \<open>PIPE_BUF\<close> bytes is atomic, descriptors are
  not negative), \<open>ssl_ok\<close> (a successful \<open>SSL_read\<close> or \<open>SSL_write\<close> moves between one byte and
  those asked for), \<open>full_writes\<close> (an \<open>SSL_write\<close> that may not be partial succeeds for all
  data), \<open>setopt_ok\<close> (\<open>cfg_setopt\<close> appends the parsed value or fails).
  \<open>getopt\<close> is that of POSIX, which stops at the first operand.

  Not modelled.  What the programs print (usage, version); \<open>free\<close> and the allocation wrappers,
  which end the program when memory is exhausted; \<open>lib/daemon.c\<close> and \<open>mymemcpy\<close> of
  \<open>lib/xprintf.c\<close>, replacements for systems that lack these functions; libev, which is vendored; and
  what converts arguments and objects for the Python and Perl interpreters.
\<close>

end
